(* ===== verification/Prelude.thy ===== *)
theory Prelude
  imports Main "HOL-Library.Word" "HOL-Library.Monad_Syntax"
begin

unbundle bit_operations_syntax

text \<open>
  Shared vocabulary of the development: the fixed-width integer types of the C headers, the
  rules that relate C's integer promotion to arithmetic at the width of the target, byte
  buffers with checked accesses (\<open>None\<close> is an access outside the object), the packing idioms
  the headers use (big-endian pairs and triples, nibbles, binary-coded decimal), and the
  collections of simplification rules the component theories rely on.
\<close>

section \<open>Machine integers\<close>

type_synonym u8 = "8 word"
type_synonym u16 = "16 word"
type_synonym u32 = "32 word"
type_synonym u64 = "64 word"
type_synonym c_int = "32 word"

named_theorems c_consts \<open>values of preprocessor constants\<close>
named_theorems c_mem \<open>checked accesses to byte buffers\<close>
named_theorems c_pack \<open>packing and unpacking of operands\<close>

text \<open>
  C promotes every \<open>__u8\<close> and \<open>__u16\<close> operand to \<open>int\<close> and truncates on assignment. On the
  operators the headers use, that is the same as computing at the width of the target; the
  models below are written at that width on the strength of the next lemmas.
\<close>

lemma promote_shl: "ucast (push_bit n (ucast a :: c_int)) = push_bit n (a :: u8)"
  by (rule bit_word_eqI) (auto simp: bit_simps)

lemma promote_shr: "ucast (drop_bit n (ucast a :: c_int)) = drop_bit n (a :: u8)"
  by (rule bit_word_eqI) (auto simp: bit_simps dest: bit_imp_le_length)

lemma promote_or: "ucast (ucast a OR ucast b :: c_int) = a OR (b :: u8)"
  by (rule bit_word_eqI) (auto simp: bit_simps)

lemma promote_and: "ucast (ucast a AND ucast b :: c_int) = a AND (b :: u8)"
  by (rule bit_word_eqI) (auto simp: bit_simps)

lemma unat_promote: "unat (ucast (a :: u8) :: c_int) = unat a"
  using unsigned_less [of a, where 'a = nat]
  by (simp add: unsigned_ucast_eq take_bit_nat_eq_self_iff)

lemma promote_div: "ucast ((ucast a :: c_int) div ucast b) = a div (b :: u8)"
proof -
  have "(ucast a :: c_int) div ucast b = ucast (a div b)"
    by (simp add: word_unat_eq_iff unat_div unat_promote)
  then show ?thesis by (simp add: ucast_up_ucast_id is_up)
qed

lemma unat_of_nat_u32: "n < 2 ^ 32 \<Longrightarrow> unat (of_nat n :: u32) = n"
  by (simp add: unsigned_of_nat take_bit_nat_eq_self_iff)

section \<open>Byte pairs and triples\<close>

text \<open>
  \<open>x >> 8\<close> and \<open>x & 0xff\<close> stored in a byte, and \<open>(a << 8) | b\<close> read back as a \<open>__u16\<close>.
\<close>

definition hi8 :: "u16 \<Rightarrow> u8" where
  "hi8 x = ucast (drop_bit 8 x)"

definition lo8 :: "u16 \<Rightarrow> u8" where
  "lo8 x = ucast (x AND 0xff)"

definition be16 :: "u8 \<Rightarrow> u8 \<Rightarrow> u16" where
  "be16 a b = push_bit 8 (ucast a) OR ucast b"

text \<open>The same for the 24-bit vendor identifiers and audio descriptors.\<close>

definition byte2 :: "u32 \<Rightarrow> u8" where
  "byte2 x = ucast (drop_bit 16 x)"

definition byte1 :: "u32 \<Rightarrow> u8" where
  "byte1 x = ucast (drop_bit 8 x AND 0xff)"

definition byte0 :: "u32 \<Rightarrow> u8" where
  "byte0 x = ucast (x AND 0xff)"

definition be24 :: "u8 \<Rightarrow> u8 \<Rightarrow> u8 \<Rightarrow> u32" where
  "be24 a b c = push_bit 16 (ucast a) OR push_bit 8 (ucast b) OR ucast c"

lemma mask8_u16: "(0xff :: u16) = mask 8"
  by (simp add: mask_eq_exp_minus_1)

lemma mask8_u32: "(0xff :: u32) = mask 8"
  by (simp add: mask_eq_exp_minus_1)

lemma be16_split [simp, c_pack]: "be16 (hi8 x) (lo8 x) = x"
  unfolding be16_def hi8_def lo8_def mask8_u16
  by (rule bit_word_eqI) (auto simp: bit_simps)

lemma hi8_be16 [simp, c_pack]: "hi8 (be16 a b) = a"
  unfolding be16_def hi8_def
  by (rule bit_word_eqI) (auto simp: bit_simps dest: bit_imp_le_length)

lemma lo8_be16 [simp, c_pack]: "lo8 (be16 a b) = b"
  unfolding be16_def lo8_def mask8_u16
  by (rule bit_word_eqI) (auto simp: bit_simps)

lemma be24_split [c_pack]: "be24 (byte2 x) (byte1 x) (byte0 x) = take_bit 24 x"
proof (rule bit_word_eqI)
  fix n
  assume "n < LENGTH(32)"
  consider "n < 8" | "8 \<le> n" "n < 16" | "16 \<le> n"
    by linarith
  then show "bit (be24 (byte2 x) (byte1 x) (byte0 x)) n = bit (take_bit 24 x) n"
    unfolding be24_def byte2_def byte1_def byte0_def mask8_u32
    by cases (auto simp: bit_simps)
qed

lemma be24_split_id:
  assumes "x < 0x1000000"
  shows "be24 (byte2 x) (byte1 x) (byte0 x) = x"
proof -
  have "take_bit 24 x = x"
    using assms less_mask_eq [of x 24] by (simp add: take_bit_eq_mask)
  then show ?thesis by (simp add: be24_split)
qed

section \<open>Bit fields of a byte\<close>

lemma take_bit_u8: "x < 2 ^ n \<Longrightarrow> take_bit n (x :: u8) = x"
  by (simp add: take_bit_eq_mask less_mask_eq)

lemma field_hi:
  assumes "b < 2 ^ n" and "a < 2 ^ (8 - n)" and "n < 8"
  shows "drop_bit n (push_bit n a OR b) = (a :: u8)"
proof -
  have a: "take_bit (8 - n) a = a" and b: "take_bit n b = b"
    using assms by (simp_all add: take_bit_u8)
  have "drop_bit n (push_bit n (take_bit (8 - n) a) OR take_bit n b) = take_bit (8 - n) a"
    by (rule bit_word_eqI) (auto simp: bit_simps)
  then show ?thesis using a b by simp
qed

lemma field_lo:
  assumes "b < 2 ^ n"
  shows "(push_bit n a OR b) AND mask n = (b :: u8)"
proof -
  have b: "take_bit n b = b"
    using assms by (simp add: take_bit_u8)
  have "(push_bit n a OR take_bit n b) AND mask n = take_bit n b"
    by (rule bit_word_eqI) (auto simp: bit_simps)
  then show ?thesis using b by simp
qed

lemma nibbles [c_pack]:
  assumes "a < 16" and "b < 16"
  shows "drop_bit 4 (push_bit 4 a OR b) = (a :: u8)"
    and "(push_bit 4 a OR b) AND 0xf = (b :: u8)"
  using field_hi [of b 4 a] field_lo [of b 4 a] assms by (simp_all add: mask_eq_exp_minus_1)

lemma top_bit [c_pack]:
  assumes "a < 2" and "b < 0x80"
  shows "drop_bit 7 (push_bit 7 a OR b) = (a :: u8)"
    and "(push_bit 7 a OR b) AND 0x7f = (b :: u8)"
  using field_hi [of b 7 a] field_lo [of b 7 a] assms by (simp_all add: mask_eq_exp_minus_1)

text \<open>Facts about bytes below a bound, by running through the values.\<close>

lemma u8_table:
  assumes "list_all P (map word_of_nat [0..<n])" and "unat x < n"
  shows "P (x :: u8)"
proof -
  have "\<forall>k < n. P (word_of_nat k)"
    using assms(1) by (simp add: list_all_iff)
  then have "P (word_of_nat (unat x))"
    using assms(2) by blast
  then show ?thesis by simp
qed

section \<open>Binary-coded decimal\<close>

text \<open>
  \<open>((v / 10) << 4) | (v % 10)\<close> and \<open>(b >> 4) * 10 + (b & 0xf)\<close>.
\<close>

definition bcd :: "u8 \<Rightarrow> u8" where
  "bcd v = push_bit 4 (v div 10) OR (v mod 10)"

definition unbcd :: "u8 \<Rightarrow> u8" where
  "unbcd b = drop_bit 4 b * 10 + (b AND 0xf)"

lemma bcd_table: "list_all (\<lambda>v. (unbcd (bcd v) = v) = (v < 160)) (map word_of_nat [0..<256])"
  by code_simp

text \<open>The two are inverse exactly below 160: the tens digit has a nibble to itself.\<close>

lemma unbcd_bcd_iff: "unbcd (bcd v) = v \<longleftrightarrow> v < 160"
  using u8_table [OF bcd_table, of v] unsigned_less [of v, where 'a = nat] by simp

lemma unbcd_bcd [c_pack]: "v < 160 \<Longrightarrow> unbcd (bcd v) = v"
  by (simp add: unbcd_bcd_iff)

section \<open>Byte buffers\<close>

text \<open>
  An array of \<open>__u8\<close> (or \<open>char\<close>) is the list of its bytes; \<open>None\<close> is an access that leaves
  the array, which C leaves undefined.
\<close>

definition buf_get :: "'a list \<Rightarrow> nat \<Rightarrow> 'a option" where
  "buf_get bs i = (if i < length bs then Some (bs ! i) else None)"

definition buf_put :: "'a list \<Rightarrow> nat \<Rightarrow> 'a \<Rightarrow> 'a list option" where
  "buf_put bs i v = (if i < length bs then Some (bs[i := v]) else None)"

text \<open>\<open>memcpy(dst + di, src + si, n)\<close> on two different objects.\<close>

definition memcpy :: "u8 list \<Rightarrow> nat \<Rightarrow> u8 list \<Rightarrow> nat \<Rightarrow> nat \<Rightarrow> u8 list option" where
  "memcpy dst di src si n =
     (if di + n \<le> length dst \<and> si + n \<le> length src
      then Some (take di dst @ take n (drop si src) @ drop (di + n) dst) else None)"

text \<open>\<open>strlen\<close> of the string held in a buffer: it must hold a terminating NUL.\<close>

definition c_strlen :: "u8 list \<Rightarrow> nat option" where
  "c_strlen s = (if 0 \<in> set s then Some (length (takeWhile (\<lambda>c. c \<noteq> 0) s)) else None)"

lemma length_buf_put: "buf_put bs i v = Some bs' \<Longrightarrow> length bs' = length bs"
  by (auto simp: buf_put_def split: if_splits)

lemma length_memcpy: "memcpy dst di src si n = Some dst' \<Longrightarrow> length dst' = length dst"
  by (auto simp: memcpy_def split: if_splits)

lemma memcpy_nth:
  assumes "memcpy dst di src si n = Some dst'" and "i < length dst"
  shows "dst' ! i = (if di \<le> i \<and> i < di + n then src ! (si + (i - di)) else dst ! i)"
proof -
  have "di + n \<le> length dst" "si + n \<le> length src"
    and "dst' = take di dst @ take n (drop si src) @ drop (di + n) dst"
    using assms(1) by (auto simp: memcpy_def split: if_splits)
  then show ?thesis using assms(2) by (auto simp: nth_append)
qed

lemma c_strlen_buffer: "c_strlen (t @ [0]) = Some (length (takeWhile (\<lambda>c. c \<noteq> 0) t))"
  by (induction t) (auto simp: c_strlen_def)

lemma take_string:
  assumes "n \<le> length (takeWhile (\<lambda>c. c \<noteq> 0) t)"
  shows "take n (t @ [0]) = take n (takeWhile (\<lambda>c. c \<noteq> (0 :: u8)) t)"
proof -
  let ?P = "\<lambda>c :: u8. c \<noteq> 0"
  have "take n ((takeWhile ?P t @ dropWhile ?P t) @ [0]) = take n (takeWhile ?P t)"
    using assms by (simp del: takeWhile_dropWhile_id)
  then show ?thesis by simp
qed

lemma take_clamped_string:
  "take (min k (length (takeWhile (\<lambda>c. c \<noteq> 0) t))) (t @ [0]) =
    take k (takeWhile (\<lambda>c. c \<noteq> (0 :: u8)) t)"
proof -
  let ?s = "takeWhile (\<lambda>c. c \<noteq> 0) t"
  have "take (min k (length ?s)) ?s = take k ?s"
    by (simp add: min_def)
  then show ?thesis
    using take_string [of "min k (length ?s)" t] by (simp only: min.cobounded2)
qed

lemma takeWhile_terminated: "0 \<notin> set t \<Longrightarrow> takeWhile (\<lambda>c. c \<noteq> (0 :: u8)) (t @ 0 # u) = t"
  by (induction t) auto

lemma takeWhile_no_nul: "0 \<notin> set t \<Longrightarrow> takeWhile (\<lambda>c. c \<noteq> (0 :: u8)) t = t"
  by (induction t) auto

lemma take_nths: "n \<le> length xs \<Longrightarrow> take n xs = map ((!) xs) [0..<n]"
  by (simp add: list_eq_iff_nth_eq)

end
