(* ===== verification/Cec_Msg.thy ===== *)
theory Cec_Msg
  imports Cec_Const
begin

text \<open>
  \<open>struct cec_msg\<close> of \<open>sysincludes/linux/cec.h\<close> and the functions of that header: addressing,
  initialisation, replies and status, over checked accesses to the payload array.
\<close>

section \<open>The message structure\<close>

record cec_msg =
  tx_ts :: u64
  rx_ts :: u64
  len :: u32
  timeout :: u32
  sequence :: u32
  flags :: u32
  msg :: "u8 list"
  reply :: u8
  rx_status :: u8
  tx_status :: u8
  tx_arb_lost_cnt :: u8
  tx_nack_cnt :: u8
  tx_low_drive_cnt :: u8
  tx_error_cnt :: u8

text \<open>The payload is an array of \<open>CEC_MAX_MSG_SIZE\<close> bytes; accesses are checked against it.\<close>

definition wf_msg :: "cec_msg \<Rightarrow> bool" where
  "wf_msg m \<longleftrightarrow> length (msg m) = CEC_MAX_MSG_SIZE"

definition get :: "cec_msg \<Rightarrow> nat \<Rightarrow> u8 option" where
  "get m i = buf_get (msg m) i"

definition get16 :: "cec_msg \<Rightarrow> nat \<Rightarrow> u16 option" where
  "get16 m i = do { a \<leftarrow> get m i; b \<leftarrow> get m (i + 1); Some (be16 a b) }"

definition put :: "cec_msg \<Rightarrow> nat \<Rightarrow> u8 \<Rightarrow> cec_msg option" where
  "put m i v = do { bs \<leftarrow> buf_put (msg m) i v; Some (m\<lparr>msg := bs\<rparr>) }"

definition or_byte :: "cec_msg \<Rightarrow> nat \<Rightarrow> u8 \<Rightarrow> cec_msg option" where
  "or_byte m i v = do { b \<leftarrow> get m i; put m i (b OR v) }"

text \<open>
  Copying into and out of the payload. The \<open>cec_msg_*\<close> functions that take a string clamp its
  length before copying; the \<open>cec_ops_*\<close> functions that return one copy the bytes from
  position \<open>k\<close> on, at most \<open>cap\<close> of them, and terminate the caller's buffer.
\<close>

definition put_bytes :: "cec_msg \<Rightarrow> nat \<Rightarrow> u8 list \<Rightarrow> nat \<Rightarrow> cec_msg option" where
  "put_bytes m k src n = do { bs \<leftarrow> memcpy (msg m) k src 0 n; Some (m\<lparr>msg := bs\<rparr>) }"

definition clamp_strlen :: "nat \<Rightarrow> u8 list \<Rightarrow> nat option" where
  "clamp_strlen cap s = do { n \<leftarrow> c_strlen s; Some (if n > cap then cap else n) }"

definition get_string :: "cec_msg \<Rightarrow> u32 \<Rightarrow> u32 \<Rightarrow> u8 list \<Rightarrow> u8 list option" where
  "get_string m k cap buf = do {
     let n = (if len m > k then len m - k else 0);
     let n = (if n > cap then cap else n);
     buf \<leftarrow> memcpy buf 0 (msg m) (unat k) (unat n);
     buf_put buf (unat n) 0 }"

section \<open>Functions of cec.h\<close>

definition cec_msg_initiator :: "cec_msg \<Rightarrow> u8 option" where
  "cec_msg_initiator m = do { b \<leftarrow> get m 0; Some (drop_bit 4 b) }"

definition cec_msg_destination :: "cec_msg \<Rightarrow> u8 option" where
  "cec_msg_destination m = do { b \<leftarrow> get m 0; Some (b AND 0xf) }"

definition cec_msg_opcode :: "cec_msg \<Rightarrow> int option" where
  "cec_msg_opcode m = (if len m > 1 then do { b \<leftarrow> get m 1; Some (uint b) } else Some (- 1))"

definition cec_msg_is_broadcast :: "cec_msg \<Rightarrow> bool option" where
  "cec_msg_is_broadcast m = do { b \<leftarrow> get m 0; Some (b AND 0xf = 0xf) }"

text \<open>\<open>msg->msg[msg->len++] = v\<close>.\<close>

definition push_byte :: "cec_msg \<Rightarrow> u8 \<Rightarrow> cec_msg option" where
  "push_byte m v = do { x \<leftarrow> put m (unat (len m)) v; Some (x\<lparr>len := len x + 1\<rparr>) }"

text \<open>\<open>memset(msg, 0, sizeof( *msg))\<close> gives the all-zero structure.\<close>

definition zero_msg :: cec_msg where
  "zero_msg = \<lparr>tx_ts = 0, rx_ts = 0, len = 0, timeout = 0, sequence = 0, flags = 0,
     msg = replicate CEC_MAX_MSG_SIZE 0, reply = 0, rx_status = 0, tx_status = 0,
     tx_arb_lost_cnt = 0, tx_nack_cnt = 0, tx_low_drive_cnt = 0, tx_error_cnt = 0\<rparr>"

definition cec_msg_init :: "u8 \<Rightarrow> u8 \<Rightarrow> cec_msg option" where
  "cec_msg_init initiator destination = do {
     let m = zero_msg;
     m \<leftarrow> put m 0 (push_bit 4 initiator OR destination);
     let m = m\<lparr>len := 1\<rparr>;
     Some m }"

definition cec_msg_set_reply_to :: "cec_msg \<Rightarrow> cec_msg \<Rightarrow> cec_msg option" where
  "cec_msg_set_reply_to m orig = do {
     d \<leftarrow> cec_msg_destination orig;
     i \<leftarrow> cec_msg_initiator orig;
     m \<leftarrow> put m 0 (push_bit 4 d OR i);
     let m = m\<lparr>timeout := 0\<rparr>;
     let m = m\<lparr>reply := 0\<rparr>;
     Some m }"

definition CEC_TX_STATUS_OK :: u8 where
  [c_consts]: "CEC_TX_STATUS_OK = push_bit 0 1"

definition CEC_RX_STATUS_OK :: u8 where
  [c_consts]: "CEC_RX_STATUS_OK = push_bit 0 1"

definition CEC_RX_STATUS_FEATURE_ABORT :: u8 where
  [c_consts]: "CEC_RX_STATUS_FEATURE_ABORT = push_bit 2 1"

definition cec_msg_status_is_ok :: "cec_msg \<Rightarrow> bool" where
  "cec_msg_status_is_ok m =
     (if tx_status m \<noteq> 0 \<and> tx_status m AND CEC_TX_STATUS_OK = 0 then False
      else if rx_status m \<noteq> 0 \<and> rx_status m AND CEC_RX_STATUS_OK = 0 then False
      else if tx_status m = 0 \<and> rx_status m = 0 then False
      else rx_status m AND CEC_RX_STATUS_FEATURE_ABORT = 0)"

end
