(* ===== verification/Cec_Codec.thy ===== *)
theory Cec_Codec
  imports Cec_Msg
begin

text \<open>
  The contract of the message functions of \<open>sysincludes/linux/cec-funcs.h\<close>. A \<open>wire\<close> says
  what a message is on the bus: whether it is broadcast, its opcode, its operand bytes and the
  opcode of the reply that is awaited. The locale \<open>cec_builder\<close> states that a family of
  \<open>cec_msg_*\<close> functions produces exactly that frame, inside the 16-byte payload and without
  touching the rest of the structure; \<open>cec_codec\<close> adds that the matching \<open>cec_ops_*\<close>
  functions never leave the payload, whatever was received, and what they read from the bytes of
  the frame alone: the command that was sent, or the one that a few commands are taken for. The
  theories of the single features interpret both.

  The header has the functions and no dispatcher: the application switches on the opcode itself.
  The types of commands, the functions that build a command (\<open>*_send\<close>) and that choose the parser
  by the opcode (\<open>*_recv\<close>), and the frames (\<open>*_spec\<close>) are the model's own; they call the
  translated \<open>cec_msg_*\<close> and \<open>cec_ops_*\<close> functions and nothing else.
\<close>

section \<open>Frames\<close>

record wire =
  w_bcast :: bool
  w_opcode :: u8
  w_operands :: "u8 list"
  w_answer :: "u8 option"

text \<open>
  Three shapes: directed at the destination already in the message, broadcast, and a request,
  which sets the awaited reply when the caller asks for it.
\<close>

definition tell :: "u8 \<Rightarrow> u8 list \<Rightarrow> wire" where
  "tell op args = \<lparr>w_bcast = False, w_opcode = op, w_operands = args, w_answer = None\<rparr>"

definition announce :: "u8 \<Rightarrow> u8 list \<Rightarrow> wire" where
  "announce op args = \<lparr>w_bcast = True, w_opcode = op, w_operands = args, w_answer = None\<rparr>"

definition awaiting :: "c_int \<Rightarrow> u8 \<Rightarrow> wire \<Rightarrow> wire" where
  "awaiting want_reply answer w = w\<lparr>w_answer := Some (if want_reply \<noteq> 0 then answer else 0)\<rparr>"

lemmas wire_defs = tell_def announce_def awaiting_def

text \<open>The message holds the frame \<open>f\<close>: its length and its first bytes are those of \<open>f\<close>.\<close>

definition carries :: "cec_msg \<Rightarrow> u8 list \<Rightarrow> bool" where
  "carries m f \<longleftrightarrow> wf_msg m \<and> length f \<le> CEC_MAX_MSG_SIZE \<and> len m = of_nat (length f) \<and>
     take (length f) (msg m) = f"

definition header :: "bool \<Rightarrow> cec_msg \<Rightarrow> u8" where
  "header broadcast m = (if broadcast then msg m ! 0 OR 0xf else msg m ! 0)"

definition frame_of :: "cec_msg \<Rightarrow> wire \<Rightarrow> u8 list" where
  "frame_of m w = header (w_bcast w) m # w_opcode w # w_operands w"

definition implements :: "cec_msg \<Rightarrow> wire \<Rightarrow> cec_msg \<Rightarrow> bool" where
  "implements m w x \<longleftrightarrow> carries x (frame_of m w) \<and>
     reply x = (case w_answer w of None \<Rightarrow> reply m | Some r \<Rightarrow> r) \<and>
     x = m\<lparr>len := len x, msg := msg x, reply := reply x\<rparr>"

text \<open>What a receiver that dispatches on the opcode makes of a message.\<close>

datatype 'c received = Unrecognised | Recognised 'c

section \<open>Accesses\<close>

lemmas mem_defs = get_def get16_def put_def or_byte_def push_byte_def
  buf_get_def buf_put_def

lemma wf_msg_16: "wf_msg m \<longleftrightarrow> (\<exists>b0 b1 b2 b3 b4 b5 b6 b7 b8 b9 b10 b11 b12 b13 b14 b15.
    msg m = [b0, b1, b2, b3, b4, b5, b6, b7, b8, b9, b10, b11, b12, b13, b14, b15])"
  unfolding wf_msg_def CEC_MAX_MSG_SIZE_def
  by (auto simp: length_Suc_conv numeral_eq_Suc)

lemma get_total [c_mem]: "wf_msg m \<Longrightarrow> i < 16 \<Longrightarrow> get m i = Some (msg m ! i)"
  by (simp add: get_def buf_get_def wf_msg_def CEC_MAX_MSG_SIZE_def)

lemma get16_total [c_mem]:
  "wf_msg m \<Longrightarrow> i < 15 \<Longrightarrow> get16 m i = Some (be16 (msg m ! i) (msg m ! (i + 1)))"
  by (simp add: get16_def get_total)

lemma put_total [c_mem]: "wf_msg m \<Longrightarrow> i < 16 \<Longrightarrow> put m i v = Some (m\<lparr>msg := (msg m)[i := v]\<rparr>)"
  by (simp add: put_def buf_put_def wf_msg_def CEC_MAX_MSG_SIZE_def)

lemma or_byte_total [c_mem]:
  "wf_msg m \<Longrightarrow> i < 16 \<Longrightarrow> or_byte m i v = Some (m\<lparr>msg := (msg m)[i := msg m ! i OR v]\<rparr>)"
  by (simp add: or_byte_def get_total put_total)

lemma wf_msg_update [simp]: "wf_msg (m\<lparr>msg := (msg m)[i := v]\<rparr>) = wf_msg m"
  and wf_msg_len [simp]: "wf_msg (m\<lparr>len := n\<rparr>) = wf_msg m"
  and wf_msg_reply [simp]: "wf_msg (m\<lparr>reply := r\<rparr>) = wf_msg m"
  by (simp_all add: wf_msg_def)

lemma carries_get:
  assumes "carries m f" and "i < length f"
  shows "get m i = Some (f ! i)"
proof -
  have "length (msg m) = 16" and "length f \<le> 16" and "take (length f) (msg m) = f"
    using assms(1) by (auto simp: carries_def wf_msg_def CEC_MAX_MSG_SIZE_def)
  then show ?thesis
    using assms(2) by (metis buf_get_def get_def le_trans less_le_trans nth_take)
qed

lemma carries_get16:
  assumes "carries m f" and "i + 1 < length f"
  shows "get16 m i = Some (be16 (f ! i) (f ! (i + 1)))"
  using assms by (simp add: get16_def carries_get)

lemma carries_len: "carries m f \<Longrightarrow> len m = of_nat (length f)"
  by (simp add: carries_def)

lemma carries_wf: "carries m f \<Longrightarrow> wf_msg m"
  by (simp add: carries_def)

lemma carries_unat_len: "carries m f \<Longrightarrow> unat (len m) = length f"
  by (simp add: carries_def CEC_MAX_MSG_SIZE_def unat_of_nat_u32)

lemma carries_opcode:
  assumes "carries m (h # op # args)"
  shows "cec_msg_opcode m = Some (uint op)"
proof -
  have "1 < len m"
    unfolding word_less_nat_alt carries_unat_len [OF assms] by simp
  then show ?thesis
    using carries_get [OF assms, of 1] by (simp add: cec_msg_opcode_def)
qed

text \<open>Copies of a variable number of bytes behind the first \<open>k\<close>.\<close>

lemma put_bytes_total:
  assumes "wf_msg m" and "k + n \<le> 16" and "n \<le> length src"
  obtains bs where "put_bytes m k src n = Some (m\<lparr>msg := bs\<rparr>)" and "length bs = 16"
    and "take (k + n) bs = take k (msg m) @ take n src"
proof -
  let ?bs = "take k (msg m) @ take n src @ drop (k + n) (msg m)"
  have l: "length (msg m) = 16"
    using assms(1) by (simp add: wf_msg_def CEC_MAX_MSG_SIZE_def)
  have "put_bytes m k src n = Some (m\<lparr>msg := ?bs\<rparr>)"
    using assms l by (simp add: put_bytes_def memcpy_def)
  moreover have "length ?bs = 16" and "take (k + n) ?bs = take k (msg m) @ take n src"
    using assms(2,3) l by auto
  ultimately show thesis by (rule that)
qed

lemma clamp_strlen_buffer:
  "clamp_strlen cap (t @ [0]) = Some (min cap (length (takeWhile (\<lambda>c. c \<noteq> 0) t)))"
  by (simp add: clamp_strlen_def c_strlen_buffer min_def)

text \<open>Whatever the length field says, no more than \<open>cap\<close> bytes and a terminator are written.\<close>

lemma get_string_safe:
  assumes "wf_msg m" and "unat k + unat cap \<le> 16" and "unat cap < length buf"
  shows "\<exists>s. get_string m k cap buf = Some s"
proof -
  let ?n = "if len m > k then len m - k else 0"
  let ?c = "if ?n > cap then cap else ?n"
  have c: "unat ?c \<le> unat cap"
    by (simp add: word_less_nat_alt not_less)
  have "get_string m k cap buf = do { b \<leftarrow> memcpy buf 0 (msg m) (unat k) (unat ?c); buf_put b (unat ?c) 0 }"
    by (simp add: get_string_def Let_def)
  then show ?thesis
    using c assms by (simp add: memcpy_def buf_put_def wf_msg_def CEC_MAX_MSG_SIZE_def)
qed

lemma get_string_frame:
  assumes "carries m (pre @ t)" and "length pre = unat k" and "length t \<le> unat cap"
    and "length t < length buf" and "0 \<notin> set t"
  shows "\<exists>s. get_string m k cap buf = Some s \<and> length s = length buf \<and> 0 \<in> set s \<and>
    takeWhile (\<lambda>c. c \<noteq> 0) s = t"
proof -
  have l: "length (msg m) = 16" "length pre + length t \<le> 16"
    "take (length pre + length t) (msg m) = pre @ t"
    using assms(1) by (auto simp: carries_def wf_msg_def CEC_MAX_MSG_SIZE_def)
  have n: "unat (len m) = unat k + length t"
    using carries_unat_len [OF assms(1)] assms(2) by simp
  let ?n = "if len m > k then len m - k else 0"
  let ?c = "if ?n > cap then cap else ?n"
  have c: "unat ?c = length t"
    using n assms(3) by (auto simp: word_less_nat_alt unat_sub_if')
  have "take (length t) (drop (unat k) (msg m)) = drop (unat k) (take (length pre + length t) (msg m))"
    using assms(2) by (simp add: take_drop add.commute)
  also have "\<dots> = t"
    using l(3) assms(2) by simp
  finally have t: "take (length t) (drop (unat k) (msg m)) = t" .
  have "get_string m k cap buf = do { b \<leftarrow> memcpy buf 0 (msg m) (unat k) (unat ?c); buf_put b (unat ?c) 0 }"
    by (simp add: get_string_def Let_def)
  also have "\<dots> = Some ((t @ drop (length t) buf)[length t := 0])"
    using c t l assms(2,4) by (simp add: memcpy_def buf_put_def)
  also have "(t @ drop (length t) buf)[length t := 0] = t @ 0 # drop (Suc (length t)) buf"
    using assms(4) by (simp add: list_update_append Cons_nth_drop_Suc [symmetric])
  finally show ?thesis
    using assms(4,5) by (simp add: takeWhile_terminated)
qed

lemma opcode_bind_safe:
  assumes "wf_msg m" and "\<And>op. \<exists>p. f op = Some p"
  shows "\<exists>p. (cec_msg_opcode m \<bind> f) = Some p"
  using assms by (simp add: cec_msg_opcode_def c_mem)

lemmas refines_simps = mem_defs wire_defs implements_def carries_def frame_of_def header_def
  wf_msg_def CEC_MAX_MSG_SIZE_def

text \<open>A run of bytes copied behind a fixed beginning, as the vendor and the text messages do.\<close>

lemma copy_refines:
  assumes "length bs0 = 16" and pre: "take k bs0 = header False m # op # pre"
    and n: "n \<le> length src" "k + n \<le> 16" and l: "l = of_nat (k + n)"
  shows "\<exists>x. put_bytes (m\<lparr>len := l, msg := bs0\<rparr>) k src n = Some x \<and>
    implements m (tell op (pre @ take n src)) x"
proof -
  let ?m = "m\<lparr>len := l, msg := bs0\<rparr>"
  have "wf_msg ?m"
    using assms(1) by (simp add: wf_msg_def CEC_MAX_MSG_SIZE_def)
  then obtain bs where bs: "put_bytes ?m k src n = Some (?m\<lparr>msg := bs\<rparr>)" "length bs = 16"
    "take (k + n) bs = take k (msg ?m) @ take n src"
    using put_bytes_total [OF _ n(2,1)] by metis
  let ?f = "frame_of m (tell op (pre @ take n src))"
  have f: "?f = take k bs0 @ take n src"
    using pre by (simp add: frame_of_def tell_def)
  moreover have "length ?f = k + n"
    using f n assms(1) by simp
  ultimately have "implements m (tell op (pre @ take n src)) (?m\<lparr>msg := bs\<rparr>)"
    using bs l n unfolding implements_def carries_def
    by (simp add: wf_msg_def CEC_MAX_MSG_SIZE_def tell_def)
  then show ?thesis using bs(1) by blast
qed

lemma text_refines:
  assumes "length bs0 = 16" and "take k bs0 = header False m # op # pre" and "k + cap \<le> 16"
    and "n = min cap (length (takeWhile (\<lambda>c. c \<noteq> 0) t))" and "l = of_nat (k + n)"
  shows "\<exists>x. put_bytes (m\<lparr>len := l, msg := bs0\<rparr>) k (t @ [0]) n = Some x \<and>
    implements m (tell op (pre @ take cap (takeWhile (\<lambda>c. c \<noteq> 0) t))) x"
proof -
  have n: "n \<le> length (t @ [0])" "k + n \<le> 16"
    using assms(3,4) length_takeWhile_le [of "\<lambda>c. c \<noteq> 0" t] by simp_all
  have "take n (t @ [0]) = take cap (takeWhile (\<lambda>c. c \<noteq> 0) t)"
    unfolding assms(4) by (rule take_clamped_string)
  then show ?thesis
    using copy_refines [OF assms(1,2) n assms(5)] by simp
qed

section \<open>Builders\<close>

locale cec_builder =
  fixes build :: "cec_msg \<Rightarrow> c_int \<Rightarrow> 'c \<Rightarrow> cec_msg option"
    and spec :: "c_int \<Rightarrow> 'c \<Rightarrow> wire"
  assumes build_refines: "wf_msg m \<Longrightarrow> \<exists>x. build m r c = Some x \<and> implements m (spec r c) x"
begin

lemma build_implements:
  assumes "wf_msg m" and "build m r c = Some x"
  shows "implements m (spec r c) x"
  using build_refines [OF assms(1), of r c] assms(2) by auto

lemma build_opcode:
  assumes "wf_msg m" and "build m r c = Some x"
  shows "cec_msg_opcode x = Some (uint (w_opcode (spec r c)))"
  using build_implements [OF assms] carries_opcode
  by (fastforce simp: implements_def frame_of_def)

lemma build_fits:
  assumes "wf_msg m" and "build m r c = Some x"
  shows "wf_msg x" and "2 \<le> unat (len x)" and "unat (len x) \<le> CEC_MAX_MSG_SIZE"
proof -
  let ?f = "frame_of m (spec r c)"
  have c: "carries x ?f"
    using build_implements [OF assms] by (simp add: implements_def)
  then have n: "length ?f \<le> 16"
    by (simp add: carries_def CEC_MAX_MSG_SIZE_def)
  show "2 \<le> unat (len x)" and "unat (len x) \<le> CEC_MAX_MSG_SIZE"
    using n carries_unat_len [OF c] by (simp_all add: frame_of_def CEC_MAX_MSG_SIZE_def)
  show "wf_msg x"
    using c by (rule carries_wf)
qed

lemma build_addresses:
  assumes "wf_msg m" and "build m r c = Some x"
  shows "cec_msg_initiator x = cec_msg_initiator m"
    and "cec_msg_destination x = (if w_bcast (spec r c) then Some 0xf else cec_msg_destination m)"
proof -
  have c: "carries x (frame_of m (spec r c))"
    using build_implements [OF assms] by (simp add: implements_def)
  have x0: "get x 0 = Some (header (w_bcast (spec r c)) m)"
    using carries_get [OF c, of 0] by (simp add: frame_of_def)
  have m0: "get m 0 = Some (msg m ! 0)"
    using assms(1) by (simp add: get_total)
  have hi: "drop_bit 4 (b OR 0xf) = drop_bit 4 b" for b :: u8
    by (rule bit_word_eqI) (auto simp: bit_simps)
  have lo: "(b OR 0xf) AND 0xf = 0xf" for b :: u8
    by (rule bit_word_eqI) (auto simp: bit_simps)
  show "cec_msg_initiator x = cec_msg_initiator m"
    using x0 m0 hi by (simp add: cec_msg_initiator_def header_def)
  show "cec_msg_destination x = (if w_bcast (spec r c) then Some 0xf else cec_msg_destination m)"
    using x0 m0 lo by (simp add: cec_msg_destination_def header_def)
qed

end

section \<open>Codecs\<close>

locale cec_codec = cec_builder build spec
  for build :: "cec_msg \<Rightarrow> c_int \<Rightarrow> 'c \<Rightarrow> cec_msg option" and spec :: "c_int \<Rightarrow> 'c \<Rightarrow> wire" +
  fixes parse :: "cec_msg \<Rightarrow> 'c received option"
    and fits :: "'c \<Rightarrow> bool"
    and heard :: "'c \<Rightarrow> 'c"
  assumes parse_safe: "wf_msg m \<Longrightarrow> \<exists>p. parse m = Some p"
    and parse_wire: "fits c \<Longrightarrow> carries y (h # w_opcode (spec r c) # w_operands (spec r c)) \<Longrightarrow>
      parse y = Some (Recognised (heard c))"
begin

text \<open>
  A receiver gets the bytes of the frame and nothing else: whatever its message structure held
  before, it reads the same command, \<open>heard c\<close>.
\<close>

lemma transmit:
  assumes "wf_msg m" and "fits c" and "build m r c = Some x" and "carries y (frame_of m (spec r c))"
  shows "parse y = Some (Recognised (heard c))"
  using parse_wire [OF assms(2)] assms(4) by (auto simp: frame_of_def)

lemma build_parse:
  assumes "wf_msg m" and "fits c"
  shows "(do { x \<leftarrow> build m r c; parse x }) = Some (Recognised (heard c))"
proof -
  obtain x where x: "build m r c = Some x" and i: "implements m (spec r c) x"
    using build_refines [OF assms(1)] by blast
  have "parse x = Some (Recognised (heard c))"
    using transmit [OF assms x] i by (simp add: implements_def)
  then show ?thesis using x by simp
qed

lemma frames_distinguish:
  assumes "fits c" and "fits d" and "wf_msg m"
    and "frame_of m (spec r c) = frame_of m (spec q d)"
  shows "heard c = heard d"
proof -
  obtain x where x: "build m r c = Some x" and i: "implements m (spec r c) x"
    using build_refines [OF assms(3)] by blast
  obtain y where y: "build m q d = Some y" and j: "implements m (spec q d) y"
    using build_refines [OF assms(3)] by blast
  have "parse x = Some (Recognised (heard c))"
    using transmit [OF assms(3,1) x] i by (simp add: implements_def)
  moreover have "parse x = Some (Recognised (heard d))"
    using transmit [OF assms(3,2) y] i assms(4) by (simp add: implements_def)
  ultimately show ?thesis by simp
qed

end

section \<open>Features\<close>

text \<open>
  A feature is a codec that owns a list of opcodes: it sends only these, and leaves a message
  with another opcode to the others.
\<close>

locale cec_feature = cec_codec build spec parse fits heard
  for build :: "cec_msg \<Rightarrow> c_int \<Rightarrow> 'c \<Rightarrow> cec_msg option" and spec :: "c_int \<Rightarrow> 'c \<Rightarrow> wire"
    and parse :: "cec_msg \<Rightarrow> 'c received option" and fits :: "'c \<Rightarrow> bool" and heard :: "'c \<Rightarrow> 'c" +
  fixes opcodes :: "u8 list"
  assumes spec_opcode: "w_opcode (spec r c) \<in> set opcodes"
    and parse_other: "cec_msg_opcode m = Some op \<Longrightarrow> op \<notin> uint ` set opcodes \<Longrightarrow>
      parse m = Some Unrecognised"

text \<open>Two features side by side: the receiver asks the first, then the second.\<close>

fun both_send :: "(cec_msg \<Rightarrow> c_int \<Rightarrow> 'a \<Rightarrow> cec_msg option) \<Rightarrow>
    (cec_msg \<Rightarrow> c_int \<Rightarrow> 'b \<Rightarrow> cec_msg option) \<Rightarrow> cec_msg \<Rightarrow> c_int \<Rightarrow> 'a + 'b \<Rightarrow> cec_msg option" where
  "both_send f g m r (Inl a) = f m r a"
| "both_send f g m r (Inr b) = g m r b"

fun both_spec :: "(c_int \<Rightarrow> 'a \<Rightarrow> wire) \<Rightarrow> (c_int \<Rightarrow> 'b \<Rightarrow> wire) \<Rightarrow> c_int \<Rightarrow> 'a + 'b \<Rightarrow> wire" where
  "both_spec f g r (Inl a) = f r a"
| "both_spec f g r (Inr b) = g r b"

definition both_recv :: "(cec_msg \<Rightarrow> 'a received option) \<Rightarrow> (cec_msg \<Rightarrow> 'b received option) \<Rightarrow>
    cec_msg \<Rightarrow> ('a + 'b) received option" where
  "both_recv p q m = do {
     x \<leftarrow> p m;
     case x of Recognised a \<Rightarrow> Some (Recognised (Inl a))
     | Unrecognised \<Rightarrow> map_option (map_received Inr) (q m) }"

locale cec_two = a: cec_feature send1 spec1 recv1 fits1 heard1 opcodes1 +
    b: cec_feature send2 spec2 recv2 fits2 heard2 opcodes2
  for send1 :: "cec_msg \<Rightarrow> c_int \<Rightarrow> 'a \<Rightarrow> cec_msg option" and spec1 recv1 fits1 heard1 opcodes1
    and send2 :: "cec_msg \<Rightarrow> c_int \<Rightarrow> 'b \<Rightarrow> cec_msg option" and spec2 recv2 fits2 heard2 opcodes2 +
  assumes disjoint: "set opcodes1 \<inter> set opcodes2 = {}"
begin

lemma first_silent:
  assumes "carries y (h # w_opcode (spec2 r d) # args)"
  shows "recv1 y = Some Unrecognised"
proof (rule a.parse_other)
  show "cec_msg_opcode y = Some (uint (w_opcode (spec2 r d)))"
    using assms by (rule carries_opcode)
  show "uint (w_opcode (spec2 r d)) \<notin> uint ` set opcodes1"
    using b.spec_opcode [of r d] disjoint by (auto dest: word_uint_eqI)
qed

end

sublocale cec_two \<subseteq> both: cec_feature "both_send send1 send2" "both_spec spec1 spec2"
    "both_recv recv1 recv2" "case_sum fits1 fits2" "map_sum heard1 heard2" "opcodes1 @ opcodes2"
proof
  fix m r c
  show "wf_msg m \<Longrightarrow> \<exists>x. both_send send1 send2 m r c = Some x \<and>
      implements m (both_spec spec1 spec2 r c) x"
    by (cases c) (simp_all add: a.build_refines b.build_refines)
  show "wf_msg m \<Longrightarrow> \<exists>p. both_recv recv1 recv2 m = Some p"
    using a.parse_safe [of m] b.parse_safe [of m]
    by (auto simp: both_recv_def split: received.split)
  show "w_opcode (both_spec spec1 spec2 r c) \<in> set (opcodes1 @ opcodes2)"
    by (cases c) (simp_all add: a.spec_opcode b.spec_opcode)
next
  fix c y h r
  assume "case_sum fits1 fits2 c" and "carries y (h # w_opcode (both_spec spec1 spec2 r c) #
    w_operands (both_spec spec1 spec2 r c))"
  then show "both_recv recv1 recv2 y = Some (Recognised (map_sum heard1 heard2 c))"
    by (cases c) (simp_all add: both_recv_def a.parse_wire b.parse_wire first_silent)
next
  fix m op
  assume "cec_msg_opcode m = Some op" and "op \<notin> uint ` set (opcodes1 @ opcodes2)"
  then show "both_recv recv1 recv2 m = Some Unrecognised"
    by (simp add: both_recv_def a.parse_other b.parse_other image_Un)
qed

end
