(* ===== verification/Cec_Routing.thy ===== *)
theory Cec_Routing
  imports Cec_Codec
begin

text \<open>
  One Touch Play, Routing Control and Standby of \<open>sysincludes/linux/cec-funcs.h\<close>: the
  \<open>cec_msg_*\<close> and \<open>cec_ops_*\<close> functions, and the interpretation of the codec contract on them.
\<close>

section \<open>Message functions\<close>

definition cec_msg_active_source :: "cec_msg \<Rightarrow> u16 \<Rightarrow> cec_msg option" where
  "cec_msg_active_source m phys_addr = do {
     let m = m\<lparr>len := 4\<rparr>;
     m \<leftarrow> or_byte m 0 0xf;
     m \<leftarrow> put m 1 CEC_MSG_ACTIVE_SOURCE;
     m \<leftarrow> put m 2 (hi8 phys_addr);
     m \<leftarrow> put m 3 (lo8 phys_addr);
     Some m }"

definition cec_ops_active_source :: "cec_msg \<Rightarrow> u16 option" where
  "cec_ops_active_source m = get16 m 2"

definition cec_msg_image_view_on :: "cec_msg \<Rightarrow> cec_msg option" where
  "cec_msg_image_view_on m = do {
     let m = m\<lparr>len := 2\<rparr>;
     m \<leftarrow> put m 1 CEC_MSG_IMAGE_VIEW_ON;
     Some m }"

definition cec_msg_text_view_on :: "cec_msg \<Rightarrow> cec_msg option" where
  "cec_msg_text_view_on m = do {
     let m = m\<lparr>len := 2\<rparr>;
     m \<leftarrow> put m 1 CEC_MSG_TEXT_VIEW_ON;
     Some m }"

definition cec_msg_inactive_source :: "cec_msg \<Rightarrow> u16 \<Rightarrow> cec_msg option" where
  "cec_msg_inactive_source m phys_addr = do {
     let m = m\<lparr>len := 4\<rparr>;
     m \<leftarrow> put m 1 CEC_MSG_INACTIVE_SOURCE;
     m \<leftarrow> put m 2 (hi8 phys_addr);
     m \<leftarrow> put m 3 (lo8 phys_addr);
     Some m }"

definition cec_ops_inactive_source :: "cec_msg \<Rightarrow> u16 option" where
  "cec_ops_inactive_source m = get16 m 2"

definition cec_msg_request_active_source :: "cec_msg \<Rightarrow> c_int \<Rightarrow> cec_msg option" where
  "cec_msg_request_active_source m want_reply = do {
     let m = m\<lparr>len := 2\<rparr>;
     m \<leftarrow> or_byte m 0 0xf;
     m \<leftarrow> put m 1 CEC_MSG_REQUEST_ACTIVE_SOURCE;
     let m = m\<lparr>reply := (if want_reply \<noteq> 0 then CEC_MSG_ACTIVE_SOURCE else 0)\<rparr>;
     Some m }"

definition cec_msg_routing_information :: "cec_msg \<Rightarrow> u16 \<Rightarrow> cec_msg option" where
  "cec_msg_routing_information m phys_addr = do {
     let m = m\<lparr>len := 4\<rparr>;
     m \<leftarrow> or_byte m 0 0xf;
     m \<leftarrow> put m 1 CEC_MSG_ROUTING_INFORMATION;
     m \<leftarrow> put m 2 (hi8 phys_addr);
     m \<leftarrow> put m 3 (lo8 phys_addr);
     Some m }"

definition cec_ops_routing_information :: "cec_msg \<Rightarrow> u16 option" where
  "cec_ops_routing_information m = get16 m 2"

definition cec_msg_routing_change :: "cec_msg \<Rightarrow> c_int \<Rightarrow> u16 \<Rightarrow> u16 \<Rightarrow> cec_msg option" where
  "cec_msg_routing_change m want_reply orig_phys_addr new_phys_addr = do {
     let m = m\<lparr>len := 6\<rparr>;
     m \<leftarrow> or_byte m 0 0xf;
     m \<leftarrow> put m 1 CEC_MSG_ROUTING_CHANGE;
     m \<leftarrow> put m 2 (hi8 orig_phys_addr);
     m \<leftarrow> put m 3 (lo8 orig_phys_addr);
     m \<leftarrow> put m 4 (hi8 new_phys_addr);
     m \<leftarrow> put m 5 (lo8 new_phys_addr);
     let m = m\<lparr>reply := (if want_reply \<noteq> 0 then CEC_MSG_ROUTING_INFORMATION else 0)\<rparr>;
     Some m }"

definition cec_ops_routing_change :: "cec_msg \<Rightarrow> (u16 \<times> u16) option" where
  "cec_ops_routing_change m = do {
     orig_phys_addr \<leftarrow> get16 m 2;
     new_phys_addr \<leftarrow> get16 m 4;
     Some (orig_phys_addr, new_phys_addr) }"

definition cec_msg_set_stream_path :: "cec_msg \<Rightarrow> u16 \<Rightarrow> cec_msg option" where
  "cec_msg_set_stream_path m phys_addr = do {
     let m = m\<lparr>len := 4\<rparr>;
     m \<leftarrow> or_byte m 0 0xf;
     m \<leftarrow> put m 1 CEC_MSG_SET_STREAM_PATH;
     m \<leftarrow> put m 2 (hi8 phys_addr);
     m \<leftarrow> put m 3 (lo8 phys_addr);
     Some m }"

definition cec_ops_set_stream_path :: "cec_msg \<Rightarrow> u16 option" where
  "cec_ops_set_stream_path m = get16 m 2"

definition cec_msg_standby :: "cec_msg \<Rightarrow> cec_msg option" where
  "cec_msg_standby m = do {
     let m = m\<lparr>len := 2\<rparr>;
     m \<leftarrow> put m 1 CEC_MSG_STANDBY;
     Some m }"

lemmas routing_defs =
  cec_msg_active_source_def cec_ops_active_source_def cec_msg_image_view_on_def
  cec_msg_text_view_on_def cec_msg_inactive_source_def cec_ops_inactive_source_def
  cec_msg_request_active_source_def cec_msg_routing_information_def
  cec_ops_routing_information_def cec_msg_routing_change_def cec_ops_routing_change_def
  cec_msg_set_stream_path_def cec_ops_set_stream_path_def cec_msg_standby_def

section \<open>Commands\<close>

datatype routing_cmd =
    Active_Source u16
  | Image_View_On
  | Text_View_On
  | Inactive_Source u16
  | Request_Active_Source
  | Routing_Information u16
  | Routing_Change u16 u16
  | Set_Stream_Path u16
  | Standby

fun routing_send :: "cec_msg \<Rightarrow> c_int \<Rightarrow> routing_cmd \<Rightarrow> cec_msg option" where
  "routing_send m r (Active_Source p) = cec_msg_active_source m p"
| "routing_send m r Image_View_On = cec_msg_image_view_on m"
| "routing_send m r Text_View_On = cec_msg_text_view_on m"
| "routing_send m r (Inactive_Source p) = cec_msg_inactive_source m p"
| "routing_send m r Request_Active_Source = cec_msg_request_active_source m r"
| "routing_send m r (Routing_Information p) = cec_msg_routing_information m p"
| "routing_send m r (Routing_Change p q) = cec_msg_routing_change m r p q"
| "routing_send m r (Set_Stream_Path p) = cec_msg_set_stream_path m p"
| "routing_send m r Standby = cec_msg_standby m"

fun routing_spec :: "c_int \<Rightarrow> routing_cmd \<Rightarrow> wire" where
  "routing_spec r (Active_Source p) = announce CEC_MSG_ACTIVE_SOURCE [hi8 p, lo8 p]"
| "routing_spec r Image_View_On = tell CEC_MSG_IMAGE_VIEW_ON []"
| "routing_spec r Text_View_On = tell CEC_MSG_TEXT_VIEW_ON []"
| "routing_spec r (Inactive_Source p) = tell CEC_MSG_INACTIVE_SOURCE [hi8 p, lo8 p]"
| "routing_spec r Request_Active_Source =
     awaiting r CEC_MSG_ACTIVE_SOURCE (announce CEC_MSG_REQUEST_ACTIVE_SOURCE [])"
| "routing_spec r (Routing_Information p) = announce CEC_MSG_ROUTING_INFORMATION [hi8 p, lo8 p]"
| "routing_spec r (Routing_Change p q) =
     awaiting r CEC_MSG_ROUTING_INFORMATION
       (announce CEC_MSG_ROUTING_CHANGE [hi8 p, lo8 p, hi8 q, lo8 q])"
| "routing_spec r (Set_Stream_Path p) = announce CEC_MSG_SET_STREAM_PATH [hi8 p, lo8 p]"
| "routing_spec r Standby = tell CEC_MSG_STANDBY []"

definition routing_recv :: "cec_msg \<Rightarrow> routing_cmd received option" where
  "routing_recv m = do {
     op \<leftarrow> cec_msg_opcode m;
     if op = uint CEC_MSG_ACTIVE_SOURCE then
       map_option (Recognised \<circ> Active_Source) (cec_ops_active_source m)
     else if op = uint CEC_MSG_IMAGE_VIEW_ON then Some (Recognised Image_View_On)
     else if op = uint CEC_MSG_TEXT_VIEW_ON then Some (Recognised Text_View_On)
     else if op = uint CEC_MSG_INACTIVE_SOURCE then
       map_option (Recognised \<circ> Inactive_Source) (cec_ops_inactive_source m)
     else if op = uint CEC_MSG_REQUEST_ACTIVE_SOURCE then Some (Recognised Request_Active_Source)
     else if op = uint CEC_MSG_ROUTING_INFORMATION then
       map_option (Recognised \<circ> Routing_Information) (cec_ops_routing_information m)
     else if op = uint CEC_MSG_ROUTING_CHANGE then
       map_option (\<lambda>(p, q). Recognised (Routing_Change p q)) (cec_ops_routing_change m)
     else if op = uint CEC_MSG_SET_STREAM_PATH then
       map_option (Recognised \<circ> Set_Stream_Path) (cec_ops_set_stream_path m)
     else if op = uint CEC_MSG_STANDBY then Some (Recognised Standby)
     else Some Unrecognised }"

definition routing_opcodes :: "u8 list" where
  "routing_opcodes =
     [CEC_MSG_ACTIVE_SOURCE, CEC_MSG_IMAGE_VIEW_ON, CEC_MSG_TEXT_VIEW_ON,
      CEC_MSG_INACTIVE_SOURCE, CEC_MSG_REQUEST_ACTIVE_SOURCE, CEC_MSG_ROUTING_INFORMATION,
      CEC_MSG_ROUTING_CHANGE, CEC_MSG_SET_STREAM_PATH, CEC_MSG_STANDBY]"

section \<open>The contract holds\<close>

lemma routing_refines:
  assumes "wf_msg m"
  shows "\<exists>x. routing_send m r c = Some x \<and> implements m (routing_spec r c) x"
  using assms unfolding wf_msg_16
  by (cases c) (auto simp: routing_defs refines_simps)

lemma routing_recv_safe: "wf_msg m \<Longrightarrow> \<exists>p. routing_recv m = Some p"
  unfolding routing_recv_def
  by (rule opcode_bind_safe) (simp_all add: routing_defs c_mem)

lemma routing_recv_wire:
  assumes "carries y (h # w_opcode (routing_spec r c) # w_operands (routing_spec r c))"
  shows "routing_recv y = Some (Recognised c)"
  using assms carries_opcode [OF assms] carries_get [OF assms]
  by (cases c) (simp_all add: routing_recv_def routing_defs wire_defs c_consts get16_def)

lemma routing_opcode: "w_opcode (routing_spec r c) \<in> set routing_opcodes"
  by (cases c) (simp_all add: routing_opcodes_def wire_defs)

lemma routing_recv_other:
  "cec_msg_opcode m = Some op \<Longrightarrow> op \<notin> uint ` set routing_opcodes \<Longrightarrow> routing_recv m = Some Unrecognised"
  by (simp add: routing_recv_def routing_opcodes_def)

interpretation routing: cec_feature routing_send routing_spec routing_recv "\<lambda>_. True" "\<lambda>c. c"
    routing_opcodes
  by unfold_locales (simp_all add: routing_refines routing_recv_safe routing_recv_wire routing_opcode routing_recv_other)

end
