(* ===== verification/Cec_Record.thy ===== *)
theory Cec_Record
  imports Cec_Codec
begin

text \<open>
  One Touch Record of \<open>sysincludes/linux/cec-funcs.h\<close>: digital service identifiers, record
  sources and the messages that carry them.
\<close>

section \<open>Digital service identifiers\<close>

text \<open>
  \<open>struct cec_op_digital_service_id\<close> ends in a union of four structures of at most six bytes.
  It is kept as its three half-words, since the code writes it through one member and reads it
  through another: \<open>arib\<close> and \<open>dvb\<close> are (\<open>transport_id\<close>, \<open>service_id\<close>, \<open>orig_network_id\<close>),
  \<open>atsc\<close> is (\<open>transport_id\<close>, \<open>program_number\<close>), and \<open>channel\<close> has its byte
  \<open>channel_number_fmt\<close> in the low half of the first half-word (the target is little-endian),
  then \<open>major\<close> and \<open>minor\<close>.
\<close>

record cec_op_digital_service_id =
  service_id_method :: u8
  dig_bcast_system :: u8
  half0 :: u16
  half1 :: u16
  half2 :: u16

definition channel_number_fmt :: "cec_op_digital_service_id \<Rightarrow> u8" where
  "channel_number_fmt d = lo8 (half0 d)"

definition set_channel_number_fmt ::
    "u8 \<Rightarrow> cec_op_digital_service_id \<Rightarrow> cec_op_digital_service_id" where
  "set_channel_number_fmt f d = d\<lparr>half0 := be16 (hi8 (half0 d)) f\<rparr>"

definition is_atsc :: "u8 \<Rightarrow> bool" where
  "is_atsc s \<longleftrightarrow> s = CEC_OP_DIG_SERVICE_BCAST_SYSTEM_ATSC_GEN \<or>
     s = CEC_OP_DIG_SERVICE_BCAST_SYSTEM_ATSC_CABLE \<or>
     s = CEC_OP_DIG_SERVICE_BCAST_SYSTEM_ATSC_SAT \<or> s = CEC_OP_DIG_SERVICE_BCAST_SYSTEM_ATSC_T"

definition cec_set_digital_service_id ::
    "cec_msg \<Rightarrow> nat \<Rightarrow> cec_op_digital_service_id \<Rightarrow> cec_msg option" where
  "cec_set_digital_service_id m p d = do {
     m \<leftarrow> put m p (push_bit 7 (service_id_method d) OR dig_bcast_system d);
     if service_id_method d = CEC_OP_SERVICE_ID_METHOD_BY_CHANNEL then do {
       m \<leftarrow> put m (p + 1) (push_bit 2 (channel_number_fmt d) OR hi8 (half1 d));
       m \<leftarrow> put m (p + 2) (lo8 (half1 d));
       m \<leftarrow> put m (p + 3) (hi8 (half2 d));
       m \<leftarrow> put m (p + 4) (lo8 (half2 d));
       m \<leftarrow> put m (p + 5) 0;
       put m (p + 6) 0 }
     else if is_atsc (dig_bcast_system d) then do {
       m \<leftarrow> put m (p + 1) (hi8 (half0 d));
       m \<leftarrow> put m (p + 2) (lo8 (half0 d));
       m \<leftarrow> put m (p + 3) (hi8 (half1 d));
       m \<leftarrow> put m (p + 4) (lo8 (half1 d));
       m \<leftarrow> put m (p + 5) 0;
       put m (p + 6) 0 }
     else do {
       m \<leftarrow> put m (p + 1) (hi8 (half0 d));
       m \<leftarrow> put m (p + 2) (lo8 (half0 d));
       m \<leftarrow> put m (p + 3) (hi8 (half1 d));
       m \<leftarrow> put m (p + 4) (lo8 (half1 d));
       m \<leftarrow> put m (p + 5) (hi8 (half2 d));
       put m (p + 6) (lo8 (half2 d)) } }"

definition cec_get_digital_service_id ::
    "cec_msg \<Rightarrow> nat \<Rightarrow> cec_op_digital_service_id \<Rightarrow> cec_op_digital_service_id option" where
  "cec_get_digital_service_id m p d = do {
     b0 \<leftarrow> get m p;
     let d = d\<lparr>service_id_method := drop_bit 7 b0\<rparr>;
     let d = d\<lparr>dig_bcast_system := b0 AND 0x7f\<rparr>;
     if service_id_method d = CEC_OP_SERVICE_ID_METHOD_BY_CHANNEL then do {
       b1 \<leftarrow> get m (p + 1);
       let d = set_channel_number_fmt (drop_bit 2 b1) d;
       b2 \<leftarrow> get m (p + 2);
       let d = d\<lparr>half1 := push_bit 6 (ucast (b1 AND 3)) OR ucast b2\<rparr>;
       minor \<leftarrow> get16 m (p + 3);
       Some (d\<lparr>half2 := minor\<rparr>) }
     else do {
       transport_id \<leftarrow> get16 m (p + 1);
       service_id \<leftarrow> get16 m (p + 3);
       orig_network_id \<leftarrow> get16 m (p + 5);
       Some (d\<lparr>half0 := transport_id, half1 := service_id, half2 := orig_network_id\<rparr>) } }"

text \<open>
  What an identifier means: by channel number, or by an identifier of three half-words, of
  which an ATSC system uses the first two.
\<close>

datatype digital_service =
    By_Channel u8 u8 u16 u16
  | By_Dig_Id u8 u16 u16 u16

fun digital_of :: "digital_service \<Rightarrow> cec_op_digital_service_id" where
  "digital_of (By_Channel s fmt major minor) =
     \<lparr>service_id_method = CEC_OP_SERVICE_ID_METHOD_BY_CHANNEL, dig_bcast_system = s,
      half0 = be16 0 fmt, half1 = major, half2 = minor\<rparr>"
| "digital_of (By_Dig_Id s t v n) =
     \<lparr>service_id_method = CEC_OP_SERVICE_ID_METHOD_BY_DIG_ID, dig_bcast_system = s,
      half0 = t, half1 = v, half2 = n\<rparr>"

definition digital_view :: "cec_op_digital_service_id \<Rightarrow> digital_service" where
  "digital_view d =
     (if service_id_method d = CEC_OP_SERVICE_ID_METHOD_BY_CHANNEL
      then By_Channel (dig_bcast_system d) (channel_number_fmt d) (half1 d) (half2 d)
      else By_Dig_Id (dig_bcast_system d) (half0 d) (half1 d)
        (if is_atsc (dig_bcast_system d) then 0 else half2 d))"

fun digital_bytes :: "digital_service \<Rightarrow> u8 list" where
  "digital_bytes (By_Channel s fmt major minor) =
     [0x80 OR s, push_bit 2 fmt OR hi8 major, lo8 major, hi8 minor, lo8 minor, 0, 0]"
| "digital_bytes (By_Dig_Id s t v n) =
     [s, hi8 t, lo8 t, hi8 v, lo8 v] @ (if is_atsc s then [0, 0] else [hi8 n, lo8 n])"

text \<open>
  Operands that fit their fields: a broadcast system of seven bits, and, by channel, a format of
  six bits and a major number of ten bits. An ATSC identifier has no third number.
\<close>

fun digital_fits :: "digital_service \<Rightarrow> bool" where
  "digital_fits (By_Channel s fmt major minor) = (s < 0x80 \<and> fmt < 0x40 \<and> major < 0x400)"
| "digital_fits (By_Dig_Id s t v n) = (s < 0x80 \<and> (is_atsc s \<longrightarrow> n = 0))"

text \<open>
  The encoder puts the two high bits of a major number into the low bits of a byte, the decoder
  shifts that byte by six instead of eight: the receiver gets the number folded.
\<close>

definition fold_major :: "u16 \<Rightarrow> u16" where
  "fold_major major = push_bit 6 (ucast (hi8 major)) OR ucast (lo8 major)"

fun digital_heard :: "digital_service \<Rightarrow> digital_service" where
  "digital_heard (By_Channel s fmt major minor) = By_Channel s fmt (fold_major major) minor"
| "digital_heard (By_Dig_Id s t v n) = By_Dig_Id s t v n"

fun digital_garbled :: "digital_service \<Rightarrow> bool" where
  "digital_garbled (By_Channel s fmt major minor) = (0x100 \<le> major)"
| "digital_garbled (By_Dig_Id s t v n) = False"

lemmas digital_defs = cec_set_digital_service_id_def cec_get_digital_service_id_def

lemma length_digital_bytes [simp]: "length (digital_bytes d) = 7"
  by (cases d) simp_all

lemma is_atsc_small: "is_atsc s \<Longrightarrow> s < 0x80"
  by (auto simp: is_atsc_def c_consts)

lemma top_bit_system:
  assumes "s < 0x80"
  shows "drop_bit 7 s = (0 :: u8)" and "s AND 0x7f = (s :: u8)"
    and "drop_bit 7 (0x80 OR s) = 1" and "(0x80 OR s) AND 0x7f = s"
  using top_bit [of 0 s] top_bit [of 1 s] assms by simp_all

lemma hi8_small:
  assumes "major < 0x400"
  shows "hi8 major < 4"
proof -
  have "unat major div 256 < 4"
    using assms by (simp add: word_less_nat_alt less_mult_imp_div_less)
  then show ?thesis
    by (simp add: hi8_def word_less_nat_alt unsigned_ucast_eq drop_bit_eq_div unat_div
        take_bit_nat_eq_self)
qed

lemma shift6_small:
  assumes "h < (4 :: u8)"
  shows "push_bit 6 (ucast h) OR ucast (l :: u8) < (0x100 :: u16)"
proof -
  have "h = 0 \<or> h = 1 \<or> h = 2 \<or> h = 3"
    using u8_table [of "\<lambda>h. h = 0 \<or> h = 1 \<or> h = 2 \<or> h = 3" 4 h] assms
    by (simp add: word_less_nat_alt upt_conv_Cons)
  then have "push_bit 6 (ucast h) < (2 ^ 8 :: u16)"
    by auto
  moreover have "ucast l < (2 ^ 8 :: u16)"
    using unsigned_less [of l, where 'a = nat]
    by (simp add: word_less_nat_alt unsigned_ucast_eq take_bit_nat_eq_self)
  ultimately have "(push_bit 6 (ucast h) OR ucast l) AND mask 8 = (push_bit 6 (ucast h) OR ucast l :: u16)"
    by (simp add: bit.conj_disj_distrib2 less_mask_eq)
  then show ?thesis
    using and_mask_less' [of 8 "push_bit 6 (ucast h) OR ucast l :: u16"] by simp
qed

lemma channel_fields:
  assumes "fmt < 0x40" and "major < 0x400"
  shows "drop_bit 2 (push_bit 2 fmt OR hi8 major) = fmt"
    and "(push_bit 2 fmt OR hi8 major) AND 3 = hi8 major"
  using field_hi [of "hi8 major" 2 fmt] field_lo [of "hi8 major" 2 fmt] assms(1)
    hi8_small [OF assms(2)] by (simp_all add: mask_eq_exp_minus_1 del: drop_bit_or)

lemma fold_major_small:
  assumes "major < 0x100"
  shows "fold_major major = major"
proof -
  have m: "take_bit 8 major = major"
    using assms less_mask_eq [of major 8] by (simp add: take_bit_eq_mask)
  have "hi8 (take_bit 8 major) = 0"
    unfolding hi8_def by (rule bit_word_eqI) (auto simp: bit_simps)
  then have h: "hi8 major = 0"
    using m by simp
  then have "be16 0 (lo8 major) = major"
    using be16_split [of major] by simp
  then show ?thesis
    using h by (simp add: fold_major_def be16_def)
qed

lemma fold_major_exact:
  assumes "major < 0x400"
  shows "fold_major major = major \<longleftrightarrow> major < 0x100"
  using shift6_small [OF hi8_small [OF assms], of "lo8 major"] fold_major_small [of major]
  by (auto simp: fold_major_def)

text \<open>Decoding the seven bytes of an identifier, into any structure.\<close>

lemma get_digital_bytes:
  assumes "digital_fits d" and "\<And>i. i < 7 \<Longrightarrow> get y (p + i) = Some (digital_bytes d ! i)"
  shows "map_option digital_view (cec_get_digital_service_id y p z) = Some (digital_heard d)"
proof -
  have b: "get y p = Some (digital_bytes d ! 0)" "get y (p + 1) = Some (digital_bytes d ! 1)"
    "get y (p + 2) = Some (digital_bytes d ! 2)"
    and w: "get16 y (p + 1) = Some (be16 (digital_bytes d ! 1) (digital_bytes d ! 2))"
    "get16 y (p + 3) = Some (be16 (digital_bytes d ! 3) (digital_bytes d ! 4))"
    "get16 y (p + 5) = Some (be16 (digital_bytes d ! 5) (digital_bytes d ! 6))"
    using assms(2) [of 0] assms(2) [of 1] assms(2) [of 2] assms(2) [of 3] assms(2) [of 4]
      assms(2) [of 5] assms(2) [of 6] by (simp_all add: get16_def add.commute)
  show ?thesis
    using assms(1) b w
    by (cases d) (simp_all add: cec_get_digital_service_id_def digital_view_def
      top_bit_system is_atsc_small channel_fields fold_major_def channel_number_fmt_def
      set_channel_number_fmt_def CEC_OP_SERVICE_ID_METHOD_BY_CHANNEL_def del: drop_bit_or)
qed

lemma digital_heard_exact: "digital_fits d \<Longrightarrow> digital_heard d = d \<longleftrightarrow> \<not> digital_garbled d"
  by (cases d) (simp_all add: fold_major_exact not_le)

text \<open>Encoding: the seven bytes land at the offset, the rest of the message stays.\<close>

lemma set_digital_bytes:
  assumes "wf_msg m" and "p + 7 \<le> 16"
  shows "cec_set_digital_service_id m p (digital_of d) =
    Some (m\<lparr>msg := (msg m)[p := digital_bytes d ! 0, p + 1 := digital_bytes d ! 1,
      p + 2 := digital_bytes d ! 2, p + 3 := digital_bytes d ! 3, p + 4 := digital_bytes d ! 4,
      p + 5 := digital_bytes d ! 5, p + 6 := digital_bytes d ! 6]\<rparr>)"
proof -
  have t: "push_bit 7 1 = (0x80 :: u8)" by simp
  show ?thesis
    using assms
    by (cases d) (simp_all add: cec_set_digital_service_id_def put_def buf_put_def wf_msg_def
      CEC_MAX_MSG_SIZE_def t channel_number_fmt_def CEC_OP_SERVICE_ID_METHOD_BY_CHANNEL_def
      CEC_OP_SERVICE_ID_METHOD_BY_DIG_ID_def)
qed

lemma get_digital_safe:
  assumes "wf_msg m" and "p + 7 \<le> 16"
  shows "\<exists>d. cec_get_digital_service_id m p z = Some d"
  using assms by (simp add: cec_get_digital_service_id_def c_mem Let_def)

section \<open>Record sources\<close>

text \<open>
  \<open>struct cec_op_record_src\<close>: the members of its union are separate fields here; the code
  reads and writes only the member that \<open>type\<close> selects.
\<close>

record cec_op_record_src =
  rs_type :: u8
  rs_digital :: cec_op_digital_service_id
  rs_ana_bcast_type :: u8
  rs_ana_freq :: u16
  rs_bcast_system :: u8
  rs_plug :: u8
  rs_phys_addr :: u16

definition cec_msg_record_off :: "cec_msg \<Rightarrow> c_int \<Rightarrow> cec_msg option" where
  "cec_msg_record_off m want_reply = do {
     let m = m\<lparr>len := 2\<rparr>;
     m \<leftarrow> put m 1 CEC_MSG_RECORD_OFF;
     let m = m\<lparr>reply := (if want_reply \<noteq> 0 then CEC_MSG_RECORD_STATUS else 0)\<rparr>;
     Some m }"

definition cec_msg_record_on_own :: "cec_msg \<Rightarrow> cec_msg option" where
  "cec_msg_record_on_own m = do {
     let m = m\<lparr>len := 3\<rparr>;
     m \<leftarrow> put m 1 CEC_MSG_RECORD_ON;
     m \<leftarrow> put m 2 CEC_OP_RECORD_SRC_OWN;
     Some m }"

definition cec_msg_record_on_digital ::
    "cec_msg \<Rightarrow> cec_op_digital_service_id \<Rightarrow> cec_msg option" where
  "cec_msg_record_on_digital m digital = do {
     let m = m\<lparr>len := 10\<rparr>;
     m \<leftarrow> put m 1 CEC_MSG_RECORD_ON;
     m \<leftarrow> put m 2 CEC_OP_RECORD_SRC_DIGITAL;
     cec_set_digital_service_id m 3 digital }"

definition cec_msg_record_on_analog :: "cec_msg \<Rightarrow> u8 \<Rightarrow> u16 \<Rightarrow> u8 \<Rightarrow> cec_msg option" where
  "cec_msg_record_on_analog m ana_bcast_type ana_freq bcast_system = do {
     let m = m\<lparr>len := 7\<rparr>;
     m \<leftarrow> put m 1 CEC_MSG_RECORD_ON;
     m \<leftarrow> put m 2 CEC_OP_RECORD_SRC_ANALOG;
     m \<leftarrow> put m 3 ana_bcast_type;
     m \<leftarrow> put m 4 (hi8 ana_freq);
     m \<leftarrow> put m 5 (lo8 ana_freq);
     m \<leftarrow> put m 6 bcast_system;
     Some m }"

definition cec_msg_record_on_plug :: "cec_msg \<Rightarrow> u8 \<Rightarrow> cec_msg option" where
  "cec_msg_record_on_plug m plug = do {
     let m = m\<lparr>len := 4\<rparr>;
     m \<leftarrow> put m 1 CEC_MSG_RECORD_ON;
     m \<leftarrow> put m 2 CEC_OP_RECORD_SRC_EXT_PLUG;
     m \<leftarrow> put m 3 plug;
     Some m }"

definition cec_msg_record_on_phys_addr :: "cec_msg \<Rightarrow> u16 \<Rightarrow> cec_msg option" where
  "cec_msg_record_on_phys_addr m phys_addr = do {
     let m = m\<lparr>len := 5\<rparr>;
     m \<leftarrow> put m 1 CEC_MSG_RECORD_ON;
     m \<leftarrow> put m 2 CEC_OP_RECORD_SRC_EXT_PHYS_ADDR;
     m \<leftarrow> put m 3 (hi8 phys_addr);
     m \<leftarrow> put m 4 (lo8 phys_addr);
     Some m }"

definition cec_msg_record_on ::
    "cec_msg \<Rightarrow> c_int \<Rightarrow> cec_op_record_src \<Rightarrow> cec_msg option" where
  "cec_msg_record_on m want_reply src = do {
     m \<leftarrow> (if rs_type src = CEC_OP_RECORD_SRC_OWN then cec_msg_record_on_own m
       else if rs_type src = CEC_OP_RECORD_SRC_DIGITAL then
         cec_msg_record_on_digital m (rs_digital src)
       else if rs_type src = CEC_OP_RECORD_SRC_ANALOG then
         cec_msg_record_on_analog m (rs_ana_bcast_type src) (rs_ana_freq src) (rs_bcast_system src)
       else if rs_type src = CEC_OP_RECORD_SRC_EXT_PLUG then
         cec_msg_record_on_plug m (rs_plug src)
       else if rs_type src = CEC_OP_RECORD_SRC_EXT_PHYS_ADDR then
         cec_msg_record_on_phys_addr m (rs_phys_addr src)
       else Some m);
     let m = m\<lparr>reply := (if want_reply \<noteq> 0 then CEC_MSG_RECORD_STATUS else 0)\<rparr>;
     Some m }"

definition cec_ops_record_on :: "cec_msg \<Rightarrow> cec_op_record_src \<Rightarrow> cec_op_record_src option" where
  "cec_ops_record_on m src = do {
     t \<leftarrow> get m 2;
     let src = src\<lparr>rs_type := t\<rparr>;
     if t = CEC_OP_RECORD_SRC_OWN then Some src
     else if t = CEC_OP_RECORD_SRC_DIGITAL then do {
       d \<leftarrow> cec_get_digital_service_id m 3 (rs_digital src);
       Some (src\<lparr>rs_digital := d\<rparr>) }
     else if t = CEC_OP_RECORD_SRC_ANALOG then do {
       bt \<leftarrow> get m 3;
       freq \<leftarrow> get16 m 4;
       bs \<leftarrow> get m 6;
       Some (src\<lparr>rs_ana_bcast_type := bt, rs_ana_freq := freq, rs_bcast_system := bs\<rparr>) }
     else if t = CEC_OP_RECORD_SRC_EXT_PLUG then do {
       p \<leftarrow> get m 3;
       Some (src\<lparr>rs_plug := p\<rparr>) }
     else if t = CEC_OP_RECORD_SRC_EXT_PHYS_ADDR then do {
       p \<leftarrow> get16 m 3;
       Some (src\<lparr>rs_phys_addr := p\<rparr>) }
     else Some src }"

definition cec_msg_record_status :: "cec_msg \<Rightarrow> u8 \<Rightarrow> cec_msg option" where
  "cec_msg_record_status m rec_status = do {
     let m = m\<lparr>len := 3\<rparr>;
     m \<leftarrow> put m 1 CEC_MSG_RECORD_STATUS;
     m \<leftarrow> put m 2 rec_status;
     Some m }"

definition cec_ops_record_status :: "cec_msg \<Rightarrow> u8 option" where
  "cec_ops_record_status m = get m 2"

definition cec_msg_record_tv_screen :: "cec_msg \<Rightarrow> c_int \<Rightarrow> cec_msg option" where
  "cec_msg_record_tv_screen m want_reply = do {
     let m = m\<lparr>len := 2\<rparr>;
     m \<leftarrow> put m 1 CEC_MSG_RECORD_TV_SCREEN;
     let m = m\<lparr>reply := (if want_reply \<noteq> 0 then CEC_MSG_RECORD_ON else 0)\<rparr>;
     Some m }"

lemmas record_defs =
  cec_msg_record_off_def cec_msg_record_on_own_def cec_msg_record_on_digital_def
  cec_msg_record_on_analog_def cec_msg_record_on_plug_def cec_msg_record_on_phys_addr_def
  cec_msg_record_on_def cec_msg_record_status_def cec_msg_record_tv_screen_def

section \<open>Commands\<close>

datatype record_src =
    Own
  | Digital digital_service
  | Analog u8 u16 u8
  | Ext_Plug u8
  | Ext_Phys_Addr u16

definition no_digital :: cec_op_digital_service_id where
  "no_digital = \<lparr>service_id_method = 0, dig_bcast_system = 0, half0 = 0, half1 = 0, half2 = 0\<rparr>"

definition no_src :: cec_op_record_src where
  "no_src = \<lparr>rs_type = 0, rs_digital = no_digital, rs_ana_bcast_type = 0, rs_ana_freq = 0,
     rs_bcast_system = 0, rs_plug = 0, rs_phys_addr = 0\<rparr>"

fun src_of :: "record_src \<Rightarrow> cec_op_record_src" where
  "src_of Own = no_src\<lparr>rs_type := CEC_OP_RECORD_SRC_OWN\<rparr>"
| "src_of (Digital d) = no_src\<lparr>rs_type := CEC_OP_RECORD_SRC_DIGITAL, rs_digital := digital_of d\<rparr>"
| "src_of (Analog t f s) = no_src\<lparr>rs_type := CEC_OP_RECORD_SRC_ANALOG, rs_ana_bcast_type := t,
     rs_ana_freq := f, rs_bcast_system := s\<rparr>"
| "src_of (Ext_Plug p) = no_src\<lparr>rs_type := CEC_OP_RECORD_SRC_EXT_PLUG, rs_plug := p\<rparr>"
| "src_of (Ext_Phys_Addr p) =
     no_src\<lparr>rs_type := CEC_OP_RECORD_SRC_EXT_PHYS_ADDR, rs_phys_addr := p\<rparr>"

definition src_view :: "cec_op_record_src \<Rightarrow> record_src option" where
  "src_view s =
     (if rs_type s = CEC_OP_RECORD_SRC_OWN then Some Own
      else if rs_type s = CEC_OP_RECORD_SRC_DIGITAL then Some (Digital (digital_view (rs_digital s)))
      else if rs_type s = CEC_OP_RECORD_SRC_ANALOG then
        Some (Analog (rs_ana_bcast_type s) (rs_ana_freq s) (rs_bcast_system s))
      else if rs_type s = CEC_OP_RECORD_SRC_EXT_PLUG then Some (Ext_Plug (rs_plug s))
      else if rs_type s = CEC_OP_RECORD_SRC_EXT_PHYS_ADDR then Some (Ext_Phys_Addr (rs_phys_addr s))
      else None)"

fun src_bytes :: "record_src \<Rightarrow> u8 list" where
  "src_bytes Own = [CEC_OP_RECORD_SRC_OWN]"
| "src_bytes (Digital d) = CEC_OP_RECORD_SRC_DIGITAL # digital_bytes d"
| "src_bytes (Analog t f s) = [CEC_OP_RECORD_SRC_ANALOG, t, hi8 f, lo8 f, s]"
| "src_bytes (Ext_Plug p) = [CEC_OP_RECORD_SRC_EXT_PLUG, p]"
| "src_bytes (Ext_Phys_Addr p) = [CEC_OP_RECORD_SRC_EXT_PHYS_ADDR, hi8 p, lo8 p]"

datatype record_cmd =
    Record_Off
  | Record_On record_src
  | Record_Status u8
  | Record_TV_Screen

fun record_send :: "cec_msg \<Rightarrow> c_int \<Rightarrow> record_cmd \<Rightarrow> cec_msg option" where
  "record_send m r Record_Off = cec_msg_record_off m r"
| "record_send m r (Record_On s) = cec_msg_record_on m r (src_of s)"
| "record_send m r (Record_Status s) = cec_msg_record_status m s"
| "record_send m r Record_TV_Screen = cec_msg_record_tv_screen m r"

fun record_spec :: "c_int \<Rightarrow> record_cmd \<Rightarrow> wire" where
  "record_spec r Record_Off = awaiting r CEC_MSG_RECORD_STATUS (tell CEC_MSG_RECORD_OFF [])"
| "record_spec r (Record_On s) =
     awaiting r CEC_MSG_RECORD_STATUS (tell CEC_MSG_RECORD_ON (src_bytes s))"
| "record_spec r (Record_Status s) = tell CEC_MSG_RECORD_STATUS [s]"
| "record_spec r Record_TV_Screen =
     awaiting r CEC_MSG_RECORD_ON (tell CEC_MSG_RECORD_TV_SCREEN [])"

definition record_recv :: "cec_msg \<Rightarrow> record_cmd received option" where
  "record_recv m = do {
     op \<leftarrow> cec_msg_opcode m;
     if op = uint CEC_MSG_RECORD_OFF then Some (Recognised Record_Off)
     else if op = uint CEC_MSG_RECORD_ON then do {
       s \<leftarrow> cec_ops_record_on m no_src;
       Some (case src_view s of None \<Rightarrow> Unrecognised | Some t \<Rightarrow> Recognised (Record_On t)) }
     else if op = uint CEC_MSG_RECORD_STATUS then
       map_option (Recognised \<circ> Record_Status) (cec_ops_record_status m)
     else if op = uint CEC_MSG_RECORD_TV_SCREEN then Some (Recognised Record_TV_Screen)
     else Some Unrecognised }"

definition record_opcodes :: "u8 list" where
  "record_opcodes =
     [CEC_MSG_RECORD_OFF, CEC_MSG_RECORD_ON, CEC_MSG_RECORD_STATUS, CEC_MSG_RECORD_TV_SCREEN]"

fun record_fits :: "record_cmd \<Rightarrow> bool" where
  "record_fits (Record_On (Digital d)) = digital_fits d"
| "record_fits _ = True"

fun record_heard :: "record_cmd \<Rightarrow> record_cmd" where
  "record_heard (Record_On (Digital d)) = Record_On (Digital (digital_heard d))"
| "record_heard c = c"

fun record_garbled :: "record_cmd \<Rightarrow> bool" where
  "record_garbled (Record_On (Digital d)) = digital_garbled d"
| "record_garbled _ = False"

lemma record_heard_exact: "record_fits c \<Longrightarrow> record_heard c = c \<longleftrightarrow> \<not> record_garbled c"
  by (induction c rule: record_fits.induct) (simp_all add: digital_heard_exact)

section \<open>The contract holds\<close>

lemma digital_bytes_list:
  "[digital_bytes d ! 0, digital_bytes d ! Suc 0, digital_bytes d ! 2, digital_bytes d ! 3,
    digital_bytes d ! 4, digital_bytes d ! 5, digital_bytes d ! 6] = digital_bytes d"
  by (cases d) simp_all

lemma record_on_refines:
  assumes "wf_msg m"
  shows "\<exists>x. cec_msg_record_on m r (src_of s) = Some x \<and>
    implements m (record_spec r (Record_On s)) x"
proof (cases s)
  case (Digital d)
  then show ?thesis
    using assms set_digital_bytes [of _ 3 d] digital_bytes_list [of d] unfolding wf_msg_16
    by (auto simp: record_defs refines_simps no_src_def c_consts)
qed (use assms in \<open>auto simp: wf_msg_16 record_defs refines_simps no_src_def c_consts\<close>)

lemma record_refines:
  assumes "wf_msg m"
  shows "\<exists>x. record_send m r c = Some x \<and> implements m (record_spec r c) x"
proof (cases c)
  case (Record_On s)
  then show ?thesis using record_on_refines [OF assms] by simp
qed (use assms in \<open>auto simp: wf_msg_16 record_defs refines_simps\<close>)

lemma record_on_safe:
  assumes "wf_msg m"
  shows "\<exists>s. cec_ops_record_on m z = Some s"
proof -
  obtain d where "cec_get_digital_service_id m 3 (rs_digital z) = Some d"
    using get_digital_safe [OF assms, of 3] by auto
  then show ?thesis
    using assms by (simp add: cec_ops_record_on_def c_mem Let_def)
qed

lemma record_recv_safe: "wf_msg m \<Longrightarrow> \<exists>p. record_recv m = Some p"
  unfolding record_recv_def
  using record_on_safe [of m no_src]
  by (intro opcode_bind_safe) (auto simp: cec_ops_record_status_def c_mem)

lemma record_on_wire:
  assumes "record_fits (Record_On s)" and "carries y (h # op # src_bytes s)"
  shows "\<exists>t u. cec_ops_record_on y z = Some t \<and> src_view t = Some u \<and>
    Record_On u = record_heard (Record_On s)"
proof (cases s)
  case (Digital d)
  have "get y (3 + i) = Some (digital_bytes d ! i)" if "i < 7" for i
    using carries_get [OF assms(2), of "3 + i"] that Digital by simp
  then obtain e where "cec_get_digital_service_id y 3 (rs_digital z) = Some e"
    and "digital_view e = digital_heard d"
    using get_digital_bytes [of d y 3 "rs_digital z"] assms(1) Digital by auto
  then show ?thesis
    using carries_get [OF assms(2), of 2] Digital
    by (simp add: cec_ops_record_on_def src_view_def c_consts Let_def)
qed (use carries_get [OF assms(2)] in
  \<open>simp_all add: cec_ops_record_on_def src_view_def c_consts get16_def\<close>)

lemma record_recv_wire:
  assumes "record_fits c"
    and "carries y (h # w_opcode (record_spec r c) # w_operands (record_spec r c))"
  shows "record_recv y = Some (Recognised (record_heard c))"
proof (cases c)
  case (Record_On s)
  have f: "carries y (h # CEC_MSG_RECORD_ON # src_bytes s)"
    using assms(2) Record_On by (simp add: wire_defs)
  obtain t u where "cec_ops_record_on y no_src = Some t" and "src_view t = Some u"
    and "Record_On u = record_heard (Record_On s)"
    using record_on_wire [OF _ f] assms(1) Record_On by blast
  then show ?thesis
    using Record_On carries_opcode [OF f] by (simp add: record_recv_def c_consts)
qed (use carries_opcode [OF assms(2)] carries_get [OF assms(2)] in
  \<open>simp_all add: record_recv_def cec_ops_record_status_def wire_defs c_consts\<close>)

lemma record_opcode: "w_opcode (record_spec r c) \<in> set record_opcodes"
  by (cases c) (simp_all add: record_opcodes_def wire_defs)

lemma record_recv_other:
  "cec_msg_opcode m = Some op \<Longrightarrow> op \<notin> uint ` set record_opcodes \<Longrightarrow> record_recv m = Some Unrecognised"
  by (simp add: record_recv_def record_opcodes_def)

interpretation recording: cec_feature record_send record_spec record_recv record_fits record_heard record_opcodes
  by unfold_locales (simp_all add: record_refines record_recv_safe record_recv_wire record_opcode record_recv_other)

section \<open>Limits\<close>

text \<open>
  C25. A digital service named by a channel with a major number of ten
  bits, written and read back at any offset, comes back with its system, format and minor number,
  but with the two high bits of the major number moved down by two: the major number survives
  exactly when it is below 256.
\<close>

theorem digital_channel_roundtrip:
  assumes "wf_msg m" and "p + 7 \<le> 16" and "s < 0x80" and "fmt < 0x40" and "major < 0x400"
  shows "\<exists>x d. cec_set_digital_service_id m p (digital_of (By_Channel s fmt major minor)) = Some x \<and>
    cec_get_digital_service_id x p z = Some d \<and>
    digital_view d = By_Channel s fmt (push_bit 6 (ucast (hi8 major)) OR ucast (lo8 major)) minor \<and>
    (digital_view d = By_Channel s fmt major minor \<longleftrightarrow> major < 0x100)"
proof -
  have l: "length (msg m) = 16"
    using assms(1) by (simp add: wf_msg_def CEC_MAX_MSG_SIZE_def)
  show ?thesis
    using assms(2,3) l channel_fields [OF assms(4,5)]
      fold_major_exact [OF assms(5), unfolded fold_major_def]
    unfolding set_digital_bytes [OF assms(1,2)]
    by (simp add: cec_get_digital_service_id_def digital_view_def get_def get16_def buf_get_def
        top_bit_system channel_number_fmt_def set_channel_number_fmt_def
        CEC_OP_SERVICE_ID_METHOD_BY_CHANNEL_def Let_def nth_list_update del: drop_bit_or)
qed

theorem digital_channel_roundtrip_witness:
  "\<exists>x d. cec_set_digital_service_id zero_msg 2 (digital_of (By_Channel 1 2 0x123 4)) = Some x \<and>
    cec_get_digital_service_id x 2 no_digital = Some d \<and>
    digital_view d = By_Channel 1 2 0x63 4"
  using digital_channel_roundtrip [of zero_msg 2 1 2 "0x123" 4 no_digital]
  by (auto simp: wf_msg_def zero_msg_def CEC_MAX_MSG_SIZE_def hi8_def lo8_def)

text \<open>
  C32. A record request with a source type outside the five known ones builds
  nothing: the length and the bytes of the previous message stay, and only the awaited reply changes.
\<close>

theorem record_on_unknown:
  assumes "rs_type src = 0 \<or> 5 < rs_type src"
  shows "cec_msg_record_on m want_reply src =
    Some (m\<lparr>reply := (if want_reply \<noteq> 0 then CEC_MSG_RECORD_STATUS else 0)\<rparr>)"
  using assms by (auto simp: cec_msg_record_on_def c_consts)

theorem record_on_unknown_witness:
  "map_option len (cec_msg_record_on (zero_msg\<lparr>len := 1\<rparr>) 1 (no_src\<lparr>rs_type := 6\<rparr>)) = Some 1"
  using record_on_unknown [of "no_src\<lparr>rs_type := 6\<rparr>" "zero_msg\<lparr>len := 1\<rparr>" 1] by simp

end
