(* ===== verification/Cec_Timer.thy ===== *)
theory Cec_Timer
  imports Cec_Record
begin

text \<open>
  Timer Programming of \<open>sysincludes/linux/cec-funcs.h\<close>: the status messages, the six timer
  messages with their times in binary-coded decimal, and the program title.
\<close>

section \<open>Message functions\<close>

definition has_duration :: "u8 \<Rightarrow> u8 \<Rightarrow> bool" where
  "has_duration prog_info prog_error \<longleftrightarrow>
     prog_info = CEC_OP_PROG_INFO_NOT_ENOUGH_SPACE \<or>
     prog_info = CEC_OP_PROG_INFO_MIGHT_NOT_BE_ENOUGH_SPACE \<or>
     prog_error = CEC_OP_PROG_ERROR_DUPLICATE"

definition status_byte :: "u8 \<Rightarrow> u8 \<Rightarrow> u8 \<Rightarrow> u8 \<Rightarrow> u8" where
  "status_byte timer_overlap_warning media_info prog_info prog_error =
     push_bit 7 timer_overlap_warning OR push_bit 5 media_info OR
     (if prog_info \<noteq> 0 then 0x10 else 0) OR (if prog_info \<noteq> 0 then prog_info else prog_error)"

definition cec_msg_timer_status ::
    "cec_msg \<Rightarrow> u8 \<Rightarrow> u8 \<Rightarrow> u8 \<Rightarrow> u8 \<Rightarrow> u8 \<Rightarrow> u8 \<Rightarrow> cec_msg option" where
  "cec_msg_timer_status m timer_overlap_warning media_info prog_info prog_error
     duration_hr duration_min = do {
     let m = m\<lparr>len := 3\<rparr>;
     m \<leftarrow> put m 1 CEC_MSG_TIMER_STATUS;
     m \<leftarrow> put m 2 (status_byte timer_overlap_warning media_info prog_info prog_error);
     if has_duration prog_info prog_error then do {
       let m = m\<lparr>len := len m + 2\<rparr>;
       m \<leftarrow> put m 3 (bcd duration_hr);
       put m 4 (bcd duration_min) }
     else Some m }"

definition cec_ops_timer_status ::
    "cec_msg \<Rightarrow> (u8 \<times> u8 \<times> u8 \<times> u8 \<times> u8 \<times> u8) option" where
  "cec_ops_timer_status m = do {
     b \<leftarrow> get m 2;
     let timer_overlap_warning = drop_bit 7 b;
     let media_info = drop_bit 5 b AND 3;
     let prog_info = (if b AND 0x10 \<noteq> 0 then b AND 0xf else 0);
     let prog_error = (if b AND 0x10 \<noteq> 0 then 0 else b AND 0xf);
     if has_duration prog_info prog_error then do {
       duration_hr \<leftarrow> map_option unbcd (get m 3);
       duration_min \<leftarrow> map_option unbcd (get m 4);
       Some (timer_overlap_warning, media_info, prog_info, prog_error, duration_hr, duration_min) }
     else Some (timer_overlap_warning, media_info, prog_info, prog_error, 0, 0) }"

definition cec_msg_timer_cleared_status :: "cec_msg \<Rightarrow> u8 \<Rightarrow> cec_msg option" where
  "cec_msg_timer_cleared_status m timer_cleared_status = do {
     let m = m\<lparr>len := 3\<rparr>;
     m \<leftarrow> put m 1 CEC_MSG_TIMER_CLEARED_STATUS;
     m \<leftarrow> put m 2 timer_cleared_status;
     Some m }"

definition cec_ops_timer_cleared_status :: "cec_msg \<Rightarrow> u8 option" where
  "cec_ops_timer_cleared_status m = get m 2"

definition cec_msg_clear_analogue_timer :: "cec_msg \<Rightarrow> c_int \<Rightarrow> u8 \<Rightarrow> u8 \<Rightarrow> u8 \<Rightarrow> u8 \<Rightarrow> u8 \<Rightarrow> u8 \<Rightarrow> u8 \<Rightarrow> u8 \<Rightarrow> u16 \<Rightarrow> u8 \<Rightarrow> cec_msg option" where
  "cec_msg_clear_analogue_timer m want_reply day month start_hr start_min duration_hr duration_min recording_seq ana_bcast_type ana_freq bcast_system = do {
     let m = m\<lparr>len := 13\<rparr>;
     m \<leftarrow> put m 1 CEC_MSG_CLEAR_ANALOGUE_TIMER;
     m \<leftarrow> put m 2 day;
     m \<leftarrow> put m 3 month;
     m \<leftarrow> put m 4 (bcd start_hr);
     m \<leftarrow> put m 5 (bcd start_min);
     m \<leftarrow> put m 6 (bcd duration_hr);
     m \<leftarrow> put m 7 (bcd duration_min);
     m \<leftarrow> put m 8 recording_seq;
     m \<leftarrow> put m 9 ana_bcast_type;
     m \<leftarrow> put m 10 (hi8 ana_freq);
     m \<leftarrow> put m 11 (lo8 ana_freq);
     m \<leftarrow> put m 12 bcast_system;
     let m = m\<lparr>reply := (if want_reply \<noteq> 0 then CEC_MSG_TIMER_CLEARED_STATUS else 0)\<rparr>;
     Some m }"

definition cec_ops_clear_analogue_timer :: "cec_msg \<Rightarrow> (u8 \<times> u8 \<times> u8 \<times> u8 \<times> u8 \<times> u8 \<times> u8 \<times> u8 \<times> u16 \<times> u8) option" where
  "cec_ops_clear_analogue_timer m = do {
     day \<leftarrow> get m 2;
     month \<leftarrow> get m 3;
     start_hr \<leftarrow> map_option unbcd (get m 4);
     start_min \<leftarrow> map_option unbcd (get m 5);
     duration_hr \<leftarrow> map_option unbcd (get m 6);
     duration_min \<leftarrow> map_option unbcd (get m 7);
     recording_seq \<leftarrow> get m 8;
     ana_bcast_type \<leftarrow> get m 9;
     ana_freq \<leftarrow> get16 m 10;
     bcast_system \<leftarrow> get m 12;
     Some (day, month, start_hr, start_min, duration_hr, duration_min, recording_seq, ana_bcast_type, ana_freq, bcast_system) }"

definition cec_msg_clear_digital_timer :: "cec_msg \<Rightarrow> c_int \<Rightarrow> u8 \<Rightarrow> u8 \<Rightarrow> u8 \<Rightarrow> u8 \<Rightarrow> u8 \<Rightarrow> u8 \<Rightarrow>
    u8 \<Rightarrow> cec_op_digital_service_id \<Rightarrow> cec_msg option" where
  "cec_msg_clear_digital_timer m want_reply day month start_hr start_min duration_hr duration_min
     recording_seq digital = do {
     let m = m\<lparr>len := 16\<rparr>;
     let m = m\<lparr>reply := (if want_reply \<noteq> 0 then CEC_MSG_TIMER_CLEARED_STATUS else 0)\<rparr>;
     m \<leftarrow> put m 1 CEC_MSG_CLEAR_DIGITAL_TIMER;
     m \<leftarrow> put m 2 day;
     m \<leftarrow> put m 3 month;
     m \<leftarrow> put m 4 (bcd start_hr);
     m \<leftarrow> put m 5 (bcd start_min);
     m \<leftarrow> put m 6 (bcd duration_hr);
     m \<leftarrow> put m 7 (bcd duration_min);
     m \<leftarrow> put m 8 recording_seq;
     cec_set_digital_service_id m 9 digital }"

definition cec_ops_clear_digital_timer :: "cec_msg \<Rightarrow> cec_op_digital_service_id \<Rightarrow>
    (u8 \<times> u8 \<times> u8 \<times> u8 \<times> u8 \<times> u8 \<times> u8 \<times> cec_op_digital_service_id) option" where
  "cec_ops_clear_digital_timer m digital = do {
     day \<leftarrow> get m 2;
     month \<leftarrow> get m 3;
     start_hr \<leftarrow> map_option unbcd (get m 4);
     start_min \<leftarrow> map_option unbcd (get m 5);
     duration_hr \<leftarrow> map_option unbcd (get m 6);
     duration_min \<leftarrow> map_option unbcd (get m 7);
     recording_seq \<leftarrow> get m 8;
     digital \<leftarrow> cec_get_digital_service_id m 9 digital;
     Some (day, month, start_hr, start_min, duration_hr, duration_min, recording_seq, digital) }"

definition cec_msg_clear_ext_timer :: "cec_msg \<Rightarrow> c_int \<Rightarrow> u8 \<Rightarrow> u8 \<Rightarrow> u8 \<Rightarrow> u8 \<Rightarrow> u8 \<Rightarrow> u8 \<Rightarrow> u8 \<Rightarrow> u8 \<Rightarrow> u8 \<Rightarrow> u16 \<Rightarrow> cec_msg option" where
  "cec_msg_clear_ext_timer m want_reply day month start_hr start_min duration_hr duration_min recording_seq ext_src_spec plug phys_addr = do {
     let m = m\<lparr>len := 13\<rparr>;
     m \<leftarrow> put m 1 CEC_MSG_CLEAR_EXT_TIMER;
     m \<leftarrow> put m 2 day;
     m \<leftarrow> put m 3 month;
     m \<leftarrow> put m 4 (bcd start_hr);
     m \<leftarrow> put m 5 (bcd start_min);
     m \<leftarrow> put m 6 (bcd duration_hr);
     m \<leftarrow> put m 7 (bcd duration_min);
     m \<leftarrow> put m 8 recording_seq;
     m \<leftarrow> put m 9 ext_src_spec;
     m \<leftarrow> put m 10 plug;
     m \<leftarrow> put m 11 (hi8 phys_addr);
     m \<leftarrow> put m 12 (lo8 phys_addr);
     let m = m\<lparr>reply := (if want_reply \<noteq> 0 then CEC_MSG_TIMER_CLEARED_STATUS else 0)\<rparr>;
     Some m }"

definition cec_ops_clear_ext_timer :: "cec_msg \<Rightarrow> (u8 \<times> u8 \<times> u8 \<times> u8 \<times> u8 \<times> u8 \<times> u8 \<times> u8 \<times> u8 \<times> u16) option" where
  "cec_ops_clear_ext_timer m = do {
     day \<leftarrow> get m 2;
     month \<leftarrow> get m 3;
     start_hr \<leftarrow> map_option unbcd (get m 4);
     start_min \<leftarrow> map_option unbcd (get m 5);
     duration_hr \<leftarrow> map_option unbcd (get m 6);
     duration_min \<leftarrow> map_option unbcd (get m 7);
     recording_seq \<leftarrow> get m 8;
     ext_src_spec \<leftarrow> get m 9;
     plug \<leftarrow> get m 10;
     phys_addr \<leftarrow> get16 m 11;
     Some (day, month, start_hr, start_min, duration_hr, duration_min, recording_seq, ext_src_spec, plug, phys_addr) }"

definition cec_msg_set_analogue_timer :: "cec_msg \<Rightarrow> c_int \<Rightarrow> u8 \<Rightarrow> u8 \<Rightarrow> u8 \<Rightarrow> u8 \<Rightarrow> u8 \<Rightarrow> u8 \<Rightarrow> u8 \<Rightarrow> u8 \<Rightarrow> u16 \<Rightarrow> u8 \<Rightarrow> cec_msg option" where
  "cec_msg_set_analogue_timer m want_reply day month start_hr start_min duration_hr duration_min recording_seq ana_bcast_type ana_freq bcast_system = do {
     let m = m\<lparr>len := 13\<rparr>;
     m \<leftarrow> put m 1 CEC_MSG_SET_ANALOGUE_TIMER;
     m \<leftarrow> put m 2 day;
     m \<leftarrow> put m 3 month;
     m \<leftarrow> put m 4 (bcd start_hr);
     m \<leftarrow> put m 5 (bcd start_min);
     m \<leftarrow> put m 6 (bcd duration_hr);
     m \<leftarrow> put m 7 (bcd duration_min);
     m \<leftarrow> put m 8 recording_seq;
     m \<leftarrow> put m 9 ana_bcast_type;
     m \<leftarrow> put m 10 (hi8 ana_freq);
     m \<leftarrow> put m 11 (lo8 ana_freq);
     m \<leftarrow> put m 12 bcast_system;
     let m = m\<lparr>reply := (if want_reply \<noteq> 0 then CEC_MSG_TIMER_STATUS else 0)\<rparr>;
     Some m }"

definition cec_ops_set_analogue_timer :: "cec_msg \<Rightarrow> (u8 \<times> u8 \<times> u8 \<times> u8 \<times> u8 \<times> u8 \<times> u8 \<times> u8 \<times> u16 \<times> u8) option" where
  "cec_ops_set_analogue_timer m = do {
     day \<leftarrow> get m 2;
     month \<leftarrow> get m 3;
     start_hr \<leftarrow> map_option unbcd (get m 4);
     start_min \<leftarrow> map_option unbcd (get m 5);
     duration_hr \<leftarrow> map_option unbcd (get m 6);
     duration_min \<leftarrow> map_option unbcd (get m 7);
     recording_seq \<leftarrow> get m 8;
     ana_bcast_type \<leftarrow> get m 9;
     ana_freq \<leftarrow> get16 m 10;
     bcast_system \<leftarrow> get m 12;
     Some (day, month, start_hr, start_min, duration_hr, duration_min, recording_seq, ana_bcast_type, ana_freq, bcast_system) }"

definition cec_msg_set_digital_timer :: "cec_msg \<Rightarrow> c_int \<Rightarrow> u8 \<Rightarrow> u8 \<Rightarrow> u8 \<Rightarrow> u8 \<Rightarrow> u8 \<Rightarrow> u8 \<Rightarrow>
    u8 \<Rightarrow> cec_op_digital_service_id \<Rightarrow> cec_msg option" where
  "cec_msg_set_digital_timer m want_reply day month start_hr start_min duration_hr duration_min
     recording_seq digital = do {
     let m = m\<lparr>len := 16\<rparr>;
     let m = m\<lparr>reply := (if want_reply \<noteq> 0 then CEC_MSG_TIMER_STATUS else 0)\<rparr>;
     m \<leftarrow> put m 1 CEC_MSG_SET_DIGITAL_TIMER;
     m \<leftarrow> put m 2 day;
     m \<leftarrow> put m 3 month;
     m \<leftarrow> put m 4 (bcd start_hr);
     m \<leftarrow> put m 5 (bcd start_min);
     m \<leftarrow> put m 6 (bcd duration_hr);
     m \<leftarrow> put m 7 (bcd duration_min);
     m \<leftarrow> put m 8 recording_seq;
     cec_set_digital_service_id m 9 digital }"

definition cec_ops_set_digital_timer :: "cec_msg \<Rightarrow> cec_op_digital_service_id \<Rightarrow>
    (u8 \<times> u8 \<times> u8 \<times> u8 \<times> u8 \<times> u8 \<times> u8 \<times> cec_op_digital_service_id) option" where
  "cec_ops_set_digital_timer m digital = do {
     day \<leftarrow> get m 2;
     month \<leftarrow> get m 3;
     start_hr \<leftarrow> map_option unbcd (get m 4);
     start_min \<leftarrow> map_option unbcd (get m 5);
     duration_hr \<leftarrow> map_option unbcd (get m 6);
     duration_min \<leftarrow> map_option unbcd (get m 7);
     recording_seq \<leftarrow> get m 8;
     digital \<leftarrow> cec_get_digital_service_id m 9 digital;
     Some (day, month, start_hr, start_min, duration_hr, duration_min, recording_seq, digital) }"

definition cec_msg_set_ext_timer :: "cec_msg \<Rightarrow> c_int \<Rightarrow> u8 \<Rightarrow> u8 \<Rightarrow> u8 \<Rightarrow> u8 \<Rightarrow> u8 \<Rightarrow> u8 \<Rightarrow> u8 \<Rightarrow> u8 \<Rightarrow> u8 \<Rightarrow> u16 \<Rightarrow> cec_msg option" where
  "cec_msg_set_ext_timer m want_reply day month start_hr start_min duration_hr duration_min recording_seq ext_src_spec plug phys_addr = do {
     let m = m\<lparr>len := 13\<rparr>;
     m \<leftarrow> put m 1 CEC_MSG_SET_EXT_TIMER;
     m \<leftarrow> put m 2 day;
     m \<leftarrow> put m 3 month;
     m \<leftarrow> put m 4 (bcd start_hr);
     m \<leftarrow> put m 5 (bcd start_min);
     m \<leftarrow> put m 6 (bcd duration_hr);
     m \<leftarrow> put m 7 (bcd duration_min);
     m \<leftarrow> put m 8 recording_seq;
     m \<leftarrow> put m 9 ext_src_spec;
     m \<leftarrow> put m 10 plug;
     m \<leftarrow> put m 11 (hi8 phys_addr);
     m \<leftarrow> put m 12 (lo8 phys_addr);
     let m = m\<lparr>reply := (if want_reply \<noteq> 0 then CEC_MSG_TIMER_STATUS else 0)\<rparr>;
     Some m }"

definition cec_ops_set_ext_timer :: "cec_msg \<Rightarrow> (u8 \<times> u8 \<times> u8 \<times> u8 \<times> u8 \<times> u8 \<times> u8 \<times> u8 \<times> u8 \<times> u16) option" where
  "cec_ops_set_ext_timer m = do {
     day \<leftarrow> get m 2;
     month \<leftarrow> get m 3;
     start_hr \<leftarrow> map_option unbcd (get m 4);
     start_min \<leftarrow> map_option unbcd (get m 5);
     duration_hr \<leftarrow> map_option unbcd (get m 6);
     duration_min \<leftarrow> map_option unbcd (get m 7);
     recording_seq \<leftarrow> get m 8;
     ext_src_spec \<leftarrow> get m 9;
     plug \<leftarrow> get m 10;
     phys_addr \<leftarrow> get16 m 11;
     Some (day, month, start_hr, start_min, duration_hr, duration_min, recording_seq, ext_src_spec, plug, phys_addr) }"

definition cec_msg_set_timer_program_title :: "cec_msg \<Rightarrow> u8 list \<Rightarrow> cec_msg option" where
  "cec_msg_set_timer_program_title m prog_title = do {
     n \<leftarrow> clamp_strlen 14 prog_title;
     let m = m\<lparr>len := of_nat (2 + n)\<rparr>;
     m \<leftarrow> put m 1 CEC_MSG_SET_TIMER_PROGRAM_TITLE;
     put_bytes m 2 prog_title n }"

definition cec_ops_set_timer_program_title :: "cec_msg \<Rightarrow> u8 list \<Rightarrow> u8 list option" where
  "cec_ops_set_timer_program_title m prog_title = get_string m 2 14 prog_title"

lemmas timer_msg_defs =
  cec_msg_timer_status_def cec_msg_timer_cleared_status_def cec_msg_clear_analogue_timer_def
  cec_msg_clear_digital_timer_def cec_msg_clear_ext_timer_def cec_msg_set_analogue_timer_def
  cec_msg_set_digital_timer_def cec_msg_set_ext_timer_def

lemmas timer_ops_defs =
  cec_ops_timer_status_def cec_ops_timer_cleared_status_def cec_ops_clear_analogue_timer_def
  cec_ops_clear_digital_timer_def cec_ops_clear_ext_timer_def cec_ops_set_analogue_timer_def
  cec_ops_set_digital_timer_def cec_ops_set_ext_timer_def cec_ops_set_timer_program_title_def

section \<open>Commands\<close>

text \<open>Day, month, start (hours, minutes), duration (hours, minutes), recording sequence.\<close>

datatype timer = Timer u8 u8 u8 u8 u8 u8 u8

fun timer_bytes :: "timer \<Rightarrow> u8 list" where
  "timer_bytes (Timer day month sh sm dh dm q) = [day, month, bcd sh, bcd sm, bcd dh, bcd dm, q]"

fun timer_fits :: "timer \<Rightarrow> bool" where
  "timer_fits (Timer day month sh sm dh dm q) = (sh < 160 \<and> sm < 160 \<and> dh < 160 \<and> dm < 160)"

datatype timer_cmd =
    Timer_Status u8 u8 u8 u8 u8 u8
  | Timer_Cleared_Status u8
  | Clear_Analogue_Timer timer u8 u16 u8
  | Clear_Digital_Timer timer digital_service
  | Clear_Ext_Timer timer u8 u8 u16
  | Set_Analogue_Timer timer u8 u16 u8
  | Set_Digital_Timer timer digital_service
  | Set_Ext_Timer timer u8 u8 u16
  | Set_Timer_Program_Title "u8 list"

fun timer_send :: "cec_msg \<Rightarrow> c_int \<Rightarrow> timer_cmd \<Rightarrow> cec_msg option" where
  "timer_send m r (Timer_Status w i p e dh dm) = cec_msg_timer_status m w i p e dh dm"
| "timer_send m r (Timer_Cleared_Status s) = cec_msg_timer_cleared_status m s"
| "timer_send m r (Clear_Analogue_Timer (Timer d mo sh sm dh dm q) t f s) =
     cec_msg_clear_analogue_timer m r d mo sh sm dh dm q t f s"
| "timer_send m r (Clear_Digital_Timer (Timer d mo sh sm dh dm q) g) =
     cec_msg_clear_digital_timer m r d mo sh sm dh dm q (digital_of g)"
| "timer_send m r (Clear_Ext_Timer (Timer d mo sh sm dh dm q) e p a) =
     cec_msg_clear_ext_timer m r d mo sh sm dh dm q e p a"
| "timer_send m r (Set_Analogue_Timer (Timer d mo sh sm dh dm q) t f s) =
     cec_msg_set_analogue_timer m r d mo sh sm dh dm q t f s"
| "timer_send m r (Set_Digital_Timer (Timer d mo sh sm dh dm q) g) =
     cec_msg_set_digital_timer m r d mo sh sm dh dm q (digital_of g)"
| "timer_send m r (Set_Ext_Timer (Timer d mo sh sm dh dm q) e p a) =
     cec_msg_set_ext_timer m r d mo sh sm dh dm q e p a"
| "timer_send m r (Set_Timer_Program_Title t) = cec_msg_set_timer_program_title m (t @ [0])"

fun timer_spec :: "c_int \<Rightarrow> timer_cmd \<Rightarrow> wire" where
  "timer_spec r (Timer_Status w i p e dh dm) =
     tell CEC_MSG_TIMER_STATUS
       (status_byte w i p e # (if has_duration p e then [bcd dh, bcd dm] else []))"
| "timer_spec r (Timer_Cleared_Status s) = tell CEC_MSG_TIMER_CLEARED_STATUS [s]"
| "timer_spec r (Clear_Analogue_Timer w t f s) =
     awaiting r CEC_MSG_TIMER_CLEARED_STATUS
       (tell CEC_MSG_CLEAR_ANALOGUE_TIMER (timer_bytes w @ [t, hi8 f, lo8 f, s]))"
| "timer_spec r (Clear_Digital_Timer w g) =
     awaiting r CEC_MSG_TIMER_CLEARED_STATUS
       (tell CEC_MSG_CLEAR_DIGITAL_TIMER (timer_bytes w @ digital_bytes g))"
| "timer_spec r (Clear_Ext_Timer w e p a) =
     awaiting r CEC_MSG_TIMER_CLEARED_STATUS
       (tell CEC_MSG_CLEAR_EXT_TIMER (timer_bytes w @ [e, p, hi8 a, lo8 a]))"
| "timer_spec r (Set_Analogue_Timer w t f s) =
     awaiting r CEC_MSG_TIMER_STATUS
       (tell CEC_MSG_SET_ANALOGUE_TIMER (timer_bytes w @ [t, hi8 f, lo8 f, s]))"
| "timer_spec r (Set_Digital_Timer w g) =
     awaiting r CEC_MSG_TIMER_STATUS
       (tell CEC_MSG_SET_DIGITAL_TIMER (timer_bytes w @ digital_bytes g))"
| "timer_spec r (Set_Ext_Timer w e p a) =
     awaiting r CEC_MSG_TIMER_STATUS
       (tell CEC_MSG_SET_EXT_TIMER (timer_bytes w @ [e, p, hi8 a, lo8 a]))"
| "timer_spec r (Set_Timer_Program_Title t) =
     tell CEC_MSG_SET_TIMER_PROGRAM_TITLE (take 14 (takeWhile (\<lambda>c. c \<noteq> 0) t))"

definition timer_recv :: "cec_msg \<Rightarrow> timer_cmd received option" where
  "timer_recv m = do {
     op \<leftarrow> cec_msg_opcode m;
     if op = uint CEC_MSG_TIMER_STATUS then
       map_option (\<lambda>(w, i, p, e, dh, dm). Recognised (Timer_Status w i p e dh dm))
         (cec_ops_timer_status m)
     else if op = uint CEC_MSG_TIMER_CLEARED_STATUS then
       map_option (Recognised \<circ> Timer_Cleared_Status) (cec_ops_timer_cleared_status m)
     else if op = uint CEC_MSG_CLEAR_ANALOGUE_TIMER then
       map_option (\<lambda>(d, mo, sh, sm, dh, dm, q, t, f, s).
           Recognised (Clear_Analogue_Timer (Timer d mo sh sm dh dm q) t f s))
         (cec_ops_clear_analogue_timer m)
     else if op = uint CEC_MSG_CLEAR_DIGITAL_TIMER then
       map_option (\<lambda>(d, mo, sh, sm, dh, dm, q, g).
           Recognised (Clear_Digital_Timer (Timer d mo sh sm dh dm q) (digital_view g)))
         (cec_ops_clear_digital_timer m no_digital)
     else if op = uint CEC_MSG_CLEAR_EXT_TIMER then
       map_option (\<lambda>(d, mo, sh, sm, dh, dm, q, e, p, a).
           Recognised (Clear_Ext_Timer (Timer d mo sh sm dh dm q) e p a))
         (cec_ops_clear_ext_timer m)
     else if op = uint CEC_MSG_SET_ANALOGUE_TIMER then
       map_option (\<lambda>(d, mo, sh, sm, dh, dm, q, t, f, s).
           Recognised (Set_Analogue_Timer (Timer d mo sh sm dh dm q) t f s))
         (cec_ops_set_analogue_timer m)
     else if op = uint CEC_MSG_SET_DIGITAL_TIMER then
       map_option (\<lambda>(d, mo, sh, sm, dh, dm, q, g).
           Recognised (Set_Digital_Timer (Timer d mo sh sm dh dm q) (digital_view g)))
         (cec_ops_set_digital_timer m no_digital)
     else if op = uint CEC_MSG_SET_EXT_TIMER then
       map_option (\<lambda>(d, mo, sh, sm, dh, dm, q, e, p, a).
           Recognised (Set_Ext_Timer (Timer d mo sh sm dh dm q) e p a))
         (cec_ops_set_ext_timer m)
     else if op = uint CEC_MSG_SET_TIMER_PROGRAM_TITLE then
       map_option (\<lambda>t. Recognised (Set_Timer_Program_Title (takeWhile (\<lambda>c. c \<noteq> 0) t)))
         (cec_ops_set_timer_program_title m (replicate 15 0))
     else Some Unrecognised }"

definition timer_opcodes :: "u8 list" where
  "timer_opcodes =
     [CEC_MSG_TIMER_STATUS, CEC_MSG_TIMER_CLEARED_STATUS, CEC_MSG_CLEAR_ANALOGUE_TIMER,
      CEC_MSG_CLEAR_DIGITAL_TIMER, CEC_MSG_CLEAR_EXT_TIMER, CEC_MSG_SET_ANALOGUE_TIMER,
      CEC_MSG_SET_DIGITAL_TIMER, CEC_MSG_SET_EXT_TIMER, CEC_MSG_SET_TIMER_PROGRAM_TITLE]"

text \<open>
  Operands that fit: fields within their bits, times whose tens fit four bits. A status says either
  that the timer is programmed or why it is not, and has a duration only where it is transmitted.
\<close>

fun timer_cmd_fits :: "timer_cmd \<Rightarrow> bool" where
  "timer_cmd_fits (Timer_Status w i p e dh dm) =
     (w < 2 \<and> i < 4 \<and> p < 16 \<and> e < 16 \<and> (p = 0 \<or> e = 0) \<and>
      (if has_duration p e then dh < 160 \<and> dm < 160 else dh = 0 \<and> dm = 0))"
| "timer_cmd_fits (Timer_Cleared_Status s) = True"
| "timer_cmd_fits (Clear_Analogue_Timer w t f s) = timer_fits w"
| "timer_cmd_fits (Clear_Digital_Timer w g) = (timer_fits w \<and> digital_fits g)"
| "timer_cmd_fits (Clear_Ext_Timer w e p a) = timer_fits w"
| "timer_cmd_fits (Set_Analogue_Timer w t f s) = timer_fits w"
| "timer_cmd_fits (Set_Digital_Timer w g) = (timer_fits w \<and> digital_fits g)"
| "timer_cmd_fits (Set_Ext_Timer w e p a) = timer_fits w"
| "timer_cmd_fits (Set_Timer_Program_Title t) = (length t \<le> 14 \<and> 0 \<notin> set t)"

fun timer_cmd_heard :: "timer_cmd \<Rightarrow> timer_cmd" where
  "timer_cmd_heard (Clear_Digital_Timer w g) = Clear_Digital_Timer w (digital_heard g)"
| "timer_cmd_heard (Set_Digital_Timer w g) = Set_Digital_Timer w (digital_heard g)"
| "timer_cmd_heard c = c"

fun timer_cmd_garbled :: "timer_cmd \<Rightarrow> bool" where
  "timer_cmd_garbled (Clear_Digital_Timer w g) = digital_garbled g"
| "timer_cmd_garbled (Set_Digital_Timer w g) = digital_garbled g"
| "timer_cmd_garbled _ = False"

lemma timer_cmd_heard_exact: "timer_cmd_fits c \<Longrightarrow> timer_cmd_heard c = c \<longleftrightarrow> \<not> timer_cmd_garbled c"
  by (cases c) (simp_all add: digital_heard_exact)

section \<open>The contract holds\<close>

lemma status_byte_table:
  "list_all (\<lambda>w. list_all (\<lambda>i. list_all (\<lambda>p. list_all (\<lambda>e.
      p \<noteq> 0 \<and> e \<noteq> 0 \<or> (let b = status_byte w i p e in
      drop_bit 7 b = w \<and> drop_bit 5 b AND 3 = i \<and>
      (if b AND 0x10 \<noteq> 0 then b AND 0xf else 0) = p \<and>
      (if b AND 0x10 \<noteq> 0 then 0 else b AND 0xf) = e))
    (map word_of_nat [0..<16])) (map word_of_nat [0..<16])) (map word_of_nat [0..<4]))
    (map word_of_nat [0..<2])"
  by code_simp

lemma status_byte_fields:
  assumes "w < 2" and "i < 4" and "p < 16" and "e < 16" and "p = 0 \<or> e = 0"
  shows "drop_bit 7 (status_byte w i p e) = w"
    and "drop_bit 5 (status_byte w i p e) AND 3 = i"
    and "(if status_byte w i p e AND 0x10 \<noteq> 0 then status_byte w i p e AND 0xf else 0) = p"
    and "(if status_byte w i p e AND 0x10 \<noteq> 0 then 0 else status_byte w i p e AND 0xf) = e"
proof -
  have "unat w < 2" "unat i < 4" "unat p < 16" "unat e < 16"
    using assms by (simp_all add: word_less_nat_alt)
  then have "p \<noteq> 0 \<and> e \<noteq> 0 \<or> (let b = status_byte w i p e in
      drop_bit 7 b = w \<and> drop_bit 5 b AND 3 = i \<and>
      (if b AND 0x10 \<noteq> 0 then b AND 0xf else 0) = p \<and>
      (if b AND 0x10 \<noteq> 0 then 0 else b AND 0xf) = e)"
    by (rule u8_table [OF u8_table [OF u8_table [OF u8_table [OF status_byte_table]]]])
  then have "let b = status_byte w i p e in
      drop_bit 7 b = w \<and> drop_bit 5 b AND 3 = i \<and>
      (if b AND 0x10 \<noteq> 0 then b AND 0xf else 0) = p \<and>
      (if b AND 0x10 \<noteq> 0 then 0 else b AND 0xf) = e"
    using assms(5) by blast
  then show "drop_bit 7 (status_byte w i p e) = w"
    and "drop_bit 5 (status_byte w i p e) AND 3 = i"
    and "(if status_byte w i p e AND 0x10 \<noteq> 0 then status_byte w i p e AND 0xf else 0) = p"
    and "(if status_byte w i p e AND 0x10 \<noteq> 0 then 0 else status_byte w i p e AND 0xf) = e"
    unfolding Let_def by blast+
qed

lemma title_refines:
  assumes "wf_msg m"
  shows "\<exists>x. cec_msg_set_timer_program_title m (t @ [0]) = Some x \<and>
    implements m (timer_spec r (Set_Timer_Program_Title t)) x"
proof -
  let ?n = "min 14 (length (takeWhile (\<lambda>c. c \<noteq> 0) t))"
  let ?bs = "(msg m)[1 := CEC_MSG_SET_TIMER_PROGRAM_TITLE]"
  have "\<exists>x. put_bytes (m\<lparr>len := of_nat (2 + ?n), msg := ?bs\<rparr>) 2 (t @ [0]) ?n = Some x \<and>
      implements m (tell CEC_MSG_SET_TIMER_PROGRAM_TITLE
        ([] @ take 14 (takeWhile (\<lambda>c. c \<noteq> 0) t))) x"
    by (rule text_refines) (use assms in \<open>auto simp: wf_msg_16 header_def\<close>)
  then show ?thesis
    using assms by (simp add: cec_msg_set_timer_program_title_def clamp_strlen_buffer put_total)
qed

lemma timer_refines:
  assumes "wf_msg m"
  shows "\<exists>x. timer_send m r c = Some x \<and> implements m (timer_spec r c) x"
proof (cases c)
  case (Clear_Digital_Timer w g)
  then show ?thesis
    using assms set_digital_bytes [of _ 9 g] digital_bytes_list [of g] unfolding wf_msg_16
    by (cases w) (auto simp: timer_msg_defs refines_simps)
next
  case (Set_Digital_Timer w g)
  then show ?thesis
    using assms set_digital_bytes [of _ 9 g] digital_bytes_list [of g] unfolding wf_msg_16
    by (cases w) (auto simp: timer_msg_defs refines_simps)
next
  case (Set_Timer_Program_Title t)
  then show ?thesis using title_refines [OF assms] by simp
next
  case (Clear_Analogue_Timer w t f s)
  then show ?thesis using assms unfolding wf_msg_16
    by (cases w) (auto simp: timer_msg_defs refines_simps)
next
  case (Clear_Ext_Timer w e p a)
  then show ?thesis using assms unfolding wf_msg_16
    by (cases w) (auto simp: timer_msg_defs refines_simps)
next
  case (Set_Analogue_Timer w t f s)
  then show ?thesis using assms unfolding wf_msg_16
    by (cases w) (auto simp: timer_msg_defs refines_simps)
next
  case (Set_Ext_Timer w e p a)
  then show ?thesis using assms unfolding wf_msg_16
    by (cases w) (auto simp: timer_msg_defs refines_simps)
qed (use assms in \<open>auto simp: wf_msg_16 timer_msg_defs refines_simps\<close>)

lemma timer_recv_safe:
  assumes "wf_msg m"
  shows "\<exists>p. timer_recv m = Some p"
proof -
  obtain g where "cec_get_digital_service_id m 9 no_digital = Some g"
    using get_digital_safe [OF assms, of 9] by auto
  moreover obtain t where "get_string m 2 14 (replicate 15 0) = Some t"
    using get_string_safe [OF assms, of 2 14 "replicate 15 0"] by auto
  ultimately show ?thesis
    unfolding timer_recv_def
    by (intro opcode_bind_safe) (simp_all add: assms timer_ops_defs c_mem Let_def)
qed

lemma timer_digital_wire:
  assumes "timer_fits (Timer d mo sh sm dh dm q)" and "digital_fits g"
    and "carries y (h # op # timer_bytes (Timer d mo sh sm dh dm q) @ digital_bytes g)"
  shows "\<exists>e. cec_get_digital_service_id y 9 z = Some e \<and> digital_view e = digital_heard g"
proof -
  have "get y (9 + i) = Some (digital_bytes g ! i)" if "i < 7" for i
    using carries_get [OF assms(3), of "9 + i"] that by simp
  then show ?thesis
    using get_digital_bytes [OF assms(2), of y 9 z] by auto
qed

lemma timer_recv_wire:
  assumes "timer_cmd_fits c"
    and "carries y (h # w_opcode (timer_spec r c) # w_operands (timer_spec r c))"
  shows "timer_recv y = Some (Recognised (timer_cmd_heard c))"
proof (cases c)
  case (Timer_Status w i p e dh dm)
  then show ?thesis
    using assms(1) carries_opcode [OF assms(2)] carries_get [OF assms(2)]
      status_byte_fields [of w i p e]
    by (simp add: timer_recv_def timer_ops_defs wire_defs CEC_MSG_TIMER_STATUS_def unbcd_bcd Let_def
      split: if_splits)
next
  case (Clear_Digital_Timer w g)
  obtain d mo sh sm dh dm q where w: "w = Timer d mo sh sm dh dm q" by (cases w)
  obtain e where "cec_get_digital_service_id y 9 no_digital = Some e" "digital_view e = digital_heard g"
    using timer_digital_wire [of d mo sh sm dh dm q g y] assms Clear_Digital_Timer w
    by (fastforce simp: wire_defs)
  then show ?thesis
    using assms(1) carries_opcode [OF assms(2)] carries_get [OF assms(2)] Clear_Digital_Timer w
    by (simp add: timer_recv_def timer_ops_defs wire_defs c_consts unbcd_bcd)
next
  case (Set_Digital_Timer w g)
  obtain d mo sh sm dh dm q where w: "w = Timer d mo sh sm dh dm q" by (cases w)
  obtain e where "cec_get_digital_service_id y 9 no_digital = Some e" "digital_view e = digital_heard g"
    using timer_digital_wire [of d mo sh sm dh dm q g y] assms Set_Digital_Timer w
    by (fastforce simp: wire_defs)
  then show ?thesis
    using assms(1) carries_opcode [OF assms(2)] carries_get [OF assms(2)] Set_Digital_Timer w
    by (simp add: timer_recv_def timer_ops_defs wire_defs c_consts unbcd_bcd)
next
  case (Set_Timer_Program_Title t)
  have t: "length t \<le> 14" "0 \<notin> set t"
    using assms(1) Set_Timer_Program_Title by simp_all
  have f: "carries y ([h, CEC_MSG_SET_TIMER_PROGRAM_TITLE] @ t)"
    using assms(2) t Set_Timer_Program_Title by (simp add: wire_defs takeWhile_no_nul)
  obtain s where "get_string y 2 14 (replicate 15 0) = Some s" "takeWhile (\<lambda>c. c \<noteq> 0) s = t"
    using get_string_frame [OF f, of 2 14 "replicate 15 0"] t by auto
  then show ?thesis
    using Set_Timer_Program_Title carries_opcode [of y h CEC_MSG_SET_TIMER_PROGRAM_TITLE t] f
    by (simp add: timer_recv_def timer_ops_defs c_consts)
next
  case (Clear_Analogue_Timer w t f s)
  then show ?thesis
    using assms(1) carries_opcode [OF assms(2)] carries_get [OF assms(2)]
    by (cases w) (simp add: timer_recv_def timer_ops_defs wire_defs c_consts unbcd_bcd get16_def)
next
  case (Clear_Ext_Timer w e p a)
  then show ?thesis
    using assms(1) carries_opcode [OF assms(2)] carries_get [OF assms(2)]
    by (cases w) (simp add: timer_recv_def timer_ops_defs wire_defs c_consts unbcd_bcd get16_def)
next
  case (Set_Analogue_Timer w t f s)
  then show ?thesis
    using assms(1) carries_opcode [OF assms(2)] carries_get [OF assms(2)]
    by (cases w) (simp add: timer_recv_def timer_ops_defs wire_defs c_consts unbcd_bcd get16_def)
next
  case (Set_Ext_Timer w e p a)
  then show ?thesis
    using assms(1) carries_opcode [OF assms(2)] carries_get [OF assms(2)]
    by (cases w) (simp add: timer_recv_def timer_ops_defs wire_defs c_consts unbcd_bcd get16_def)
qed (use carries_opcode [OF assms(2)] carries_get [OF assms(2)] in
  \<open>simp add: timer_recv_def timer_ops_defs wire_defs c_consts\<close>)

lemma timer_opcode: "w_opcode (timer_spec r c) \<in> set timer_opcodes"
  by (cases c) (simp_all add: timer_opcodes_def wire_defs)

lemma timer_recv_other:
  "cec_msg_opcode m = Some op \<Longrightarrow> op \<notin> uint ` set timer_opcodes \<Longrightarrow> timer_recv m = Some Unrecognised"
  by (simp add: timer_recv_def timer_opcodes_def)

interpretation timers: cec_feature timer_send timer_spec timer_recv timer_cmd_fits timer_cmd_heard
    timer_opcodes
  by unfold_locales (simp_all add: timer_refines timer_recv_safe timer_recv_wire timer_opcode timer_recv_other)

section \<open>Limits\<close>

text \<open>
  The times of an analogue timer travel in binary-coded decimal. A time
  component of the timer comes back unchanged exactly when it is below 160: every clock time does,
  and a larger value wraps in the high digit.
\<close>

theorem timer_times_exact:
  assumes "wf_msg m"
  shows "\<exists>x sh' sm' dh' dm'.
    cec_msg_set_analogue_timer m r day month sh sm dh dm q t f s = Some x \<and>
    cec_ops_set_analogue_timer x = Some (day, month, sh', sm', dh', dm', q, t, f, s) \<and>
    (sh' = sh \<longleftrightarrow> sh < 160) \<and> (sm' = sm \<longleftrightarrow> sm < 160) \<and> (dh' = dh \<longleftrightarrow> dh < 160) \<and> (dm' = dm \<longleftrightarrow> dm < 160)"
  using assms unfolding wf_msg_16
  by (auto simp: cec_msg_set_analogue_timer_def cec_ops_set_analogue_timer_def mem_defs unbcd_bcd_iff)

theorem timer_times_exact_witness:
  "\<exists>x sh' sm' dh' dm'.
    cec_msg_set_analogue_timer zero_msg 1 24 12 20 15 2 30 0 0 0 0 = Some x \<and>
    cec_ops_set_analogue_timer x = Some (24, 12, sh', sm', dh', dm', 0, 0, 0, 0) \<and>
    sh' = 20 \<and> sm' = 15 \<and> dh' = 2 \<and> dm' = 30"
  using timer_times_exact [of zero_msg 1 24 12 20 15 2 30 0 0 0 0]
  by (auto simp: wf_msg_def zero_msg_def)

end
