(* ===== verification/Cec_System.thy ===== *)
theory Cec_System
  imports Cec_Codec
begin

text \<open>
  System Information and Deck Control of \<open>sysincludes/linux/cec-funcs.h\<close>, including the scan of
  the variable-length feature lists in \<open>cec_ops_report_features\<close>.
\<close>

section \<open>Message functions\<close>

definition cec_msg_cec_version :: "cec_msg \<Rightarrow> u8 \<Rightarrow> cec_msg option" where
  "cec_msg_cec_version m cec_version = do {
     let m = m\<lparr>len := 3\<rparr>;
     m \<leftarrow> put m 1 CEC_MSG_CEC_VERSION;
     m \<leftarrow> put m 2 cec_version;
     Some m }"

definition cec_ops_cec_version :: "cec_msg \<Rightarrow> u8 option" where
  "cec_ops_cec_version m = get m 2"

definition cec_msg_get_cec_version :: "cec_msg \<Rightarrow> c_int \<Rightarrow> cec_msg option" where
  "cec_msg_get_cec_version m want_reply = do {
     let m = m\<lparr>len := 2\<rparr>;
     m \<leftarrow> put m 1 CEC_MSG_GET_CEC_VERSION;
     let m = m\<lparr>reply := (if want_reply \<noteq> 0 then CEC_MSG_CEC_VERSION else 0)\<rparr>;
     Some m }"

definition cec_msg_report_physical_addr :: "cec_msg \<Rightarrow> u16 \<Rightarrow> u8 \<Rightarrow> cec_msg option" where
  "cec_msg_report_physical_addr m phys_addr prim_devtype = do {
     let m = m\<lparr>len := 5\<rparr>;
     m \<leftarrow> or_byte m 0 0xf;
     m \<leftarrow> put m 1 CEC_MSG_REPORT_PHYSICAL_ADDR;
     m \<leftarrow> put m 2 (hi8 phys_addr);
     m \<leftarrow> put m 3 (lo8 phys_addr);
     m \<leftarrow> put m 4 prim_devtype;
     Some m }"

definition cec_ops_report_physical_addr :: "cec_msg \<Rightarrow> (u16 \<times> u8) option" where
  "cec_ops_report_physical_addr m = do {
     phys_addr \<leftarrow> get16 m 2;
     prim_devtype \<leftarrow> get m 4;
     Some (phys_addr, prim_devtype) }"

definition cec_msg_give_physical_addr :: "cec_msg \<Rightarrow> c_int \<Rightarrow> cec_msg option" where
  "cec_msg_give_physical_addr m want_reply = do {
     let m = m\<lparr>len := 2\<rparr>;
     m \<leftarrow> put m 1 CEC_MSG_GIVE_PHYSICAL_ADDR;
     let m = m\<lparr>reply := (if want_reply \<noteq> 0 then CEC_MSG_REPORT_PHYSICAL_ADDR else 0)\<rparr>;
     Some m }"

definition cec_msg_set_menu_language :: "cec_msg \<Rightarrow> u8 list \<Rightarrow> cec_msg option" where
  "cec_msg_set_menu_language m language = do {
     let m = m\<lparr>len := 5\<rparr>;
     m \<leftarrow> or_byte m 0 0xf;
     m \<leftarrow> put m 1 CEC_MSG_SET_MENU_LANGUAGE;
     put_bytes m 2 language 3 }"

definition cec_ops_set_menu_language :: "cec_msg \<Rightarrow> u8 list \<Rightarrow> u8 list option" where
  "cec_ops_set_menu_language m language = do {
     language \<leftarrow> memcpy language 0 (msg m) 2 3;
     buf_put language 3 0 }"

definition cec_msg_get_menu_language :: "cec_msg \<Rightarrow> c_int \<Rightarrow> cec_msg option" where
  "cec_msg_get_menu_language m want_reply = do {
     let m = m\<lparr>len := 2\<rparr>;
     m \<leftarrow> put m 1 CEC_MSG_GET_MENU_LANGUAGE;
     let m = m\<lparr>reply := (if want_reply \<noteq> 0 then CEC_MSG_SET_MENU_LANGUAGE else 0)\<rparr>;
     Some m }"

definition cec_msg_report_features :: "cec_msg \<Rightarrow> u8 \<Rightarrow> u8 \<Rightarrow> u8 \<Rightarrow> u8 \<Rightarrow> cec_msg option" where
  "cec_msg_report_features m cec_version all_device_types rc_profile dev_features = do {
     let m = m\<lparr>len := 6\<rparr>;
     m \<leftarrow> or_byte m 0 0xf;
     m \<leftarrow> put m 1 CEC_MSG_REPORT_FEATURES;
     m \<leftarrow> put m 2 cec_version;
     m \<leftarrow> put m 3 all_device_types;
     m \<leftarrow> put m 4 rc_profile;
     m \<leftarrow> put m 5 dev_features;
     Some m }"

text \<open>
  The pointers \<open>rc_profile\<close> and \<open>dev_features\<close> are positions in the payload, \<open>None\<close> is
  \<open>NULL\<close>. \<open>feat_scan\<close> is the loop \<open>while (p < &msg->msg[lim] && ( *p & CEC_OP_FEAT_EXT)) p++\<close>.
\<close>

function feat_scan :: "cec_msg \<Rightarrow> nat \<Rightarrow> nat \<Rightarrow> nat option" where
  "feat_scan m p lim =
     (if p < lim then
        (case get m p of None \<Rightarrow> None
         | Some b \<Rightarrow> if b AND CEC_OP_FEAT_EXT \<noteq> 0 then feat_scan m (p + 1) lim else Some p)
      else Some p)"
  by pat_completeness auto
termination
  by (relation "measure (\<lambda>(m, p, lim). lim - p)") auto

declare feat_scan.simps [simp del]

definition cec_ops_report_features ::
    "cec_msg \<Rightarrow> (u8 \<times> u8 \<times> nat option \<times> nat option) option" where
  "cec_ops_report_features m = do {
     cec_version \<leftarrow> get m 2;
     all_device_types \<leftarrow> get m 3;
     let rc_profile = Some 4;
     p \<leftarrow> feat_scan m 4 14;
     b \<leftarrow> get m p;
     (dev_features, p) \<leftarrow>
       (if b AND CEC_OP_FEAT_EXT = 0
        then map_option (\<lambda>q. (Some (p + 1), q)) (feat_scan m p 15)
        else Some (None, p));
     b \<leftarrow> get m p;
     if b AND CEC_OP_FEAT_EXT \<noteq> 0 then Some (cec_version, all_device_types, None, None)
     else Some (cec_version, all_device_types, rc_profile, dev_features) }"

definition cec_msg_give_features :: "cec_msg \<Rightarrow> c_int \<Rightarrow> cec_msg option" where
  "cec_msg_give_features m want_reply = do {
     let m = m\<lparr>len := 2\<rparr>;
     m \<leftarrow> put m 1 CEC_MSG_GIVE_FEATURES;
     let m = m\<lparr>reply := (if want_reply \<noteq> 0 then CEC_MSG_REPORT_FEATURES else 0)\<rparr>;
     Some m }"

definition cec_msg_deck_control :: "cec_msg \<Rightarrow> u8 \<Rightarrow> cec_msg option" where
  "cec_msg_deck_control m deck_control_mode = do {
     let m = m\<lparr>len := 3\<rparr>;
     m \<leftarrow> put m 1 CEC_MSG_DECK_CONTROL;
     m \<leftarrow> put m 2 deck_control_mode;
     Some m }"

definition cec_ops_deck_control :: "cec_msg \<Rightarrow> u8 option" where
  "cec_ops_deck_control m = get m 2"

definition cec_msg_deck_status :: "cec_msg \<Rightarrow> u8 \<Rightarrow> cec_msg option" where
  "cec_msg_deck_status m deck_info = do {
     let m = m\<lparr>len := 3\<rparr>;
     m \<leftarrow> put m 1 CEC_MSG_DECK_STATUS;
     m \<leftarrow> put m 2 deck_info;
     Some m }"

definition cec_ops_deck_status :: "cec_msg \<Rightarrow> u8 option" where
  "cec_ops_deck_status m = get m 2"

definition cec_msg_give_deck_status :: "cec_msg \<Rightarrow> c_int \<Rightarrow> u8 \<Rightarrow> cec_msg option" where
  "cec_msg_give_deck_status m want_reply status_req = do {
     let m = m\<lparr>len := 3\<rparr>;
     m \<leftarrow> put m 1 CEC_MSG_GIVE_DECK_STATUS;
     m \<leftarrow> put m 2 status_req;
     let m = m\<lparr>reply := (if want_reply \<noteq> 0 then CEC_MSG_DECK_STATUS else 0)\<rparr>;
     Some m }"

definition cec_ops_give_deck_status :: "cec_msg \<Rightarrow> u8 option" where
  "cec_ops_give_deck_status m = get m 2"

definition cec_msg_play :: "cec_msg \<Rightarrow> u8 \<Rightarrow> cec_msg option" where
  "cec_msg_play m play_mode = do {
     let m = m\<lparr>len := 3\<rparr>;
     m \<leftarrow> put m 1 CEC_MSG_PLAY;
     m \<leftarrow> put m 2 play_mode;
     Some m }"

definition cec_ops_play :: "cec_msg \<Rightarrow> u8 option" where
  "cec_ops_play m = get m 2"

lemmas system_msg_defs =
  cec_msg_cec_version_def cec_msg_get_cec_version_def cec_msg_report_physical_addr_def
  cec_msg_give_physical_addr_def cec_msg_set_menu_language_def cec_msg_get_menu_language_def
  cec_msg_report_features_def cec_msg_give_features_def cec_msg_deck_control_def
  cec_msg_deck_status_def cec_msg_give_deck_status_def cec_msg_play_def

lemmas system_ops_defs =
  cec_ops_cec_version_def cec_ops_report_physical_addr_def cec_ops_set_menu_language_def
  cec_ops_deck_control_def cec_ops_deck_status_def cec_ops_give_deck_status_def cec_ops_play_def

section \<open>The scan of feature bytes\<close>

definition extended :: "cec_msg \<Rightarrow> nat \<Rightarrow> bool" where
  "extended m i \<longleftrightarrow> msg m ! i AND CEC_OP_FEAT_EXT \<noteq> 0"

lemma feat_scan_finds:
  assumes "wf_msg m" and "p \<le> lim" and "lim < 16"
  shows "\<exists>q. feat_scan m p lim = Some q \<and> p \<le> q \<and> q \<le> lim \<and>
    (\<forall>i. p \<le> i \<and> i < q \<longrightarrow> extended m i) \<and> (q < lim \<longrightarrow> \<not> extended m q)"
  using assms
proof (induction m p lim rule: feat_scan.induct)
  case (1 m p lim)
  show ?case
  proof (cases "p < lim \<and> extended m p")
    case True
    then have g: "get m p = Some (msg m ! p)" and e: "msg m ! p AND CEC_OP_FEAT_EXT \<noteq> 0"
      using "1.prems" by (simp_all add: get_total extended_def)
    have "\<exists>q. feat_scan m (p + 1) lim = Some q \<and> p + 1 \<le> q \<and> q \<le> lim \<and>
        (\<forall>i. p + 1 \<le> i \<and> i < q \<longrightarrow> extended m i) \<and> (q < lim \<longrightarrow> \<not> extended m q)"
      by (rule "1.IH" [OF _ g e]) (use True "1.prems" in auto)
    then obtain q where q: "feat_scan m (p + 1) lim = Some q" "p + 1 \<le> q" "q \<le> lim"
        "\<forall>i. p + 1 \<le> i \<and> i < q \<longrightarrow> extended m i" "q < lim \<longrightarrow> \<not> extended m q"
      by blast
    have "feat_scan m p lim = Some q"
      using q(1) True g e by (simp add: feat_scan.simps [of m p])
    moreover have "extended m i" if "p \<le> i" "i < q" for i
      using q(4) True that by (cases "i = p") auto
    ultimately show ?thesis
      using q by auto
  next
    case False
    then have "feat_scan m p lim = Some p"
      using "1.prems" by (auto simp: feat_scan.simps [of m p] get_total extended_def)
    then show ?thesis
      using False "1.prems" by auto
  qed
qed

lemma feat_scan_stays:
  assumes "wf_msg m" and "p < 16" and "\<not> extended m p"
  shows "feat_scan m p lim = Some p"
  using assms by (simp add: feat_scan.simps [of m p] get_total extended_def)

text \<open>
  What the function returns, for every payload: the first byte from 4 on without the extension
  bit ends the RC profile; if there is none up to 14, both pointers are \<open>NULL\<close>.
\<close>

lemma report_features_value:
  assumes "wf_msg m"
  shows "(\<exists>q. 4 \<le> q \<and> q \<le> 14 \<and> (\<forall>i. 4 \<le> i \<and> i < q \<longrightarrow> extended m i) \<and> \<not> extended m q \<and>
      cec_ops_report_features m = Some (msg m ! 2, msg m ! 3, Some 4, Some (q + 1))) \<or>
    ((\<forall>i. 4 \<le> i \<and> i \<le> 14 \<longrightarrow> extended m i) \<and>
      cec_ops_report_features m = Some (msg m ! 2, msg m ! 3, None, None))"
proof -
  obtain q where q: "feat_scan m 4 14 = Some q" "4 \<le> q" "q \<le> 14"
      "\<forall>i. 4 \<le> i \<and> i < q \<longrightarrow> extended m i" "q < 14 \<longrightarrow> \<not> extended m q"
    using feat_scan_finds [OF assms, of 4 14] by auto
  have g: "get m q = Some (msg m ! q)"
    using assms q(3) by (simp add: get_total)
  show ?thesis
  proof (cases "extended m q")
    case True
    then have "q = 14" using q(3,5) by auto
    then have "\<forall>i. 4 \<le> i \<and> i \<le> 14 \<longrightarrow> extended m i"
      using q(4) True by (auto simp: le_less)
    moreover have "cec_ops_report_features m = Some (msg m ! 2, msg m ! 3, None, None)"
      using True q(1) g assms by (simp add: cec_ops_report_features_def get_total extended_def)
    ultimately show ?thesis by blast
  next
    case False
    then have "feat_scan m q 15 = Some q"
      using feat_scan_stays [OF assms] q(3) by simp
    then have "cec_ops_report_features m = Some (msg m ! 2, msg m ! 3, Some 4, Some (q + 1))"
      using False q(1) g assms by (simp add: cec_ops_report_features_def get_total extended_def)
    then show ?thesis using q False by blast
  qed
qed

section \<open>Commands\<close>

datatype system_cmd =
    Cec_Version u8
  | Get_Cec_Version
  | Report_Physical_Addr u16 u8
  | Give_Physical_Addr
  | Set_Menu_Language u8 u8 u8
  | Get_Menu_Language
  | Report_Features u8 u8 u8 u8
  | Give_Features
  | Deck_Control u8
  | Deck_Status u8
  | Give_Deck_Status u8
  | Play u8

fun system_send :: "cec_msg \<Rightarrow> c_int \<Rightarrow> system_cmd \<Rightarrow> cec_msg option" where
  "system_send m r (Cec_Version v) = cec_msg_cec_version m v"
| "system_send m r Get_Cec_Version = cec_msg_get_cec_version m r"
| "system_send m r (Report_Physical_Addr p t) = cec_msg_report_physical_addr m p t"
| "system_send m r Give_Physical_Addr = cec_msg_give_physical_addr m r"
| "system_send m r (Set_Menu_Language a b c) = cec_msg_set_menu_language m [a, b, c, 0]"
| "system_send m r Get_Menu_Language = cec_msg_get_menu_language m r"
| "system_send m r (Report_Features v t p f) = cec_msg_report_features m v t p f"
| "system_send m r Give_Features = cec_msg_give_features m r"
| "system_send m r (Deck_Control k) = cec_msg_deck_control m k"
| "system_send m r (Deck_Status i) = cec_msg_deck_status m i"
| "system_send m r (Give_Deck_Status q) = cec_msg_give_deck_status m r q"
| "system_send m r (Play k) = cec_msg_play m k"

fun system_spec :: "c_int \<Rightarrow> system_cmd \<Rightarrow> wire" where
  "system_spec r (Cec_Version v) = tell CEC_MSG_CEC_VERSION [v]"
| "system_spec r Get_Cec_Version = awaiting r CEC_MSG_CEC_VERSION (tell CEC_MSG_GET_CEC_VERSION [])"
| "system_spec r (Report_Physical_Addr p t) =
     announce CEC_MSG_REPORT_PHYSICAL_ADDR [hi8 p, lo8 p, t]"
| "system_spec r Give_Physical_Addr =
     awaiting r CEC_MSG_REPORT_PHYSICAL_ADDR (tell CEC_MSG_GIVE_PHYSICAL_ADDR [])"
| "system_spec r (Set_Menu_Language a b c) = announce CEC_MSG_SET_MENU_LANGUAGE [a, b, c]"
| "system_spec r Get_Menu_Language =
     awaiting r CEC_MSG_SET_MENU_LANGUAGE (tell CEC_MSG_GET_MENU_LANGUAGE [])"
| "system_spec r (Report_Features v t p f) = announce CEC_MSG_REPORT_FEATURES [v, t, p, f]"
| "system_spec r Give_Features = awaiting r CEC_MSG_REPORT_FEATURES (tell CEC_MSG_GIVE_FEATURES [])"
| "system_spec r (Deck_Control k) = tell CEC_MSG_DECK_CONTROL [k]"
| "system_spec r (Deck_Status i) = tell CEC_MSG_DECK_STATUS [i]"
| "system_spec r (Give_Deck_Status q) =
     awaiting r CEC_MSG_DECK_STATUS (tell CEC_MSG_GIVE_DECK_STATUS [q])"
| "system_spec r (Play k) = tell CEC_MSG_PLAY [k]"

text \<open>
  A receiver of the feature report reads the first byte of each list through the returned
  pointers.
\<close>

definition features_recv :: "cec_msg \<Rightarrow> system_cmd received option" where
  "features_recv m = do {
     (v, t, rc, df) \<leftarrow> cec_ops_report_features m;
     case (rc, df) of
       (Some i, Some j) \<Rightarrow> do {
         p \<leftarrow> get m i;
         f \<leftarrow> get m j;
         Some (Recognised (Report_Features v t p f)) }
     | _ \<Rightarrow> Some Unrecognised }"

definition language_view :: "u8 list \<Rightarrow> system_cmd received" where
  "language_view l = Recognised (Set_Menu_Language (l ! 0) (l ! 1) (l ! 2))"

definition system_recv :: "cec_msg \<Rightarrow> system_cmd received option" where
  "system_recv m = do {
     op \<leftarrow> cec_msg_opcode m;
     if op = uint CEC_MSG_CEC_VERSION then
       map_option (Recognised \<circ> Cec_Version) (cec_ops_cec_version m)
     else if op = uint CEC_MSG_GET_CEC_VERSION then Some (Recognised Get_Cec_Version)
     else if op = uint CEC_MSG_REPORT_PHYSICAL_ADDR then
       map_option (\<lambda>(p, t). Recognised (Report_Physical_Addr p t)) (cec_ops_report_physical_addr m)
     else if op = uint CEC_MSG_GIVE_PHYSICAL_ADDR then Some (Recognised Give_Physical_Addr)
     else if op = uint CEC_MSG_SET_MENU_LANGUAGE then
       map_option language_view (cec_ops_set_menu_language m (replicate 4 0))
     else if op = uint CEC_MSG_GET_MENU_LANGUAGE then Some (Recognised Get_Menu_Language)
     else if op = uint CEC_MSG_REPORT_FEATURES then features_recv m
     else if op = uint CEC_MSG_GIVE_FEATURES then Some (Recognised Give_Features)
     else if op = uint CEC_MSG_DECK_CONTROL then
       map_option (Recognised \<circ> Deck_Control) (cec_ops_deck_control m)
     else if op = uint CEC_MSG_DECK_STATUS then
       map_option (Recognised \<circ> Deck_Status) (cec_ops_deck_status m)
     else if op = uint CEC_MSG_GIVE_DECK_STATUS then
       map_option (Recognised \<circ> Give_Deck_Status) (cec_ops_give_deck_status m)
     else if op = uint CEC_MSG_PLAY then map_option (Recognised \<circ> Play) (cec_ops_play m)
     else Some Unrecognised }"

definition system_opcodes :: "u8 list" where
  "system_opcodes =
     [CEC_MSG_CEC_VERSION, CEC_MSG_GET_CEC_VERSION, CEC_MSG_REPORT_PHYSICAL_ADDR,
      CEC_MSG_GIVE_PHYSICAL_ADDR, CEC_MSG_SET_MENU_LANGUAGE, CEC_MSG_GET_MENU_LANGUAGE,
      CEC_MSG_REPORT_FEATURES, CEC_MSG_GIVE_FEATURES, CEC_MSG_DECK_CONTROL,
      CEC_MSG_DECK_STATUS, CEC_MSG_GIVE_DECK_STATUS, CEC_MSG_PLAY]"

text \<open>A feature report with an RC profile of one byte.\<close>

fun system_fits :: "system_cmd \<Rightarrow> bool" where
  "system_fits (Report_Features v t p f) = (p AND CEC_OP_FEAT_EXT = 0)"
| "system_fits _ = True"

section \<open>The contract holds\<close>

lemma system_refines:
  assumes "wf_msg m"
  shows "\<exists>x. system_send m r c = Some x \<and> implements m (system_spec r c) x"
  using assms unfolding wf_msg_16
  by (cases c) (auto simp: system_msg_defs refines_simps put_bytes_def memcpy_def)

lemma features_recv_safe:
  assumes "wf_msg m"
  shows "\<exists>p. features_recv m = Some p"
  using report_features_value [OF assms] assms by (auto simp: features_recv_def get_total)

lemma system_recv_safe:
  assumes "wf_msg m"
  shows "\<exists>p. system_recv m = Some p"
proof -
  have "length (msg m) = 16"
    using assms by (simp add: wf_msg_def CEC_MAX_MSG_SIZE_def)
  then show ?thesis
    unfolding system_recv_def
    using features_recv_safe [OF assms]
    by (intro opcode_bind_safe)
      (simp_all add: assms system_ops_defs c_mem memcpy_def buf_put_def)
qed

lemma features_recv_wire:
  assumes "p AND CEC_OP_FEAT_EXT = 0" and "carries y (h # op # [v, t, p, f])"
  shows "features_recv y = Some (Recognised (Report_Features v t p f))"
proof -
  have "get y 4 = Some p"
    using carries_get [OF assms(2), of 4] by simp
  then have "feat_scan y 4 lim = Some 4" for lim
    using assms(1) by (simp add: feat_scan.simps [of y 4])
  then show ?thesis
    using carries_get [OF assms(2)] assms(1)
    by (simp add: features_recv_def cec_ops_report_features_def)
qed

lemma language_recv_wire:
  assumes "carries y (h # op # [a, b, c])"
  shows "map_option language_view (cec_ops_set_menu_language y (replicate 4 0)) =
    Some (Recognised (Set_Menu_Language a b c))"
proof -
  have l: "length (msg y) = 16" and t: "take 5 (msg y) = [h, op, a, b, c]"
    using assms by (simp_all add: carries_def wf_msg_def CEC_MAX_MSG_SIZE_def numeral_eq_Suc)
  have "take 3 (drop 2 (msg y)) = drop 2 (take 5 (msg y))"
    by (simp add: take_drop)
  then have "memcpy (replicate 4 0) 0 (msg y) 2 3 = Some [a, b, c, 0]"
    using l t by (simp add: memcpy_def numeral_eq_Suc)
  then show ?thesis
    by (simp add: cec_ops_set_menu_language_def buf_put_def language_view_def)
qed

lemma system_recv_wire:
  assumes "system_fits c"
    and "carries y (h # w_opcode (system_spec r c) # w_operands (system_spec r c))"
  shows "system_recv y = Some (Recognised c)"
proof (cases c)
  case (Report_Features v t p f)
  then show ?thesis
    using assms features_recv_wire [of p y h CEC_MSG_REPORT_FEATURES v t f]
      carries_opcode [OF assms(2)]
    by (simp add: system_recv_def wire_defs c_consts)
next
  case (Set_Menu_Language a b d)
  then show ?thesis
    using language_recv_wire [of y h CEC_MSG_SET_MENU_LANGUAGE a b d] assms(2)
      carries_opcode [OF assms(2)]
    by (simp add: system_recv_def wire_defs c_consts)
qed (use carries_opcode [OF assms(2)] carries_get [OF assms(2)] in
  \<open>simp_all add: system_recv_def system_ops_defs wire_defs c_consts get16_def\<close>)

lemma system_opcode: "w_opcode (system_spec r c) \<in> set system_opcodes"
  by (cases c) (simp_all add: system_opcodes_def wire_defs)

lemma system_recv_other:
  "cec_msg_opcode m = Some op \<Longrightarrow> op \<notin> uint ` set system_opcodes \<Longrightarrow> system_recv m = Some Unrecognised"
  by (simp add: system_recv_def system_opcodes_def)

interpretation system: cec_feature system_send system_spec system_recv system_fits "\<lambda>c. c" system_opcodes
  by unfold_locales (simp_all add: system_refines system_recv_safe system_recv_wire system_opcode system_recv_other)

text \<open>
  C28. Once the RC profile ends, at the first byte from 4 on without the
  extension bit, the feature report is accepted and the device features start right behind it,
  whatever follows: the bytes of the device features are not looked at, even if their extension
  bits run past the end of the payload.
\<close>

theorem report_features_pointers:
  assumes "wf_msg m" and "4 \<le> q" and "q \<le> 14" and "\<forall>i. 4 \<le> i \<and> i < q \<longrightarrow> extended m i"
    and "\<not> extended m q"
  shows "cec_ops_report_features m = Some (msg m ! 2, msg m ! 3, Some 4, Some (q + 1))"
proof -
  have "q' = q" if "4 \<le> q'" "\<forall>i. 4 \<le> i \<and> i < q' \<longrightarrow> extended m i" "\<not> extended m q'" for q'
    using that assms(2,4,5) by (metis linorder_neqE_nat)
  then show ?thesis
    using report_features_value [OF assms(1)] assms(2,3,5) by blast
qed

theorem report_features_pointers_witness:
  "cec_ops_report_features (zero_msg\<lparr>len := 16, msg := [0, 0, 6, 7, 0x40] @ replicate 11 0xff\<rparr>) =
    Some (6, 7, Some 4, Some 5)"
  using report_features_pointers [of "zero_msg\<lparr>len := 16, msg := [0, 0, 6, 7, 0x40] @ replicate 11 0xff\<rparr>" 4]
  by (simp add: wf_msg_def CEC_MAX_MSG_SIZE_def extended_def CEC_OP_FEAT_EXT_def)

end
