(* ===== verification/Cec_Tuner.thy ===== *)
theory Cec_Tuner
  imports Cec_Record
begin

text \<open>
  Tuner Control of \<open>sysincludes/linux/cec-funcs.h\<close>: tuner status, service selection, stepping.
\<close>

section \<open>Message functions\<close>

text \<open>\<open>struct cec_op_tuner_device_info\<close>, the members of its union as separate fields.\<close>

record cec_op_tuner_device_info =
  ti_rec_flag :: u8
  ti_tuner_display_info :: u8
  ti_is_analog :: u8
  ti_digital :: cec_op_digital_service_id
  ti_ana_bcast_type :: u8
  ti_ana_freq :: u16
  ti_bcast_system :: u8

definition cec_msg_tuner_device_status_analog ::
    "cec_msg \<Rightarrow> u8 \<Rightarrow> u8 \<Rightarrow> u8 \<Rightarrow> u16 \<Rightarrow> u8 \<Rightarrow> cec_msg option" where
  "cec_msg_tuner_device_status_analog m rec_flag tuner_display_info ana_bcast_type ana_freq
     bcast_system = do {
     let m = m\<lparr>len := 7\<rparr>;
     m \<leftarrow> put m 1 CEC_MSG_TUNER_DEVICE_STATUS;
     m \<leftarrow> put m 2 (push_bit 7 rec_flag OR tuner_display_info);
     m \<leftarrow> put m 3 ana_bcast_type;
     m \<leftarrow> put m 4 (hi8 ana_freq);
     m \<leftarrow> put m 5 (lo8 ana_freq);
     m \<leftarrow> put m 6 bcast_system;
     Some m }"

definition cec_msg_tuner_device_status_digital ::
    "cec_msg \<Rightarrow> u8 \<Rightarrow> u8 \<Rightarrow> cec_op_digital_service_id \<Rightarrow> cec_msg option" where
  "cec_msg_tuner_device_status_digital m rec_flag tuner_display_info digital = do {
     let m = m\<lparr>len := 10\<rparr>;
     m \<leftarrow> put m 1 CEC_MSG_TUNER_DEVICE_STATUS;
     m \<leftarrow> put m 2 (push_bit 7 rec_flag OR tuner_display_info);
     cec_set_digital_service_id m 3 digital }"

definition cec_msg_tuner_device_status ::
    "cec_msg \<Rightarrow> cec_op_tuner_device_info \<Rightarrow> cec_msg option" where
  "cec_msg_tuner_device_status m info =
     (if ti_is_analog info \<noteq> 0 then
        cec_msg_tuner_device_status_analog m (ti_rec_flag info) (ti_tuner_display_info info)
          (ti_ana_bcast_type info) (ti_ana_freq info) (ti_bcast_system info)
      else
        cec_msg_tuner_device_status_digital m (ti_rec_flag info) (ti_tuner_display_info info)
          (ti_digital info))"

definition cec_ops_tuner_device_status ::
    "cec_msg \<Rightarrow> cec_op_tuner_device_info \<Rightarrow> cec_op_tuner_device_info option" where
  "cec_ops_tuner_device_status m info = do {
     let info = info\<lparr>ti_is_analog := (if len m < 10 then 1 else 0)\<rparr>;
     b \<leftarrow> get m 2;
     let info = info\<lparr>ti_rec_flag := drop_bit 7 b\<rparr>;
     let info = info\<lparr>ti_tuner_display_info := b AND 0x7f\<rparr>;
     if ti_is_analog info \<noteq> 0 then do {
       t \<leftarrow> get m 3;
       f \<leftarrow> get16 m 4;
       s \<leftarrow> get m 6;
       Some (info\<lparr>ti_ana_bcast_type := t, ti_ana_freq := f, ti_bcast_system := s\<rparr>) }
     else do {
       d \<leftarrow> cec_get_digital_service_id m 3 (ti_digital info);
       Some (info\<lparr>ti_digital := d\<rparr>) } }"

definition cec_msg_give_tuner_device_status :: "cec_msg \<Rightarrow> c_int \<Rightarrow> u8 \<Rightarrow> cec_msg option" where
  "cec_msg_give_tuner_device_status m want_reply status_req = do {
     let m = m\<lparr>len := 3\<rparr>;
     m \<leftarrow> put m 1 CEC_MSG_GIVE_TUNER_DEVICE_STATUS;
     m \<leftarrow> put m 2 status_req;
     let m = m\<lparr>reply := (if want_reply \<noteq> 0 then CEC_MSG_TUNER_DEVICE_STATUS else 0)\<rparr>;
     Some m }"

definition cec_ops_give_tuner_device_status :: "cec_msg \<Rightarrow> u8 option" where
  "cec_ops_give_tuner_device_status m = get m 2"

definition cec_msg_select_analogue_service :: "cec_msg \<Rightarrow> u8 \<Rightarrow> u16 \<Rightarrow> u8 \<Rightarrow> cec_msg option" where
  "cec_msg_select_analogue_service m ana_bcast_type ana_freq bcast_system = do {
     let m = m\<lparr>len := 6\<rparr>;
     m \<leftarrow> put m 1 CEC_MSG_SELECT_ANALOGUE_SERVICE;
     m \<leftarrow> put m 2 ana_bcast_type;
     m \<leftarrow> put m 3 (hi8 ana_freq);
     m \<leftarrow> put m 4 (lo8 ana_freq);
     m \<leftarrow> put m 5 bcast_system;
     Some m }"

definition cec_ops_select_analogue_service :: "cec_msg \<Rightarrow> (u8 \<times> u16 \<times> u8) option" where
  "cec_ops_select_analogue_service m = do {
     ana_bcast_type \<leftarrow> get m 2;
     ana_freq \<leftarrow> get16 m 3;
     bcast_system \<leftarrow> get m 5;
     Some (ana_bcast_type, ana_freq, bcast_system) }"

definition cec_msg_select_digital_service ::
    "cec_msg \<Rightarrow> cec_op_digital_service_id \<Rightarrow> cec_msg option" where
  "cec_msg_select_digital_service m digital = do {
     let m = m\<lparr>len := 9\<rparr>;
     m \<leftarrow> put m 1 CEC_MSG_SELECT_DIGITAL_SERVICE;
     cec_set_digital_service_id m 2 digital }"

definition cec_ops_select_digital_service ::
    "cec_msg \<Rightarrow> cec_op_digital_service_id \<Rightarrow> cec_op_digital_service_id option" where
  "cec_ops_select_digital_service m digital = cec_get_digital_service_id m 2 digital"

definition cec_msg_tuner_step_decrement :: "cec_msg \<Rightarrow> cec_msg option" where
  "cec_msg_tuner_step_decrement m = do {
     let m = m\<lparr>len := 2\<rparr>;
     m \<leftarrow> put m 1 CEC_MSG_TUNER_STEP_DECREMENT;
     Some m }"

definition cec_msg_tuner_step_increment :: "cec_msg \<Rightarrow> cec_msg option" where
  "cec_msg_tuner_step_increment m = do {
     let m = m\<lparr>len := 2\<rparr>;
     m \<leftarrow> put m 1 CEC_MSG_TUNER_STEP_INCREMENT;
     Some m }"

lemmas tuner_msg_defs =
  cec_msg_tuner_device_status_analog_def cec_msg_tuner_device_status_digital_def
  cec_msg_tuner_device_status_def cec_msg_give_tuner_device_status_def
  cec_msg_select_analogue_service_def cec_msg_select_digital_service_def
  cec_msg_tuner_step_decrement_def cec_msg_tuner_step_increment_def

lemmas tuner_ops_defs =
  cec_ops_tuner_device_status_def cec_ops_give_tuner_device_status_def
  cec_ops_select_analogue_service_def cec_ops_select_digital_service_def

section \<open>Commands\<close>

datatype tuned = Tuned_Digital digital_service | Tuned_Analog u8 u16 u8

datatype tuner_cmd =
    Tuner_Device_Status u8 u8 tuned
  | Give_Tuner_Device_Status u8
  | Select_Analogue_Service u8 u16 u8
  | Select_Digital_Service digital_service
  | Tuner_Step_Decrement
  | Tuner_Step_Increment

definition no_info :: cec_op_tuner_device_info where
  "no_info = \<lparr>ti_rec_flag = 0, ti_tuner_display_info = 0, ti_is_analog = 0,
     ti_digital = no_digital, ti_ana_bcast_type = 0, ti_ana_freq = 0, ti_bcast_system = 0\<rparr>"

fun info_of :: "u8 \<Rightarrow> u8 \<Rightarrow> tuned \<Rightarrow> cec_op_tuner_device_info" where
  "info_of f d (Tuned_Digital g) = no_info\<lparr>ti_rec_flag := f, ti_tuner_display_info := d,
     ti_digital := digital_of g\<rparr>"
| "info_of f d (Tuned_Analog t q s) = no_info\<lparr>ti_rec_flag := f, ti_tuner_display_info := d,
     ti_is_analog := 1, ti_ana_bcast_type := t, ti_ana_freq := q, ti_bcast_system := s\<rparr>"

definition info_view :: "cec_op_tuner_device_info \<Rightarrow> tuner_cmd" where
  "info_view i = Tuner_Device_Status (ti_rec_flag i) (ti_tuner_display_info i)
     (if ti_is_analog i \<noteq> 0
      then Tuned_Analog (ti_ana_bcast_type i) (ti_ana_freq i) (ti_bcast_system i)
      else Tuned_Digital (digital_view (ti_digital i)))"

fun tuned_bytes :: "tuned \<Rightarrow> u8 list" where
  "tuned_bytes (Tuned_Digital g) = digital_bytes g"
| "tuned_bytes (Tuned_Analog t q s) = [t, hi8 q, lo8 q, s]"

fun tuner_send :: "cec_msg \<Rightarrow> c_int \<Rightarrow> tuner_cmd \<Rightarrow> cec_msg option" where
  "tuner_send m r (Tuner_Device_Status f d t) = cec_msg_tuner_device_status m (info_of f d t)"
| "tuner_send m r (Give_Tuner_Device_Status q) = cec_msg_give_tuner_device_status m r q"
| "tuner_send m r (Select_Analogue_Service t q s) = cec_msg_select_analogue_service m t q s"
| "tuner_send m r (Select_Digital_Service g) = cec_msg_select_digital_service m (digital_of g)"
| "tuner_send m r Tuner_Step_Decrement = cec_msg_tuner_step_decrement m"
| "tuner_send m r Tuner_Step_Increment = cec_msg_tuner_step_increment m"

fun tuner_spec :: "c_int \<Rightarrow> tuner_cmd \<Rightarrow> wire" where
  "tuner_spec r (Tuner_Device_Status f d t) =
     tell CEC_MSG_TUNER_DEVICE_STATUS ((push_bit 7 f OR d) # tuned_bytes t)"
| "tuner_spec r (Give_Tuner_Device_Status q) =
     awaiting r CEC_MSG_TUNER_DEVICE_STATUS (tell CEC_MSG_GIVE_TUNER_DEVICE_STATUS [q])"
| "tuner_spec r (Select_Analogue_Service t q s) =
     tell CEC_MSG_SELECT_ANALOGUE_SERVICE [t, hi8 q, lo8 q, s]"
| "tuner_spec r (Select_Digital_Service g) = tell CEC_MSG_SELECT_DIGITAL_SERVICE (digital_bytes g)"
| "tuner_spec r Tuner_Step_Decrement = tell CEC_MSG_TUNER_STEP_DECREMENT []"
| "tuner_spec r Tuner_Step_Increment = tell CEC_MSG_TUNER_STEP_INCREMENT []"

definition tuner_recv :: "cec_msg \<Rightarrow> tuner_cmd received option" where
  "tuner_recv m = do {
     op \<leftarrow> cec_msg_opcode m;
     if op = uint CEC_MSG_TUNER_DEVICE_STATUS then
       map_option (Recognised \<circ> info_view) (cec_ops_tuner_device_status m no_info)
     else if op = uint CEC_MSG_GIVE_TUNER_DEVICE_STATUS then
       map_option (Recognised \<circ> Give_Tuner_Device_Status) (cec_ops_give_tuner_device_status m)
     else if op = uint CEC_MSG_SELECT_ANALOGUE_SERVICE then
       map_option (\<lambda>(t, q, s). Recognised (Select_Analogue_Service t q s))
         (cec_ops_select_analogue_service m)
     else if op = uint CEC_MSG_SELECT_DIGITAL_SERVICE then
       map_option (\<lambda>g. Recognised (Select_Digital_Service (digital_view g)))
         (cec_ops_select_digital_service m no_digital)
     else if op = uint CEC_MSG_TUNER_STEP_DECREMENT then Some (Recognised Tuner_Step_Decrement)
     else if op = uint CEC_MSG_TUNER_STEP_INCREMENT then Some (Recognised Tuner_Step_Increment)
     else Some Unrecognised }"

definition tuner_opcodes :: "u8 list" where
  "tuner_opcodes =
     [CEC_MSG_TUNER_DEVICE_STATUS, CEC_MSG_GIVE_TUNER_DEVICE_STATUS,
      CEC_MSG_SELECT_ANALOGUE_SERVICE, CEC_MSG_SELECT_DIGITAL_SERVICE,
      CEC_MSG_TUNER_STEP_DECREMENT, CEC_MSG_TUNER_STEP_INCREMENT]"

fun tuned_fits :: "tuned \<Rightarrow> bool" where
  "tuned_fits (Tuned_Digital g) = digital_fits g"
| "tuned_fits (Tuned_Analog t q s) = True"

fun tuner_fits :: "tuner_cmd \<Rightarrow> bool" where
  "tuner_fits (Tuner_Device_Status f d t) = (f < 2 \<and> d < 0x80 \<and> tuned_fits t)"
| "tuner_fits (Select_Digital_Service g) = digital_fits g"
| "tuner_fits _ = True"

fun tuner_heard :: "tuner_cmd \<Rightarrow> tuner_cmd" where
  "tuner_heard (Tuner_Device_Status f d (Tuned_Digital g)) =
     Tuner_Device_Status f d (Tuned_Digital (digital_heard g))"
| "tuner_heard (Select_Digital_Service g) = Select_Digital_Service (digital_heard g)"
| "tuner_heard c = c"

fun tuner_garbled :: "tuner_cmd \<Rightarrow> bool" where
  "tuner_garbled (Tuner_Device_Status f d (Tuned_Digital g)) = digital_garbled g"
| "tuner_garbled (Select_Digital_Service g) = digital_garbled g"
| "tuner_garbled _ = False"

lemma tuner_heard_exact: "tuner_fits c \<Longrightarrow> tuner_heard c = c \<longleftrightarrow> \<not> tuner_garbled c"
  by (induction c rule: tuner_heard.induct) (simp_all add: digital_heard_exact)

section \<open>The contract holds\<close>

lemma tuner_refines:
  assumes "wf_msg m"
  shows "\<exists>x. tuner_send m r c = Some x \<and> implements m (tuner_spec r c) x"
proof (cases c)
  case (Tuner_Device_Status f d t)
  then show ?thesis
  proof (cases t)
    case (Tuned_Digital g)
    then show ?thesis
      using Tuner_Device_Status assms set_digital_bytes [of _ 3 g] digital_bytes_list [of g]
      unfolding wf_msg_16
      by (auto simp: tuner_msg_defs refines_simps no_info_def)
  next
    case (Tuned_Analog a q s)
    then show ?thesis
      using Tuner_Device_Status assms unfolding wf_msg_16
      by (auto simp: tuner_msg_defs refines_simps no_info_def)
  qed
next
  case (Select_Digital_Service g)
  then show ?thesis
    using assms set_digital_bytes [of _ 2 g] digital_bytes_list [of g] unfolding wf_msg_16
    by (auto simp: tuner_msg_defs refines_simps)
qed (use assms in \<open>auto simp: wf_msg_16 tuner_msg_defs refines_simps\<close>)

lemma tuner_recv_safe:
  assumes "wf_msg m"
  shows "\<exists>p. tuner_recv m = Some p"
proof -
  obtain g where "cec_get_digital_service_id m 2 no_digital = Some g"
    using get_digital_safe [OF assms, of 2] by auto
  moreover obtain e where "cec_get_digital_service_id m 3 (ti_digital no_info) = Some e"
    using get_digital_safe [OF assms, of 3] by auto
  ultimately show ?thesis
    unfolding tuner_recv_def
    by (intro opcode_bind_safe) (simp_all add: assms tuner_ops_defs c_mem Let_def)
qed

lemma tuner_status_wire:
  assumes "tuner_fits (Tuner_Device_Status f d t)"
    and "carries y (h # op # (push_bit 7 f OR d) # tuned_bytes t)"
  shows "\<exists>i. cec_ops_tuner_device_status y z = Some i \<and> 
    info_view i = tuner_heard (Tuner_Device_Status f d t)"
proof (cases t)
  case (Tuned_Digital g)
  have "get y (3 + i) = Some (digital_bytes g ! i)" if "i < 7" for i
    using carries_get [OF assms(2), of "3 + i"] that Tuned_Digital by simp
  then obtain e where "cec_get_digital_service_id y 3 (ti_digital z) = Some e"
    and "digital_view e = digital_heard g"
    using get_digital_bytes [of g y 3 "ti_digital z"] assms(1) Tuned_Digital by auto
  then show ?thesis
    using carries_get [OF assms(2), of 2] carries_len [OF assms(2)] assms(1) Tuned_Digital
    by (simp add: cec_ops_tuner_device_status_def info_view_def top_bit Let_def del: drop_bit_or)
next
  case (Tuned_Analog a q s)
  then show ?thesis
    using carries_get [OF assms(2)] carries_len [OF assms(2)] assms(1)
    by (simp add: cec_ops_tuner_device_status_def info_view_def top_bit get16_def Let_def
      del: drop_bit_or)
qed

lemma tuner_recv_wire:
  assumes "tuner_fits c"
    and "carries y (h # w_opcode (tuner_spec r c) # w_operands (tuner_spec r c))"
  shows "tuner_recv y = Some (Recognised (tuner_heard c))"
proof (cases c)
  case (Tuner_Device_Status f d t)
  have c: "carries y (h # CEC_MSG_TUNER_DEVICE_STATUS # (push_bit 7 f OR d) # tuned_bytes t)"
    using assms(2) Tuner_Device_Status by (simp add: wire_defs)
  show ?thesis
    using tuner_status_wire [OF _ c, of no_info] assms(1) Tuner_Device_Status carries_opcode [OF c]
    by (auto simp: tuner_recv_def)
next
  case (Select_Digital_Service g)
  have "get y (2 + i) = Some (digital_bytes g ! i)" if "i < 7" for i
    using carries_get [OF assms(2), of "2 + i"] that Select_Digital_Service
    by (simp add: wire_defs)
  then have "map_option digital_view (cec_get_digital_service_id y 2 no_digital) = Some (digital_heard g)"
    using get_digital_bytes [of g y 2 no_digital] assms(1) Select_Digital_Service by simp
  then show ?thesis
    using Select_Digital_Service carries_opcode [OF assms(2)]
    by (auto simp: tuner_recv_def tuner_ops_defs wire_defs c_consts)
qed (use carries_opcode [OF assms(2)] carries_get [OF assms(2)] in
  \<open>simp_all add: tuner_recv_def tuner_ops_defs wire_defs c_consts get16_def\<close>)

lemma tuner_opcode: "w_opcode (tuner_spec r c) \<in> set tuner_opcodes"
  by (cases c) (simp_all add: tuner_opcodes_def wire_defs)

lemma tuner_recv_other:
  "cec_msg_opcode m = Some op \<Longrightarrow> op \<notin> uint ` set tuner_opcodes \<Longrightarrow> tuner_recv m = Some Unrecognised"
  by (simp add: tuner_recv_def tuner_opcodes_def)

interpretation tuners: cec_feature tuner_send tuner_spec tuner_recv tuner_fits tuner_heard tuner_opcodes
  by unfold_locales (simp_all add: tuner_refines tuner_recv_safe tuner_recv_wire tuner_opcode tuner_recv_other)

end
