(* ===== verification/Cec_Vendor.thy ===== *)
theory Cec_Vendor
  imports Cec_Codec
begin

text \<open>
  Vendor Specific Commands of \<open>sysincludes/linux/cec-funcs.h\<close>: vendor identifiers of 24 bits and
  the commands that carry an uninterpreted run of bytes.
\<close>

section \<open>Message functions\<close>

definition cec_msg_device_vendor_id :: "cec_msg \<Rightarrow> u32 \<Rightarrow> cec_msg option" where
  "cec_msg_device_vendor_id m vendor_id = do {
     let m = m\<lparr>len := 5\<rparr>;
     m \<leftarrow> or_byte m 0 0xf;
     m \<leftarrow> put m 1 CEC_MSG_DEVICE_VENDOR_ID;
     m \<leftarrow> put m 2 (byte2 vendor_id);
     m \<leftarrow> put m 3 (byte1 vendor_id);
     m \<leftarrow> put m 4 (byte0 vendor_id);
     Some m }"

definition get24 :: "cec_msg \<Rightarrow> nat \<Rightarrow> u32 option" where
  "get24 m i = do { a \<leftarrow> get m i; b \<leftarrow> get m (i + 1); c \<leftarrow> get m (i + 2); Some (be24 a b c) }"

definition cec_ops_device_vendor_id :: "cec_msg \<Rightarrow> u32 option" where
  "cec_ops_device_vendor_id m = get24 m 2"

definition cec_msg_give_device_vendor_id :: "cec_msg \<Rightarrow> c_int \<Rightarrow> cec_msg option" where
  "cec_msg_give_device_vendor_id m want_reply = do {
     let m = m\<lparr>len := 2\<rparr>;
     m \<leftarrow> put m 1 CEC_MSG_GIVE_DEVICE_VENDOR_ID;
     let m = m\<lparr>reply := (if want_reply \<noteq> 0 then CEC_MSG_DEVICE_VENDOR_ID else 0)\<rparr>;
     Some m }"

definition cec_msg_vendor_command :: "cec_msg \<Rightarrow> u8 \<Rightarrow> u8 list \<Rightarrow> cec_msg option" where
  "cec_msg_vendor_command m sz vendor_cmd = do {
     let sz = (if sz > 14 then 14 else sz);
     let m = m\<lparr>len := 2 + ucast sz\<rparr>;
     m \<leftarrow> put m 1 CEC_MSG_VENDOR_COMMAND;
     put_bytes m 2 vendor_cmd (unat sz) }"

text \<open>The returned pointer is a position in the payload.\<close>

definition cec_ops_vendor_command :: "cec_msg \<Rightarrow> u8 \<times> nat" where
  "cec_ops_vendor_command m =
     (let sz = ucast (len m - 2); sz = (if sz > 14 then 14 else sz) in (sz, 2))"

definition cec_msg_vendor_command_with_id :: "cec_msg \<Rightarrow> u32 \<Rightarrow> u8 \<Rightarrow> u8 list \<Rightarrow> cec_msg option" where
  "cec_msg_vendor_command_with_id m vendor_id sz vendor_cmd = do {
     let sz = (if sz > 11 then 11 else sz);
     let m = m\<lparr>len := 5 + ucast sz\<rparr>;
     m \<leftarrow> put m 1 CEC_MSG_VENDOR_COMMAND_WITH_ID;
     m \<leftarrow> put m 2 (byte2 vendor_id);
     m \<leftarrow> put m 3 (byte1 vendor_id);
     m \<leftarrow> put m 4 (byte0 vendor_id);
     put_bytes m 5 vendor_cmd (unat sz) }"

definition cec_ops_vendor_command_with_id :: "cec_msg \<Rightarrow> (u32 \<times> u8 \<times> nat) option" where
  "cec_ops_vendor_command_with_id m = do {
     let sz = ucast (len m - 5);
     let sz = (if sz > 11 then 11 else sz);
     vendor_id \<leftarrow> get24 m 2;
     Some (vendor_id, sz, 5) }"

definition cec_msg_vendor_remote_button_down :: "cec_msg \<Rightarrow> u8 \<Rightarrow> u8 list \<Rightarrow> cec_msg option" where
  "cec_msg_vendor_remote_button_down m sz rc_code = do {
     let sz = (if sz > 14 then 14 else sz);
     let m = m\<lparr>len := 2 + ucast sz\<rparr>;
     m \<leftarrow> put m 1 CEC_MSG_VENDOR_REMOTE_BUTTON_DOWN;
     put_bytes m 2 rc_code (unat sz) }"

definition cec_ops_vendor_remote_button_down :: "cec_msg \<Rightarrow> u8 \<times> nat" where
  "cec_ops_vendor_remote_button_down m =
     (let sz = ucast (len m - 2); sz = (if sz > 14 then 14 else sz) in (sz, 2))"

definition cec_msg_vendor_remote_button_up :: "cec_msg \<Rightarrow> cec_msg option" where
  "cec_msg_vendor_remote_button_up m = do {
     let m = m\<lparr>len := 2\<rparr>;
     m \<leftarrow> put m 1 CEC_MSG_VENDOR_REMOTE_BUTTON_UP;
     Some m }"

lemmas vendor_msg_defs =
  cec_msg_device_vendor_id_def cec_msg_give_device_vendor_id_def
  cec_msg_vendor_remote_button_up_def

section \<open>Commands\<close>

datatype vendor_cmd =
    Device_Vendor_Id u32
  | Give_Device_Vendor_Id
  | Vendor_Command "u8 list"
  | Vendor_Command_With_Id u32 "u8 list"
  | Vendor_Remote_Button_Down "u8 list"
  | Vendor_Remote_Button_Up

fun vendor_send :: "cec_msg \<Rightarrow> c_int \<Rightarrow> vendor_cmd \<Rightarrow> cec_msg option" where
  "vendor_send m r (Device_Vendor_Id v) = cec_msg_device_vendor_id m v"
| "vendor_send m r Give_Device_Vendor_Id = cec_msg_give_device_vendor_id m r"
| "vendor_send m r (Vendor_Command b) = cec_msg_vendor_command m (of_nat (length b)) b"
| "vendor_send m r (Vendor_Command_With_Id v b) =
     cec_msg_vendor_command_with_id m v (of_nat (length b)) b"
| "vendor_send m r (Vendor_Remote_Button_Down b) =
     cec_msg_vendor_remote_button_down m (of_nat (length b)) b"
| "vendor_send m r Vendor_Remote_Button_Up = cec_msg_vendor_remote_button_up m"

text \<open>The size argument is a byte, so the length of a longer run counts modulo 256.\<close>

definition clamped :: "nat \<Rightarrow> u8 list \<Rightarrow> u8 list" where
  "clamped cap b = take (min cap (length b mod 256)) b"

fun vendor_spec :: "c_int \<Rightarrow> vendor_cmd \<Rightarrow> wire" where
  "vendor_spec r (Device_Vendor_Id v) =
     announce CEC_MSG_DEVICE_VENDOR_ID [byte2 v, byte1 v, byte0 v]"
| "vendor_spec r Give_Device_Vendor_Id =
     awaiting r CEC_MSG_DEVICE_VENDOR_ID (tell CEC_MSG_GIVE_DEVICE_VENDOR_ID [])"
| "vendor_spec r (Vendor_Command b) = tell CEC_MSG_VENDOR_COMMAND (clamped 14 b)"
| "vendor_spec r (Vendor_Command_With_Id v b) =
     tell CEC_MSG_VENDOR_COMMAND_WITH_ID ([byte2 v, byte1 v, byte0 v] @ clamped 11 b)"
| "vendor_spec r (Vendor_Remote_Button_Down b) =
     tell CEC_MSG_VENDOR_REMOTE_BUTTON_DOWN (clamped 14 b)"
| "vendor_spec r Vendor_Remote_Button_Up = tell CEC_MSG_VENDOR_REMOTE_BUTTON_UP []"

text \<open>A receiver reads \<open>size\<close> bytes through the returned pointer.\<close>

definition read_bytes :: "cec_msg \<Rightarrow> u8 \<times> nat \<Rightarrow> u8 list option" where
  "read_bytes m sp = (case sp of (sz, p) \<Rightarrow>
     if p + unat sz \<le> length (msg m) then Some (take (unat sz) (drop p (msg m))) else None)"

definition vendor_recv :: "cec_msg \<Rightarrow> vendor_cmd received option" where
  "vendor_recv m = do {
     op \<leftarrow> cec_msg_opcode m;
     if op = uint CEC_MSG_DEVICE_VENDOR_ID then
       map_option (Recognised \<circ> Device_Vendor_Id) (cec_ops_device_vendor_id m)
     else if op = uint CEC_MSG_GIVE_DEVICE_VENDOR_ID then Some (Recognised Give_Device_Vendor_Id)
     else if op = uint CEC_MSG_VENDOR_COMMAND then
       map_option (Recognised \<circ> Vendor_Command) (read_bytes m (cec_ops_vendor_command m))
     else if op = uint CEC_MSG_VENDOR_COMMAND_WITH_ID then do {
       (v, sp) \<leftarrow> cec_ops_vendor_command_with_id m;
       map_option (Recognised \<circ> Vendor_Command_With_Id v) (read_bytes m sp) }
     else if op = uint CEC_MSG_VENDOR_REMOTE_BUTTON_DOWN then
       map_option (Recognised \<circ> Vendor_Remote_Button_Down)
         (read_bytes m (cec_ops_vendor_remote_button_down m))
     else if op = uint CEC_MSG_VENDOR_REMOTE_BUTTON_UP then Some (Recognised Vendor_Remote_Button_Up)
     else Some Unrecognised }"

definition vendor_opcodes :: "u8 list" where
  "vendor_opcodes =
     [CEC_MSG_DEVICE_VENDOR_ID, CEC_MSG_GIVE_DEVICE_VENDOR_ID, CEC_MSG_VENDOR_COMMAND,
      CEC_MSG_VENDOR_COMMAND_WITH_ID, CEC_MSG_VENDOR_REMOTE_BUTTON_DOWN,
      CEC_MSG_VENDOR_REMOTE_BUTTON_UP]"

fun vendor_fits :: "vendor_cmd \<Rightarrow> bool" where
  "vendor_fits (Device_Vendor_Id v) = (v < 0x1000000)"
| "vendor_fits (Vendor_Command b) = (length b \<le> 14)"
| "vendor_fits (Vendor_Command_With_Id v b) = (v < 0x1000000 \<and> length b \<le> 11)"
| "vendor_fits (Vendor_Remote_Button_Down b) = (length b \<le> 14)"
| "vendor_fits _ = True"

section \<open>The contract holds\<close>

lemma unat_of_nat_u8: "unat (of_nat n :: u8) = n mod 256"
  by (simp add: unsigned_of_nat take_bit_eq_mod)

lemma clamp_size:
  assumes "unat cap \<le> 14"
  shows "unat (if (of_nat n :: u8) > cap then cap else of_nat n) = min (unat cap) (n mod 256)"
  by (simp add: word_less_nat_alt unat_of_nat_u8 min_def)

lemma ucast_size:
  assumes "unat (s :: u8) \<le> 14" and "unat k \<le> 5"
  shows "k + ucast s = (of_nat (unat k + unat s) :: u32)"
  by (simp add: unat_promote [symmetric])

text \<open>
  The bytes of a run behind the \<open>k\<close> bytes written so far, for the three functions that copy one.
\<close>

lemma run_refines:
  assumes "length bs0 = 16" and pre: "take k bs0 = header False m # op # pre"
    and k: "k + cap \<le> 16"
    and n: "n = min cap (length b mod 256)" and l: "l = of_nat (k + n)"
  shows "\<exists>x. put_bytes (m\<lparr>len := l, msg := bs0\<rparr>) k b n = Some x \<and>
    implements m (tell op (pre @ clamped cap b)) x"
proof -
  have b: "n \<le> length b" and kn: "k + n \<le> 16"
    using n k mod_less_eq_dividend [of "length b" 256] by linarith+
  then show ?thesis
    using copy_refines [OF assms(1) pre b kn l] n by (simp add: clamped_def)
qed

lemma vendor_command_refines:
  assumes "wf_msg m"
  shows "\<exists>x. cec_msg_vendor_command m (of_nat (length b)) b = Some x \<and>
    implements m (tell CEC_MSG_VENDOR_COMMAND (clamped 14 b)) x"
proof -
  let ?s = "(if of_nat (length b) > (14 :: u8) then 14 else of_nat (length b)) :: u8"
  have s: "unat ?s = min 14 (length b mod 256)"
    using clamp_size [of 14 "length b"] by simp
  have "\<exists>x. put_bytes (m\<lparr>len := 2 + ucast ?s, msg := (msg m)[1 := CEC_MSG_VENDOR_COMMAND]\<rparr>) 2 b
      (unat ?s) = Some x \<and> implements m (tell CEC_MSG_VENDOR_COMMAND ([] @ clamped 14 b)) x"
    by (rule run_refines) (use assms s ucast_size [of ?s 2] in \<open>auto simp: wf_msg_16 header_def\<close>)
  then show ?thesis
    using assms by (simp add: cec_msg_vendor_command_def put_total Let_def)
qed

lemma button_down_refines:
  assumes "wf_msg m"
  shows "\<exists>x. cec_msg_vendor_remote_button_down m (of_nat (length b)) b = Some x \<and>
    implements m (tell CEC_MSG_VENDOR_REMOTE_BUTTON_DOWN (clamped 14 b)) x"
proof -
  let ?s = "(if of_nat (length b) > (14 :: u8) then 14 else of_nat (length b)) :: u8"
  have s: "unat ?s = min 14 (length b mod 256)"
    using clamp_size [of 14 "length b"] by simp
  have "\<exists>x. put_bytes
      (m\<lparr>len := 2 + ucast ?s, msg := (msg m)[1 := CEC_MSG_VENDOR_REMOTE_BUTTON_DOWN]\<rparr>) 2 b
      (unat ?s) = Some x \<and>
      implements m (tell CEC_MSG_VENDOR_REMOTE_BUTTON_DOWN ([] @ clamped 14 b)) x"
    by (rule run_refines) (use assms s ucast_size [of ?s 2] in \<open>auto simp: wf_msg_16 header_def\<close>)
  then show ?thesis
    using assms by (simp add: cec_msg_vendor_remote_button_down_def put_total Let_def)
qed

lemma vendor_command_with_id_refines:
  assumes "wf_msg m"
  shows "\<exists>x. cec_msg_vendor_command_with_id m v (of_nat (length b)) b = Some x \<and>
    implements m (tell CEC_MSG_VENDOR_COMMAND_WITH_ID ([byte2 v, byte1 v, byte0 v] @ clamped 11 b)) x"
proof -
  let ?s = "(if of_nat (length b) > (11 :: u8) then 11 else of_nat (length b)) :: u8"
  let ?bs = "(msg m)[1 := CEC_MSG_VENDOR_COMMAND_WITH_ID, 2 := byte2 v, 3 := byte1 v, 4 := byte0 v]"
  have s: "unat ?s = min 11 (length b mod 256)"
    using clamp_size [of 11 "length b"] by simp
  have "\<exists>x. put_bytes (m\<lparr>len := 5 + ucast ?s, msg := ?bs\<rparr>) 5 b (unat ?s) = Some x \<and>
      implements m (tell CEC_MSG_VENDOR_COMMAND_WITH_ID ([byte2 v, byte1 v, byte0 v] @ clamped 11 b)) x"
    by (rule run_refines) (use assms s ucast_size [of ?s 5] in \<open>auto simp: wf_msg_16 header_def\<close>)
  then show ?thesis
    using assms by (simp add: cec_msg_vendor_command_with_id_def put_total wf_msg_def Let_def)
qed

lemma vendor_refines:
  assumes "wf_msg m"
  shows "\<exists>x. vendor_send m r c = Some x \<and> implements m (vendor_spec r c) x"
proof (cases c)
  case (Vendor_Command b)
  then show ?thesis using vendor_command_refines [OF assms] by simp
next
  case (Vendor_Command_With_Id v b)
  then show ?thesis using vendor_command_with_id_refines [OF assms] by simp
next
  case (Vendor_Remote_Button_Down b)
  then show ?thesis using button_down_refines [OF assms] by simp
qed (use assms in \<open>auto simp: wf_msg_16 vendor_msg_defs refines_simps\<close>)

text \<open>Whatever the length field holds, the run a receiver is pointed to lies in the payload.\<close>

lemma read_clamped_safe:
  assumes "wf_msg m" and "p + unat cap \<le> 16"
  shows "\<exists>b. read_bytes m (if s > cap then cap else s, p) = Some b"
  using assms by (simp add: read_bytes_def wf_msg_def CEC_MAX_MSG_SIZE_def word_less_nat_alt)

lemma get24_total [c_mem]:
  "wf_msg m \<Longrightarrow> i < 14 \<Longrightarrow> get24 m i = Some (be24 (msg m ! i) (msg m ! (i + 1)) (msg m ! (i + 2)))"
  by (simp add: get24_def get_total)

lemma vendor_recv_safe:
  assumes "wf_msg m"
  shows "\<exists>p. vendor_recv m = Some p"
proof -
  obtain a where "read_bytes m (cec_ops_vendor_command m) = Some a"
    using read_clamped_safe [OF assms, of 2 14] by (auto simp: cec_ops_vendor_command_def Let_def)
  moreover obtain b where "read_bytes m (cec_ops_vendor_remote_button_down m) = Some b"
    using read_clamped_safe [OF assms, of 2 14]
    by (auto simp: cec_ops_vendor_remote_button_down_def Let_def)
  moreover have "\<exists>v sp d. cec_ops_vendor_command_with_id m = Some (v, sp) \<and> read_bytes m sp = Some d"
    using read_clamped_safe [OF assms, of 5 11 "ucast (len m - 5)"] assms
    by (simp add: cec_ops_vendor_command_with_id_def get24_total Let_def split del: if_split)
  ultimately show ?thesis
    unfolding vendor_recv_def
    by (intro opcode_bind_safe) (auto simp: assms cec_ops_device_vendor_id_def get24_total)
qed

lemma read_frame:
  assumes "carries y (pre @ b)" and "length pre = p" and "unat sz = length b"
  shows "read_bytes y (sz, p) = Some b"
proof -
  have l: "length (msg y) = 16" "length pre + length b \<le> 16"
    "take (length pre + length b) (msg y) = pre @ b"
    using assms(1) by (auto simp: carries_def wf_msg_def CEC_MAX_MSG_SIZE_def)
  have "take (length b) (drop p (msg y)) = drop p (take (length pre + length b) (msg y))"
    using assms(2) by (simp add: take_drop add.commute)
  then show ?thesis
    using l assms(2,3) by (simp add: read_bytes_def)
qed

lemma run_size:
  assumes "len m = k + of_nat n" and "n \<le> unat cap"
  shows "unat (if (ucast (len m - k) :: u8) > cap then cap else ucast (len m - k)) = n"
proof -
  have n: "n < 256"
    using assms(2) unsigned_less [of cap, where 'a = nat] by simp
  then have "unat (of_nat n :: u32) = n"
    by (simp add: unat_of_nat_u32)
  then have "unat (ucast (len m - k) :: u8) = n"
    using assms(1) n by (simp add: unsigned_ucast_eq take_bit_nat_eq_self)
  then show ?thesis
    using assms(2) by (simp add: word_less_nat_alt)
qed

lemma clamped_id: "length b \<le> cap \<Longrightarrow> cap \<le> 14 \<Longrightarrow> clamped cap b = b"
  by (simp add: clamped_def)

lemma vendor_recv_wire:
  assumes "vendor_fits c"
    and "carries y (h # w_opcode (vendor_spec r c) # w_operands (vendor_spec r c))"
  shows "vendor_recv y = Some (Recognised c)"
proof (cases c)
  case (Vendor_Command b)
  have f: "carries y ([h, CEC_MSG_VENDOR_COMMAND] @ b)" and b: "length b \<le> 14"
    using assms Vendor_Command by (simp_all add: wire_defs clamped_id)
  have "read_bytes y (cec_ops_vendor_command y) = Some b"
    unfolding cec_ops_vendor_command_def Let_def
    by (rule read_frame [OF f _ run_size]) (use carries_len [OF f] b in simp_all)
  then show ?thesis
    using Vendor_Command carries_opcode [OF assms(2)]
    by (simp add: vendor_recv_def wire_defs c_consts)
next
  case (Vendor_Command_With_Id v b)
  have f: "carries y ([h, CEC_MSG_VENDOR_COMMAND_WITH_ID, byte2 v, byte1 v, byte0 v] @ b)"
    and b: "length b \<le> 11" and v: "v < 0x1000000"
    using assms Vendor_Command_With_Id by (simp_all add: wire_defs clamped_id)
  have "get24 y 2 = Some v"
    using carries_get [OF f] v by (simp add: get24_def be24_split_id)
  moreover have "read_bytes y (if (ucast (len y - 5) :: u8) > 11 then 11 else ucast (len y - 5), 5) = Some b"
    by (rule read_frame [OF f _ run_size]) (use carries_len [OF f] b in simp_all)
  ultimately show ?thesis
    using Vendor_Command_With_Id carries_opcode [OF assms(2)]
    by (simp add: vendor_recv_def cec_ops_vendor_command_with_id_def Let_def wire_defs c_consts
        split del: if_split)
next
  case (Vendor_Remote_Button_Down b)
  have f: "carries y ([h, CEC_MSG_VENDOR_REMOTE_BUTTON_DOWN] @ b)" and b: "length b \<le> 14"
    using assms Vendor_Remote_Button_Down by (simp_all add: wire_defs clamped_id)
  have "read_bytes y (cec_ops_vendor_remote_button_down y) = Some b"
    unfolding cec_ops_vendor_remote_button_down_def Let_def
    by (rule read_frame [OF f _ run_size]) (use carries_len [OF f] b in simp_all)
  then show ?thesis
    using Vendor_Remote_Button_Down carries_opcode [OF assms(2)]
    by (simp add: vendor_recv_def wire_defs c_consts)
next
  case (Device_Vendor_Id v)
  then show ?thesis
    using assms(1) carries_opcode [OF assms(2)] carries_get [OF assms(2)]
    by (simp add: vendor_recv_def cec_ops_device_vendor_id_def get24_def wire_defs c_consts be24_split_id)
qed (use carries_opcode [OF assms(2)] in \<open>simp_all add: vendor_recv_def wire_defs c_consts\<close>)

lemma vendor_opcode: "w_opcode (vendor_spec r c) \<in> set vendor_opcodes"
  by (cases c) (simp_all add: vendor_opcodes_def wire_defs)

lemma vendor_recv_other:
  "cec_msg_opcode m = Some op \<Longrightarrow> op \<notin> uint ` set vendor_opcodes \<Longrightarrow> vendor_recv m = Some Unrecognised"
  by (simp add: vendor_recv_def vendor_opcodes_def)

interpretation vendors: cec_feature vendor_send vendor_spec vendor_recv vendor_fits "\<lambda>c. c" vendor_opcodes
  by unfold_locales (simp_all add: vendor_refines vendor_recv_safe vendor_recv_wire vendor_opcode vendor_recv_other)

section \<open>Any size\<close>

text \<open>
  A vendor command of any length, also one whose length does not fit
  the size byte, is received as a prefix of what was sent: the number of bytes is the length modulo
  256, cut to 14.
\<close>

theorem vendor_command_clamped:
  assumes "wf_msg m"
  shows "\<exists>x. cec_msg_vendor_command m (of_nat (length b)) b = Some x \<and>
    vendor_recv x = Some (Recognised (Vendor_Command (take (min 14 (length b mod 256)) b)))"
proof -
  let ?b = "take (min 14 (length b mod 256)) b"
  obtain x where x: "cec_msg_vendor_command m (of_nat (length b)) b = Some x"
    and "implements m (tell CEC_MSG_VENDOR_COMMAND (clamped 14 b)) x"
    using vendor_command_refines [OF assms] by blast
  then have "carries x (header False m # CEC_MSG_VENDOR_COMMAND # ?b)"
    by (simp add: implements_def frame_of_def tell_def clamped_def)
  then have "vendor_recv x = Some (Recognised (Vendor_Command ?b))"
    by (intro vendor_recv_wire [where h = "header False m" and r = 0])
      (simp_all add: wire_defs clamped_id min_le_iff_disj)
  then show ?thesis
    using x by blast
qed

theorem vendor_command_clamped_witness:
  "\<exists>x. cec_msg_vendor_command zero_msg (of_nat (length (replicate 259 7))) (replicate 259 7) = Some x \<and>
    vendor_recv x = Some (Recognised (Vendor_Command [7, 7, 7]))"
  using vendor_command_clamped [of zero_msg "replicate 259 7"]
  by (simp add: wf_msg_def zero_msg_def numeral_3_eq_3)

end
