(* ===== verification/Cec_Osd.thy ===== *)
theory Cec_Osd
  imports Cec_Record
begin

text \<open>
  OSD Display, Device OSD Transfer, Device Menu Control and Power Status of
  \<open>sysincludes/linux/cec-funcs.h\<close>: the two text messages, the menu messages and the remote
  control keys with their optional operand.
\<close>

section \<open>Message functions\<close>

definition cec_msg_set_osd_string :: "cec_msg \<Rightarrow> u8 \<Rightarrow> u8 list \<Rightarrow> cec_msg option" where
  "cec_msg_set_osd_string m disp_ctl osd = do {
     n \<leftarrow> clamp_strlen 13 osd;
     let m = m\<lparr>len := of_nat (3 + n)\<rparr>;
     m \<leftarrow> put m 1 CEC_MSG_SET_OSD_STRING;
     m \<leftarrow> put m 2 disp_ctl;
     put_bytes m 3 osd n }"

definition cec_ops_set_osd_string :: "cec_msg \<Rightarrow> u8 list \<Rightarrow> (u8 \<times> u8 list) option" where
  "cec_ops_set_osd_string m osd = do {
     disp_ctl \<leftarrow> get m 2;
     osd \<leftarrow> get_string m 3 13 osd;
     Some (disp_ctl, osd) }"

definition cec_msg_set_osd_name :: "cec_msg \<Rightarrow> u8 list \<Rightarrow> cec_msg option" where
  "cec_msg_set_osd_name m nm = do {
     n \<leftarrow> clamp_strlen 14 nm;
     let m = m\<lparr>len := of_nat (2 + n)\<rparr>;
     m \<leftarrow> put m 1 CEC_MSG_SET_OSD_NAME;
     put_bytes m 2 nm n }"

definition cec_ops_set_osd_name :: "cec_msg \<Rightarrow> u8 list \<Rightarrow> u8 list option" where
  "cec_ops_set_osd_name m nm = get_string m 2 14 nm"

definition cec_msg_give_osd_name :: "cec_msg \<Rightarrow> c_int \<Rightarrow> cec_msg option" where
  "cec_msg_give_osd_name m want_reply = do {
     let m = m\<lparr>len := 2\<rparr>;
     m \<leftarrow> put m 1 CEC_MSG_GIVE_OSD_NAME;
     let m = m\<lparr>reply := (if want_reply \<noteq> 0 then CEC_MSG_SET_OSD_NAME else 0)\<rparr>;
     Some m }"

definition cec_msg_menu_status :: "cec_msg \<Rightarrow> u8 \<Rightarrow> cec_msg option" where
  "cec_msg_menu_status m menu_state = do {
     let m = m\<lparr>len := 3\<rparr>;
     m \<leftarrow> put m 1 CEC_MSG_MENU_STATUS;
     m \<leftarrow> put m 2 menu_state;
     Some m }"

definition cec_ops_menu_status :: "cec_msg \<Rightarrow> u8 option" where
  "cec_ops_menu_status m = get m 2"

definition cec_msg_menu_request :: "cec_msg \<Rightarrow> c_int \<Rightarrow> u8 \<Rightarrow> cec_msg option" where
  "cec_msg_menu_request m want_reply menu_req = do {
     let m = m\<lparr>len := 3\<rparr>;
     m \<leftarrow> put m 1 CEC_MSG_MENU_REQUEST;
     m \<leftarrow> put m 2 menu_req;
     let m = m\<lparr>reply := (if want_reply \<noteq> 0 then CEC_MSG_MENU_STATUS else 0)\<rparr>;
     Some m }"

definition cec_ops_menu_request :: "cec_msg \<Rightarrow> u8 option" where
  "cec_ops_menu_request m = get m 2"

text \<open>
  The union of \<open>struct cec_op_ui_command\<close> by its bytes: the six one-byte members and
  \<open>channel_identifier.channel_number_fmt\<close> share the first byte \<open>play_mode\<close>.
\<close>

record cec_op_ui_command =
  ui_cmd :: u8
  has_opt_arg :: u8
  play_mode :: u8
  ui_major :: u16
  ui_minor :: u16

text \<open>The commands \<open>case 0x56: case 0x57: case 0x60: case 0x68: case 0x69: case 0x6a:\<close>.\<close>

definition takes_byte :: "u8 \<Rightarrow> bool" where
  "takes_byte u \<longleftrightarrow> u = 0x56 \<or> u = 0x57 \<or> u = 0x60 \<or> u = 0x68 \<or> u = 0x69 \<or> u = 0x6a"

definition cec_msg_user_control_pressed :: "cec_msg \<Rightarrow> cec_op_ui_command \<Rightarrow> cec_msg option" where
  "cec_msg_user_control_pressed m ui = do {
     let m = m\<lparr>len := 3\<rparr>;
     m \<leftarrow> put m 1 CEC_MSG_USER_CONTROL_PRESSED;
     m \<leftarrow> put m 2 (ui_cmd ui);
     if has_opt_arg ui = 0 then Some m
     else if takes_byte (ui_cmd ui) then put (m\<lparr>len := len m + 1\<rparr>) 3 (play_mode ui)
     else if ui_cmd ui = 0x67 then do {
       let m = m\<lparr>len := len m + 4\<rparr>;
       m \<leftarrow> put m 3 (push_bit 2 (play_mode ui) OR hi8 (ui_major ui));
       m \<leftarrow> put m 4 (lo8 (ui_major ui));
       m \<leftarrow> put m 5 (hi8 (ui_minor ui));
       put m 6 (lo8 (ui_minor ui)) }
     else Some m }"

definition cec_ops_user_control_pressed ::
    "cec_msg \<Rightarrow> cec_op_ui_command \<Rightarrow> cec_op_ui_command option" where
  "cec_ops_user_control_pressed m ui = do {
     u \<leftarrow> get m 2;
     let ui = ui\<lparr>ui_cmd := u, has_opt_arg := 0\<rparr>;
     if len m = 3 then Some ui
     else if takes_byte (ui_cmd ui) then do {
       b \<leftarrow> get m 3;
       Some (ui\<lparr>play_mode := b, has_opt_arg := 1\<rparr>) }
     else if ui_cmd ui = 0x67 then
       if len m < 7 then Some ui
       else do {
         let ui = ui\<lparr>has_opt_arg := 1\<rparr>;
         b3 \<leftarrow> get m 3;
         let ui = ui\<lparr>play_mode := drop_bit 2 b3\<rparr>;
         b4 \<leftarrow> get m 4;
         let ui = ui\<lparr>ui_major := push_bit 6 (ucast (b3 AND 3)) OR ucast b4\<rparr>;
         minor \<leftarrow> get16 m 5;
         Some (ui\<lparr>ui_minor := minor\<rparr>) }
     else Some ui }"

definition cec_msg_user_control_released :: "cec_msg \<Rightarrow> cec_msg option" where
  "cec_msg_user_control_released m = do {
     let m = m\<lparr>len := 2\<rparr>;
     m \<leftarrow> put m 1 CEC_MSG_USER_CONTROL_RELEASED;
     Some m }"

definition cec_msg_report_power_status :: "cec_msg \<Rightarrow> u8 \<Rightarrow> cec_msg option" where
  "cec_msg_report_power_status m pwr_state = do {
     let m = m\<lparr>len := 3\<rparr>;
     m \<leftarrow> put m 1 CEC_MSG_REPORT_POWER_STATUS;
     m \<leftarrow> put m 2 pwr_state;
     Some m }"

definition cec_ops_report_power_status :: "cec_msg \<Rightarrow> u8 option" where
  "cec_ops_report_power_status m = get m 2"

definition cec_msg_give_device_power_status :: "cec_msg \<Rightarrow> c_int \<Rightarrow> cec_msg option" where
  "cec_msg_give_device_power_status m want_reply = do {
     let m = m\<lparr>len := 2\<rparr>;
     m \<leftarrow> put m 1 CEC_MSG_GIVE_DEVICE_POWER_STATUS;
     let m = m\<lparr>reply := (if want_reply \<noteq> 0 then CEC_MSG_REPORT_POWER_STATUS else 0)\<rparr>;
     Some m }"

lemmas osd_msg_defs =
  cec_msg_give_osd_name_def cec_msg_menu_status_def cec_msg_menu_request_def
  cec_msg_user_control_released_def cec_msg_report_power_status_def
  cec_msg_give_device_power_status_def

lemmas osd_ops_defs =
  cec_ops_set_osd_string_def cec_ops_set_osd_name_def cec_ops_menu_status_def
  cec_ops_menu_request_def cec_ops_report_power_status_def

section \<open>Commands\<close>

text \<open>A key press: alone, with an operand of one byte, or with a channel.\<close>

datatype key =
    Key u8
  | Key_Byte u8 u8
  | Key_Channel u8 u16 u16

fun ui_of :: "key \<Rightarrow> cec_op_ui_command" where
  "ui_of (Key u) = \<lparr>ui_cmd = u, has_opt_arg = 0, play_mode = 0, ui_major = 0, ui_minor = 0\<rparr>"
| "ui_of (Key_Byte u b) = \<lparr>ui_cmd = u, has_opt_arg = 1, play_mode = b, ui_major = 0, ui_minor = 0\<rparr>"
| "ui_of (Key_Channel fmt major minor) =
     \<lparr>ui_cmd = 0x67, has_opt_arg = 1, play_mode = fmt, ui_major = major, ui_minor = minor\<rparr>"

definition ui_view :: "cec_op_ui_command \<Rightarrow> key" where
  "ui_view ui =
     (if has_opt_arg ui = 0 then Key (ui_cmd ui)
      else if takes_byte (ui_cmd ui) then Key_Byte (ui_cmd ui) (play_mode ui)
      else Key_Channel (play_mode ui) (ui_major ui) (ui_minor ui))"

fun key_bytes :: "key \<Rightarrow> u8 list" where
  "key_bytes (Key u) = [u]"
| "key_bytes (Key_Byte u b) =
     (if takes_byte u then [u, b] else if u = 0x67 then [u, push_bit 2 b, 0, 0, 0] else [u])"
| "key_bytes (Key_Channel fmt major minor) =
     [0x67, push_bit 2 fmt OR hi8 major, lo8 major, hi8 minor, lo8 minor]"

text \<open>
  Operands that fit: an operand byte only behind a key that takes one, a channel with a format of
  six and a major number of ten bits. The receiver shifts the high bits of the major number by six,
  as for digital services.
\<close>

fun key_fits :: "key \<Rightarrow> bool" where
  "key_fits (Key u) \<longleftrightarrow> True"
| "key_fits (Key_Byte u b) \<longleftrightarrow> takes_byte u"
| "key_fits (Key_Channel fmt major minor) \<longleftrightarrow> fmt < 64 \<and> major < 1024"

fun key_heard :: "key \<Rightarrow> key" where
  "key_heard (Key_Channel fmt major minor) = Key_Channel fmt (fold_major major) minor"
| "key_heard k = k"

fun key_garbled :: "key \<Rightarrow> bool" where
  "key_garbled (Key_Channel fmt major minor) = (256 \<le> major)"
| "key_garbled _ = False"

datatype osd_cmd =
    Set_Osd_String u8 "u8 list"
  | Set_Osd_Name "u8 list"
  | Give_Osd_Name
  | Menu_Status u8
  | Menu_Request u8
  | User_Control_Pressed key
  | User_Control_Released
  | Report_Power_Status u8
  | Give_Device_Power_Status

fun osd_send :: "cec_msg \<Rightarrow> c_int \<Rightarrow> osd_cmd \<Rightarrow> cec_msg option" where
  "osd_send m r (Set_Osd_String d t) = cec_msg_set_osd_string m d (t @ [0])"
| "osd_send m r (Set_Osd_Name t) = cec_msg_set_osd_name m (t @ [0])"
| "osd_send m r Give_Osd_Name = cec_msg_give_osd_name m r"
| "osd_send m r (Menu_Status s) = cec_msg_menu_status m s"
| "osd_send m r (Menu_Request q) = cec_msg_menu_request m r q"
| "osd_send m r (User_Control_Pressed k) = cec_msg_user_control_pressed m (ui_of k)"
| "osd_send m r User_Control_Released = cec_msg_user_control_released m"
| "osd_send m r (Report_Power_Status p) = cec_msg_report_power_status m p"
| "osd_send m r Give_Device_Power_Status = cec_msg_give_device_power_status m r"

fun osd_spec :: "c_int \<Rightarrow> osd_cmd \<Rightarrow> wire" where
  "osd_spec r (Set_Osd_String d t) =
     tell CEC_MSG_SET_OSD_STRING (d # take 13 (takeWhile (\<lambda>c. c \<noteq> 0) t))"
| "osd_spec r (Set_Osd_Name t) =
     tell CEC_MSG_SET_OSD_NAME (take 14 (takeWhile (\<lambda>c. c \<noteq> 0) t))"
| "osd_spec r Give_Osd_Name = awaiting r CEC_MSG_SET_OSD_NAME (tell CEC_MSG_GIVE_OSD_NAME [])"
| "osd_spec r (Menu_Status s) = tell CEC_MSG_MENU_STATUS [s]"
| "osd_spec r (Menu_Request q) = awaiting r CEC_MSG_MENU_STATUS (tell CEC_MSG_MENU_REQUEST [q])"
| "osd_spec r (User_Control_Pressed k) = tell CEC_MSG_USER_CONTROL_PRESSED (key_bytes k)"
| "osd_spec r User_Control_Released = tell CEC_MSG_USER_CONTROL_RELEASED []"
| "osd_spec r (Report_Power_Status p) = tell CEC_MSG_REPORT_POWER_STATUS [p]"
| "osd_spec r Give_Device_Power_Status =
     awaiting r CEC_MSG_REPORT_POWER_STATUS (tell CEC_MSG_GIVE_DEVICE_POWER_STATUS [])"

text \<open>
  The receiver passes buffers of 14 and 15 bytes for the texts, and a zeroed structure for the
  key.
\<close>

definition no_ui :: cec_op_ui_command where
  "no_ui = \<lparr>ui_cmd = 0, has_opt_arg = 0, play_mode = 0, ui_major = 0, ui_minor = 0\<rparr>"

definition osd_recv :: "cec_msg \<Rightarrow> osd_cmd received option" where
  "osd_recv m = do {
     op \<leftarrow> cec_msg_opcode m;
     if op = uint CEC_MSG_SET_OSD_STRING then
       map_option (\<lambda>(d, s). Recognised (Set_Osd_String d (takeWhile (\<lambda>c. c \<noteq> 0) s)))
         (cec_ops_set_osd_string m (replicate 14 0))
     else if op = uint CEC_MSG_SET_OSD_NAME then
       map_option (\<lambda>s. Recognised (Set_Osd_Name (takeWhile (\<lambda>c. c \<noteq> 0) s)))
         (cec_ops_set_osd_name m (replicate 15 0))
     else if op = uint CEC_MSG_GIVE_OSD_NAME then Some (Recognised Give_Osd_Name)
     else if op = uint CEC_MSG_MENU_STATUS then
       map_option (Recognised \<circ> Menu_Status) (cec_ops_menu_status m)
     else if op = uint CEC_MSG_MENU_REQUEST then
       map_option (Recognised \<circ> Menu_Request) (cec_ops_menu_request m)
     else if op = uint CEC_MSG_USER_CONTROL_PRESSED then
       map_option (Recognised \<circ> User_Control_Pressed \<circ> ui_view) (cec_ops_user_control_pressed m no_ui)
     else if op = uint CEC_MSG_USER_CONTROL_RELEASED then Some (Recognised User_Control_Released)
     else if op = uint CEC_MSG_REPORT_POWER_STATUS then
       map_option (Recognised \<circ> Report_Power_Status) (cec_ops_report_power_status m)
     else if op = uint CEC_MSG_GIVE_DEVICE_POWER_STATUS then
       Some (Recognised Give_Device_Power_Status)
     else Some Unrecognised }"

definition osd_opcodes :: "u8 list" where
  "osd_opcodes =
     [CEC_MSG_SET_OSD_STRING, CEC_MSG_SET_OSD_NAME, CEC_MSG_GIVE_OSD_NAME, CEC_MSG_MENU_STATUS,
      CEC_MSG_MENU_REQUEST, CEC_MSG_USER_CONTROL_PRESSED, CEC_MSG_USER_CONTROL_RELEASED,
      CEC_MSG_REPORT_POWER_STATUS, CEC_MSG_GIVE_DEVICE_POWER_STATUS]"

fun osd_fits :: "osd_cmd \<Rightarrow> bool" where
  "osd_fits (Set_Osd_String d t) \<longleftrightarrow> length t \<le> 13 \<and> 0 \<notin> set t"
| "osd_fits (Set_Osd_Name t) \<longleftrightarrow> length t \<le> 14 \<and> 0 \<notin> set t"
| "osd_fits (User_Control_Pressed k) \<longleftrightarrow> key_fits k"
| "osd_fits c \<longleftrightarrow> True"

fun osd_heard :: "osd_cmd \<Rightarrow> osd_cmd" where
  "osd_heard (User_Control_Pressed k) = User_Control_Pressed (key_heard k)"
| "osd_heard c = c"

fun osd_garbled :: "osd_cmd \<Rightarrow> bool" where
  "osd_garbled (User_Control_Pressed k) = key_garbled k"
| "osd_garbled _ = False"

lemma key_heard_exact: "key_fits k \<Longrightarrow> key_heard k = k \<longleftrightarrow> \<not> key_garbled k"
  using fold_major_exact by (cases k) (auto simp: not_le)

lemma osd_heard_exact: "osd_fits c \<Longrightarrow> osd_heard c = c \<longleftrightarrow> \<not> osd_garbled c"
  by (cases c) (simp_all add: key_heard_exact)

section \<open>Codec\<close>

lemma osd_string_refines:
  assumes "wf_msg m"
  shows "\<exists>x. cec_msg_set_osd_string m d (t @ [0]) = Some x \<and>
    implements m (osd_spec r (Set_Osd_String d t)) x"
proof -
  let ?n = "min 13 (length (takeWhile (\<lambda>c. c \<noteq> 0) t))"
  let ?bs = "(msg m)[1 := CEC_MSG_SET_OSD_STRING, 2 := d]"
  have "\<exists>x. put_bytes (m\<lparr>len := of_nat (3 + ?n), msg := ?bs\<rparr>) 3 (t @ [0]) ?n = Some x \<and>
      implements m (tell CEC_MSG_SET_OSD_STRING ([d] @ take 13 (takeWhile (\<lambda>c. c \<noteq> 0) t))) x"
    by (rule text_refines) (use assms in \<open>auto simp: wf_msg_16 header_def\<close>)
  then show ?thesis
    using assms
    by (simp add: cec_msg_set_osd_string_def clamp_strlen_buffer put_total wf_msg_def)
qed

lemma osd_name_refines:
  assumes "wf_msg m"
  shows "\<exists>x. cec_msg_set_osd_name m (t @ [0]) = Some x \<and>
    implements m (osd_spec r (Set_Osd_Name t)) x"
proof -
  let ?n = "min 14 (length (takeWhile (\<lambda>c. c \<noteq> 0) t))"
  let ?bs = "(msg m)[1 := CEC_MSG_SET_OSD_NAME]"
  have "\<exists>x. put_bytes (m\<lparr>len := of_nat (2 + ?n), msg := ?bs\<rparr>) 2 (t @ [0]) ?n = Some x \<and>
      implements m (tell CEC_MSG_SET_OSD_NAME ([] @ take 14 (takeWhile (\<lambda>c. c \<noteq> 0) t))) x"
    by (rule text_refines) (use assms in \<open>auto simp: wf_msg_16 header_def\<close>)
  then show ?thesis
    using assms by (simp add: cec_msg_set_osd_name_def clamp_strlen_buffer put_total)
qed

lemma key_refines:
  assumes "wf_msg m"
  shows "\<exists>x. cec_msg_user_control_pressed m (ui_of k) = Some x \<and>
    implements m (osd_spec r (User_Control_Pressed k)) x"
  using assms unfolding wf_msg_16
  by (cases k) (auto simp: cec_msg_user_control_pressed_def takes_byte_def hi8_def lo8_def refines_simps)

lemma osd_refines:
  assumes "wf_msg m"
  shows "\<exists>x. osd_send m r c = Some x \<and> implements m (osd_spec r c) x"
proof (cases c)
  case (Set_Osd_String d t)
  then show ?thesis using osd_string_refines [OF assms] by simp
next
  case (Set_Osd_Name t)
  then show ?thesis using osd_name_refines [OF assms] by simp
next
  case (User_Control_Pressed k)
  then show ?thesis using key_refines [OF assms] by simp
qed (use assms in \<open>auto simp: wf_msg_16 osd_msg_defs refines_simps\<close>)

lemma osd_recv_safe:
  assumes "wf_msg m"
  shows "\<exists>p. osd_recv m = Some p"
proof -
  obtain s where "get_string m 3 13 (replicate 14 0) = Some s"
    using get_string_safe [OF assms, of 3 13 "replicate 14 0"] by auto
  moreover obtain t where "get_string m 2 14 (replicate 15 0) = Some t"
    using get_string_safe [OF assms, of 2 14 "replicate 15 0"] by auto
  moreover have "\<exists>u. cec_ops_user_control_pressed m no_ui = Some u"
    using assms by (simp add: cec_ops_user_control_pressed_def c_mem Let_def)
  ultimately show ?thesis
    unfolding osd_recv_def
    by (intro opcode_bind_safe) (auto simp: assms osd_ops_defs c_mem)
qed

lemma key_recv:
  assumes "key_fits k" and "carries y (h # op # key_bytes k)"
  shows "\<exists>u. cec_ops_user_control_pressed y no_ui = Some u \<and> ui_view u = key_heard k"
proof (cases k)
  case (Key u)
  then show ?thesis
    using carries_get [OF assms(2)] carries_len [OF assms(2)]
    by (simp add: cec_ops_user_control_pressed_def ui_view_def)
next
  case (Key_Byte u b)
  then show ?thesis
    using assms(1) carries_get [OF assms(2)] carries_len [OF assms(2)]
    by (simp add: cec_ops_user_control_pressed_def ui_view_def)
next
  case (Key_Channel fmt major minor)
  then show ?thesis
    using assms(1) carries_get [OF assms(2)] carries_get16 [OF assms(2)] carries_len [OF assms(2)]
    by (simp add: cec_ops_user_control_pressed_def ui_view_def takes_byte_def channel_fields
      fold_major_def del: drop_bit_or)
qed

lemma osd_recv_wire:
  assumes "osd_fits c" and "carries y (h # w_opcode (osd_spec r c) # w_operands (osd_spec r c))"
  shows "osd_recv y = Some (Recognised (osd_heard c))"
proof (cases c)
  case (Set_Osd_String d t)
  have f: "carries y ([h, CEC_MSG_SET_OSD_STRING, d] @ t)"
    using assms Set_Osd_String by (simp add: wire_defs takeWhile_no_nul)
  obtain s where "get_string y 3 13 (replicate 14 0) = Some s" "takeWhile (\<lambda>c. c \<noteq> 0) s = t"
    using get_string_frame [OF f, of 3 13 "replicate 14 0"] assms(1) Set_Osd_String by auto
  then show ?thesis
    using Set_Osd_String carries_opcode [OF assms(2)] carries_get [OF f, of 2]
    by (simp add: osd_recv_def osd_ops_defs wire_defs c_consts)
next
  case (Set_Osd_Name t)
  have f: "carries y ([h, CEC_MSG_SET_OSD_NAME] @ t)"
    using assms Set_Osd_Name by (simp add: wire_defs takeWhile_no_nul)
  obtain s where "get_string y 2 14 (replicate 15 0) = Some s" "takeWhile (\<lambda>c. c \<noteq> 0) s = t"
    using get_string_frame [OF f, of 2 14 "replicate 15 0"] assms(1) Set_Osd_Name by auto
  then show ?thesis
    using Set_Osd_Name carries_opcode [OF assms(2)]
    by (simp add: osd_recv_def osd_ops_defs wire_defs c_consts)
next
  case (User_Control_Pressed k)
  then have "key_fits k" and "carries y (h # CEC_MSG_USER_CONTROL_PRESSED # key_bytes k)"
    using assms by (simp_all add: wire_defs)
  then obtain u where "cec_ops_user_control_pressed y no_ui = Some u" "ui_view u = key_heard k"
    using key_recv by blast
  then show ?thesis
    using User_Control_Pressed carries_opcode [OF assms(2)]
    by (simp add: osd_recv_def wire_defs c_consts)
qed (use carries_opcode [OF assms(2)] carries_get [OF assms(2)] in
    \<open>simp_all add: osd_recv_def osd_ops_defs wire_defs c_consts\<close>)

lemma osd_opcode: "w_opcode (osd_spec r c) \<in> set osd_opcodes"
  by (cases c) (simp_all add: osd_opcodes_def wire_defs)

lemma osd_recv_other:
  "cec_msg_opcode m = Some op \<Longrightarrow> op \<notin> uint ` set osd_opcodes \<Longrightarrow> osd_recv m = Some Unrecognised"
  by (simp add: osd_recv_def osd_opcodes_def)

interpretation osd: cec_feature osd_send osd_spec osd_recv osd_fits osd_heard osd_opcodes
  by unfold_locales (simp_all add: osd_refines osd_recv_safe osd_recv_wire osd_opcode osd_recv_other)

section \<open>Limits\<close>

text \<open>
  C31. A key press that selects a channel comes back with its format and
  minor number; the major number of ten bits survives exactly when it is below 256.
\<close>

theorem key_channel_roundtrip:
  assumes "wf_msg m" and "fmt < 0x40" and "major < 0x400"
  shows "\<exists>x u. cec_msg_user_control_pressed m (ui_of (Key_Channel fmt major minor)) = Some x \<and>
    cec_ops_user_control_pressed x z = Some u \<and>
    ui_view u = Key_Channel fmt (push_bit 6 (ucast (hi8 major)) OR ucast (lo8 major)) minor \<and>
    (ui_view u = Key_Channel fmt major minor \<longleftrightarrow> major < 0x100)"
proof -
  let ?b = "push_bit 2 fmt OR hi8 major"
  obtain x where x: "cec_msg_user_control_pressed m (ui_of (Key_Channel fmt major minor)) = Some x"
    and "implements m (osd_spec 0 (User_Control_Pressed (Key_Channel fmt major minor))) x"
    using key_refines [OF assms(1)] by blast
  then have f: "carries x [header False m, CEC_MSG_USER_CONTROL_PRESSED, 0x67, ?b, lo8 major,
      hi8 minor, lo8 minor]"
    by (simp add: implements_def frame_of_def wire_defs)
  show ?thesis
    using x channel_fields [OF assms(2,3)] fold_major_exact [OF assms(3), unfolded fold_major_def] carries_get [OF f] carries_get16 [OF f]
      carries_len [OF f]
    by (simp add: cec_ops_user_control_pressed_def ui_view_def takes_byte_def del: drop_bit_or)
qed

theorem key_channel_roundtrip_witness:
  "\<exists>x u. cec_msg_user_control_pressed zero_msg (ui_of (Key_Channel 2 0x3ff 4)) = Some x \<and>
    cec_ops_user_control_pressed x no_ui = Some u \<and> ui_view u = Key_Channel 2 0xff 4"
  using key_channel_roundtrip [of zero_msg 2 "0x3ff" 4 no_ui]
  by (auto simp: wf_msg_def zero_msg_def hi8_def lo8_def)

text \<open>
  An OSD string of any length is shown as its first 13 characters up
  to the terminator: nothing is copied behind the payload, and the receiver's buffer of 14 bytes,
  whatever it held before, is terminated.
\<close>

theorem osd_string_truncated:
  assumes "wf_msg m" and "length buf = 14"
  shows "\<exists>x s. cec_msg_set_osd_string m d (t @ [0]) = Some x \<and>
    cec_ops_set_osd_string x buf = Some (d, s) \<and> length s = 14 \<and> 0 \<in> set s \<and>
    takeWhile (\<lambda>c. c \<noteq> 0) s = take 13 (takeWhile (\<lambda>c. c \<noteq> 0) t)"
proof -
  let ?t = "take 13 (takeWhile (\<lambda>c. c \<noteq> 0) t)"
  obtain x where x: "cec_msg_set_osd_string m d (t @ [0]) = Some x"
    and "implements m (osd_spec 0 (Set_Osd_String d t)) x"
    using osd_string_refines [OF assms(1)] by blast
  then have f: "carries x ([header False m, CEC_MSG_SET_OSD_STRING, d] @ ?t)"
    by (simp add: implements_def frame_of_def wire_defs)
  have "0 \<notin> set ?t"
    by (auto dest: in_set_takeD set_takeWhileD)
  then obtain s where s: "get_string x 3 13 buf = Some s" "length s = length buf" "0 \<in> set s"
      "takeWhile (\<lambda>c. c \<noteq> 0) s = ?t"
    using get_string_frame [OF f, of 3 13 buf] assms(2) by (auto simp: min_less_iff_disj)
  then show ?thesis
    using x carries_get [OF f, of 2] assms(2) by (simp add: cec_ops_set_osd_string_def)
qed

theorem osd_string_truncated_witness:
  "\<exists>x s. cec_msg_set_osd_string zero_msg 0 (replicate 40 0x41 @ [0]) = Some x \<and>
    cec_ops_set_osd_string x (replicate 14 0xff) = Some (0, s) \<and> length s = 14 \<and> 0 \<in> set s \<and>
    takeWhile (\<lambda>c. c \<noteq> 0) s = replicate 13 0x41"
  using osd_string_truncated [of zero_msg "replicate 14 0xff" 0 "replicate 40 0x41"]
  by (simp add: wf_msg_def zero_msg_def takeWhile_replicate)

end
