(* ===== verification/Cec_General.thy ===== *)
theory Cec_General
  imports Cec_Codec
begin

text \<open>
  General Protocol Messages of \<open>sysincludes/linux/cec-funcs.h\<close>, and the message life cycle of
  \<open>sysincludes/linux/cec.h\<close> around them: initialisation, turning a message into its reply, and
  reading the status of a transmission.
\<close>

section \<open>Message functions\<close>

definition cec_msg_feature_abort :: "cec_msg \<Rightarrow> u8 \<Rightarrow> u8 \<Rightarrow> cec_msg option" where
  "cec_msg_feature_abort m abort_msg reason = do {
     let m = m\<lparr>len := 4\<rparr>;
     m \<leftarrow> put m 1 CEC_MSG_FEATURE_ABORT;
     m \<leftarrow> put m 2 abort_msg;
     m \<leftarrow> put m 3 reason;
     Some m }"

definition cec_ops_feature_abort :: "cec_msg \<Rightarrow> (u8 \<times> u8) option" where
  "cec_ops_feature_abort m = do {
     abort_msg \<leftarrow> get m 2;
     reason \<leftarrow> get m 3;
     Some (abort_msg, reason) }"

text \<open>The call \<open>cec_msg_set_reply_to(msg, msg)\<close> passes the same message twice.\<close>

definition cec_msg_reply_feature_abort :: "cec_msg \<Rightarrow> u8 \<Rightarrow> cec_msg option" where
  "cec_msg_reply_feature_abort m reason = do {
     m \<leftarrow> cec_msg_set_reply_to m m;
     let m = m\<lparr>len := 4\<rparr>;
     b1 \<leftarrow> get m 1;
     m \<leftarrow> put m 2 b1;
     m \<leftarrow> put m 3 reason;
     put m 1 CEC_MSG_FEATURE_ABORT }"

definition cec_msg_abort :: "cec_msg \<Rightarrow> cec_msg option" where
  "cec_msg_abort m = do {
     let m = m\<lparr>len := 2\<rparr>;
     m \<leftarrow> put m 1 CEC_MSG_ABORT;
     Some m }"

lemmas general_msg_defs = cec_msg_feature_abort_def cec_msg_abort_def

section \<open>Commands\<close>

datatype general_cmd =
    Feature_Abort u8 u8
  | Abort

fun general_send :: "cec_msg \<Rightarrow> c_int \<Rightarrow> general_cmd \<Rightarrow> cec_msg option" where
  "general_send m r (Feature_Abort op reason) = cec_msg_feature_abort m op reason"
| "general_send m r Abort = cec_msg_abort m"

fun general_spec :: "c_int \<Rightarrow> general_cmd \<Rightarrow> wire" where
  "general_spec r (Feature_Abort op reason) = tell CEC_MSG_FEATURE_ABORT [op, reason]"
| "general_spec r Abort = tell CEC_MSG_ABORT []"

definition general_recv :: "cec_msg \<Rightarrow> general_cmd received option" where
  "general_recv m = do {
     op \<leftarrow> cec_msg_opcode m;
     if op = uint CEC_MSG_FEATURE_ABORT then
       map_option (\<lambda>(a, b). Recognised (Feature_Abort a b)) (cec_ops_feature_abort m)
     else if op = uint CEC_MSG_ABORT then Some (Recognised Abort)
     else Some Unrecognised }"

definition general_opcodes :: "u8 list" where
  "general_opcodes =
     [CEC_MSG_FEATURE_ABORT, CEC_MSG_ABORT]"

definition general_fits :: "general_cmd \<Rightarrow> bool" where
  "general_fits c \<longleftrightarrow> True"

lemma general_refines:
  assumes "wf_msg m"
  shows "\<exists>x. general_send m r c = Some x \<and> implements m (general_spec r c) x"
  using assms unfolding wf_msg_16
  by (cases c) (auto simp: general_msg_defs refines_simps)

lemma general_recv_safe:
  assumes "wf_msg m"
  shows "\<exists>p. general_recv m = Some p"
  unfolding general_recv_def
  by (intro opcode_bind_safe) (simp_all add: assms cec_ops_feature_abort_def c_mem)

lemma general_recv_wire:
  assumes "carries y (h # w_opcode (general_spec r c) # w_operands (general_spec r c))"
  shows "general_recv y = Some (Recognised c)"
  using carries_opcode [OF assms] carries_get [OF assms]
  by (cases c) (simp_all add: general_recv_def cec_ops_feature_abort_def wire_defs c_consts)

lemma general_opcode: "w_opcode (general_spec r c) \<in> set general_opcodes"
  by (cases c) (simp_all add: general_opcodes_def wire_defs)

lemma general_recv_other:
  "cec_msg_opcode m = Some op \<Longrightarrow> op \<notin> uint ` set general_opcodes \<Longrightarrow> general_recv m = Some Unrecognised"
  by (simp add: general_recv_def general_opcodes_def)

interpretation general: cec_feature general_send general_spec general_recv general_fits "\<lambda>c. c" general_opcodes
  by unfold_locales (simp_all add: general_refines general_recv_safe general_recv_wire general_opcode general_recv_other)

section \<open>Life cycle\<close>

lemma swap_nibbles:
  "drop_bit 4 (push_bit 4 (b AND 0xf) OR drop_bit 4 b) = (b :: u8) AND 0xf"
  "(push_bit 4 (b AND 0xf) OR drop_bit 4 b) AND 0xf = drop_bit 4 (b :: u8)"
proof -
  have lo: "b AND 0xf < 16"
    using and_mask_less' [of 4 b] by (simp add: mask_eq_exp_minus_1)
  have hi: "drop_bit 4 b < 16"
    using unsigned_less [of b, where 'a = nat]
    by (simp add: word_less_nat_alt drop_bit_eq_div unat_div less_mult_imp_div_less)
  show "drop_bit 4 (push_bit 4 (b AND 0xf) OR drop_bit 4 b) = (b :: u8) AND 0xf"
    and "(push_bit 4 (b AND 0xf) OR drop_bit 4 b) AND 0xf = drop_bit 4 (b :: u8)"
    using nibbles [OF lo hi] by simp_all
qed

lemma reply_to_addresses:
  assumes "wf_msg m" and "wf_msg orig" and "cec_msg_set_reply_to m orig = Some x"
  shows "cec_msg_initiator x = cec_msg_destination orig"
    and "cec_msg_destination x = cec_msg_initiator orig"
  using assms swap_nibbles [of "msg orig ! 0"]
  by (auto simp: cec_msg_set_reply_to_def cec_msg_initiator_def cec_msg_destination_def c_mem
      wf_msg_def CEC_MAX_MSG_SIZE_def get_def buf_get_def simp del: drop_bit_or)

lemma fresh_message:
  assumes "i < 16" and "d < 16" and "cec_msg_init i d = Some m"
  shows "wf_msg m" and "cec_msg_initiator m = Some i" and "cec_msg_destination m = Some d"
    and "cec_msg_opcode m = Some (- 1)"
  using assms nibbles [of i d]
  by (auto simp: cec_msg_init_def zero_msg_def cec_msg_initiator_def cec_msg_destination_def
      cec_msg_opcode_def wf_msg_def CEC_MAX_MSG_SIZE_def put_def get_def buf_put_def buf_get_def
      simp del: drop_bit_or)

text \<open>
  A freshly initialised message is well formed, carries the two logical
  addresses it was given, is a poll (it has no opcode), and is a broadcast exactly when the
  destination is 15.
\<close>

theorem cec_msg_init_poll:
  assumes "i < 16" and "d < 16"
  shows "\<exists>m. cec_msg_init i d = Some m \<and> wf_msg m \<and> len m = 1 \<and> cec_msg_initiator m = Some i \<and>
    cec_msg_destination m = Some d \<and> cec_msg_opcode m = Some (- 1) \<and>
    cec_msg_is_broadcast m = Some (d = 0xf)"
proof -
  obtain m where m: "cec_msg_init i d = Some m" and l: "len m = 1"
    by (simp add: cec_msg_init_def zero_msg_def CEC_MAX_MSG_SIZE_def put_def buf_put_def)
  have "cec_msg_is_broadcast m = Some (d = 0xf)"
    using fresh_message(3) [OF assms m]
    by (auto simp: cec_msg_is_broadcast_def cec_msg_destination_def bind_eq_Some_conv)
  then show ?thesis
    using m l fresh_message [OF assms m] by blast
qed

theorem cec_msg_init_poll_witness:
  "\<exists>m. cec_msg_init 4 0xf = Some m \<and> wf_msg m \<and> len m = 1 \<and> cec_msg_initiator m = Some 4 \<and>
    cec_msg_destination m = Some 0xf \<and> cec_msg_opcode m = Some (- 1) \<and>
    cec_msg_is_broadcast m = Some True"
  using cec_msg_init_poll [of 4 "0xf"] by simp

text \<open>
  C30. A reply goes back: the initiator and the destination of the
  original message change places, no reply is awaited and there is no timeout; and the reply to
  the reply has the original addresses again.
\<close>

theorem cec_msg_set_reply_to_swaps:
  assumes "wf_msg m" and "wf_msg orig"
  shows "\<exists>x y. cec_msg_set_reply_to m orig = Some x \<and> cec_msg_initiator x = cec_msg_destination orig \<and>
    cec_msg_destination x = cec_msg_initiator orig \<and> reply x = 0 \<and> timeout x = 0 \<and>
    cec_msg_set_reply_to m x = Some y \<and> cec_msg_initiator y = cec_msg_initiator orig \<and>
    cec_msg_destination y = cec_msg_destination orig"
proof -
  have tot: "\<exists>x. cec_msg_set_reply_to m o' = Some x \<and> wf_msg x \<and> reply x = 0 \<and> timeout x = 0"
    if "wf_msg o'" for o'
    using assms(1) that
    by (simp add: cec_msg_set_reply_to_def cec_msg_initiator_def cec_msg_destination_def c_mem
        wf_msg_def)
  obtain x where x: "cec_msg_set_reply_to m orig = Some x" "wf_msg x" "reply x = 0" "timeout x = 0"
    using tot [OF assms(2)] by blast
  obtain y where y: "cec_msg_set_reply_to m x = Some y"
    using tot [OF x(2)] by blast
  show ?thesis
    using x y reply_to_addresses [OF assms x(1)] reply_to_addresses [OF assms(1) x(2) y] by auto
qed

theorem cec_msg_set_reply_to_swaps_witness:
  "\<exists>x. cec_msg_set_reply_to zero_msg (zero_msg\<lparr>msg := 0x4b # replicate 15 0\<rparr>) = Some x \<and>
    cec_msg_initiator x = Some 0xb \<and> cec_msg_destination x = Some 4"
  using cec_msg_set_reply_to_swaps [of zero_msg "zero_msg\<lparr>msg := 0x4b # replicate 15 0\<rparr>"]
  by (auto simp: wf_msg_def zero_msg_def CEC_MAX_MSG_SIZE_def cec_msg_initiator_def
      cec_msg_destination_def get_def buf_get_def)

text \<open>
  C29. Turning a received message in place into a feature abort
  answers its sender and names the opcode that is aborted, with the given reason, although the
  opcode's own byte is overwritten.
\<close>

theorem reply_feature_abort_names_opcode:
  assumes "wf_msg m"
  shows "\<exists>x. cec_msg_reply_feature_abort m reason = Some x \<and>
    general_recv x = Some (Recognised (Feature_Abort (msg m ! 1) reason)) \<and>
    cec_msg_initiator x = cec_msg_destination m \<and> cec_msg_destination x = cec_msg_initiator m"
proof -
  obtain b0 b1 b2 b3 rest where b: "msg m = b0 # b1 # b2 # b3 # rest" "length rest = 12"
    using assms unfolding wf_msg_16 by auto
  let ?h = "push_bit 4 (b0 AND 0xf) OR drop_bit 4 b0"
  let ?x = "m\<lparr>len := 4, msg := ?h # CEC_MSG_FEATURE_ABORT # b1 # reason # rest, reply := 0, timeout := 0\<rparr>"
  have x: "cec_msg_reply_feature_abort m reason = Some ?x"
    using b by (simp add: cec_msg_reply_feature_abort_def cec_msg_set_reply_to_def
        cec_msg_initiator_def cec_msg_destination_def mem_defs)
  have "carries ?x [?h, CEC_MSG_FEATURE_ABORT, b1, reason]"
    using b by (simp add: carries_def wf_msg_def CEC_MAX_MSG_SIZE_def)
  then have "general_recv ?x = Some (Recognised (Feature_Abort b1 reason))"
    using general_recv_wire [of ?x ?h 0 "Feature_Abort b1 reason"] by (simp add: wire_defs)
  moreover have "cec_msg_initiator ?x = cec_msg_destination m"
    "cec_msg_destination ?x = cec_msg_initiator m"
    using b swap_nibbles [of b0]
    by (simp_all add: cec_msg_initiator_def cec_msg_destination_def mem_defs del: drop_bit_or)
  ultimately show ?thesis
    using x b by simp
qed

theorem reply_feature_abort_names_opcode_witness:
  "\<exists>x. cec_msg_reply_feature_abort (zero_msg\<lparr>len := 2, msg := 0x40 # 0x9f # replicate 14 0\<rparr>) 1 = Some x \<and>
    general_recv x = Some (Recognised (Feature_Abort 0x9f 1))"
  using reply_feature_abort_names_opcode [of "zero_msg\<lparr>len := 2, msg := 0x40 # 0x9f # replicate 14 0\<rparr>" 1]
  by (auto simp: wf_msg_def CEC_MAX_MSG_SIZE_def)

end
