(* ===== verification/Cec_Audio.thy ===== *)
theory Cec_Audio
  imports Cec_Codec
begin

text \<open>
  System Audio Control, Audio Rate Control, Audio Return Channel Control and Dynamic Audio
  Lipsync of \<open>sysincludes/linux/cec-funcs.h\<close>, with the two loops over short audio descriptors.
\<close>

section \<open>Message functions\<close>

definition cec_msg_report_audio_status :: "cec_msg \<Rightarrow> u8 \<Rightarrow> u8 \<Rightarrow> cec_msg option" where
  "cec_msg_report_audio_status m aud_mute_status aud_vol_status = do {
     let m = m\<lparr>len := 3\<rparr>;
     m \<leftarrow> put m 1 CEC_MSG_REPORT_AUDIO_STATUS;
     m \<leftarrow> put m 2 (push_bit 7 aud_mute_status OR (aud_vol_status AND 0x7f));
     Some m }"

definition cec_ops_report_audio_status :: "cec_msg \<Rightarrow> (u8 \<times> u8) option" where
  "cec_ops_report_audio_status m = do {
     aud_mute_status \<leftarrow> map_option (drop_bit 7) (get m 2);
     aud_vol_status \<leftarrow> map_option (\<lambda>b. b AND 0x7f) (get m 2);
     Some (aud_mute_status, aud_vol_status) }"

definition cec_msg_give_audio_status :: "cec_msg \<Rightarrow> c_int \<Rightarrow> cec_msg option" where
  "cec_msg_give_audio_status m want_reply = do {
     let m = m\<lparr>len := 2\<rparr>;
     m \<leftarrow> put m 1 CEC_MSG_GIVE_AUDIO_STATUS;
     let m = m\<lparr>reply := (if want_reply \<noteq> 0 then CEC_MSG_REPORT_AUDIO_STATUS else 0)\<rparr>;
     Some m }"

definition cec_msg_set_system_audio_mode :: "cec_msg \<Rightarrow> u8 \<Rightarrow> cec_msg option" where
  "cec_msg_set_system_audio_mode m sys_aud_status = do {
     let m = m\<lparr>len := 3\<rparr>;
     m \<leftarrow> put m 1 CEC_MSG_SET_SYSTEM_AUDIO_MODE;
     m \<leftarrow> put m 2 sys_aud_status;
     Some m }"

definition cec_ops_set_system_audio_mode :: "cec_msg \<Rightarrow> u8 option" where
  "cec_ops_set_system_audio_mode m = get m 2"

definition cec_msg_system_audio_mode_request ::
    "cec_msg \<Rightarrow> c_int \<Rightarrow> u16 \<Rightarrow> cec_msg option" where
  "cec_msg_system_audio_mode_request m want_reply phys_addr = do {
     let m = m\<lparr>len := (if phys_addr = 0xffff then 2 else 4)\<rparr>;
     m \<leftarrow> put m 1 CEC_MSG_SYSTEM_AUDIO_MODE_REQUEST;
     m \<leftarrow> put m 2 (hi8 phys_addr);
     m \<leftarrow> put m 3 (lo8 phys_addr);
     let m = m\<lparr>reply := (if want_reply \<noteq> 0 then CEC_MSG_SET_SYSTEM_AUDIO_MODE else 0)\<rparr>;
     Some m }"

definition cec_ops_system_audio_mode_request :: "cec_msg \<Rightarrow> u16 option" where
  "cec_ops_system_audio_mode_request m = (if len m < 4 then Some 0xffff else get16 m 2)"

definition cec_msg_system_audio_mode_status :: "cec_msg \<Rightarrow> u8 \<Rightarrow> cec_msg option" where
  "cec_msg_system_audio_mode_status m sys_aud_status = do {
     let m = m\<lparr>len := 3\<rparr>;
     m \<leftarrow> put m 1 CEC_MSG_SYSTEM_AUDIO_MODE_STATUS;
     m \<leftarrow> put m 2 sys_aud_status;
     Some m }"

definition cec_ops_system_audio_mode_status :: "cec_msg \<Rightarrow> u8 option" where
  "cec_ops_system_audio_mode_status m = get m 2"

definition cec_msg_give_system_audio_mode_status :: "cec_msg \<Rightarrow> c_int \<Rightarrow> cec_msg option" where
  "cec_msg_give_system_audio_mode_status m want_reply = do {
     let m = m\<lparr>len := 2\<rparr>;
     m \<leftarrow> put m 1 CEC_MSG_GIVE_SYSTEM_AUDIO_MODE_STATUS;
     let m = m\<lparr>reply := (if want_reply \<noteq> 0 then CEC_MSG_SYSTEM_AUDIO_MODE_STATUS else 0)\<rparr>;
     Some m }"

text \<open>The bodies of the \<open>for\<close> loops, from index \<open>i\<close> with \<open>k\<close> rounds left.\<close>

fun put_descriptors :: "cec_msg \<Rightarrow> u32 list \<Rightarrow> nat \<Rightarrow> nat \<Rightarrow> cec_msg option" where
  "put_descriptors m descriptors i 0 = Some m"
| "put_descriptors m descriptors i (Suc k) = do {
     d \<leftarrow> buf_get descriptors i;
     m \<leftarrow> put m (2 + i * 3) (byte2 d);
     m \<leftarrow> put m (3 + i * 3) (byte1 d);
     m \<leftarrow> put m (4 + i * 3) (byte0 d);
     put_descriptors m descriptors (i + 1) k }"

definition cec_msg_report_short_audio_descriptor ::
    "cec_msg \<Rightarrow> u8 \<Rightarrow> u32 list \<Rightarrow> cec_msg option" where
  "cec_msg_report_short_audio_descriptor m num_descriptors descriptors = do {
     let num_descriptors = (if num_descriptors > 4 then 4 else num_descriptors);
     let m = m\<lparr>len := 2 + ucast num_descriptors * 3\<rparr>;
     m \<leftarrow> put m 1 CEC_MSG_REPORT_SHORT_AUDIO_DESCRIPTOR;
     put_descriptors m descriptors 0 (unat num_descriptors) }"

fun get_descriptors :: "cec_msg \<Rightarrow> u32 list \<Rightarrow> nat \<Rightarrow> nat \<Rightarrow> u32 list option" where
  "get_descriptors m descriptors i 0 = Some descriptors"
| "get_descriptors m descriptors i (Suc k) = do {
     a \<leftarrow> get m (2 + i * 3);
     b \<leftarrow> get m (3 + i * 3);
     c \<leftarrow> get m (4 + i * 3);
     descriptors \<leftarrow> buf_put descriptors i (be24 a b c);
     get_descriptors m descriptors (i + 1) k }"

definition cec_ops_report_short_audio_descriptor ::
    "cec_msg \<Rightarrow> u32 list \<Rightarrow> (u8 \<times> u32 list) option" where
  "cec_ops_report_short_audio_descriptor m descriptors = do {
     let num_descriptors = ucast ((len m - 2) div 3);
     let num_descriptors = (if num_descriptors > 4 then 4 else num_descriptors);
     descriptors \<leftarrow> get_descriptors m descriptors 0 (unat num_descriptors);
     Some (num_descriptors, descriptors) }"

fun put_formats :: "cec_msg \<Rightarrow> u8 list \<Rightarrow> u8 list \<Rightarrow> nat \<Rightarrow> nat \<Rightarrow> cec_msg option" where
  "put_formats m audio_format_id audio_format_code i 0 = Some m"
| "put_formats m audio_format_id audio_format_code i (Suc k) = do {
     a \<leftarrow> buf_get audio_format_id i;
     b \<leftarrow> buf_get audio_format_code i;
     m \<leftarrow> put m (2 + i) (push_bit 6 a OR (b AND 0x3f));
     put_formats m audio_format_id audio_format_code (i + 1) k }"

definition cec_msg_request_short_audio_descriptor ::
    "cec_msg \<Rightarrow> c_int \<Rightarrow> u8 \<Rightarrow> u8 list \<Rightarrow> u8 list \<Rightarrow> cec_msg option" where
  "cec_msg_request_short_audio_descriptor m want_reply num_descriptors audio_format_id
     audio_format_code = do {
     let num_descriptors = (if num_descriptors > 4 then 4 else num_descriptors);
     let m = m\<lparr>len := 2 + ucast num_descriptors\<rparr>;
     m \<leftarrow> put m 1 CEC_MSG_REQUEST_SHORT_AUDIO_DESCRIPTOR;
     let m = m\<lparr>reply := (if want_reply \<noteq> 0 then CEC_MSG_REPORT_SHORT_AUDIO_DESCRIPTOR else 0)\<rparr>;
     put_formats m audio_format_id audio_format_code 0 (unat num_descriptors) }"

fun get_formats :: "cec_msg \<Rightarrow> u8 list \<Rightarrow> u8 list \<Rightarrow> nat \<Rightarrow> nat \<Rightarrow> (u8 list \<times> u8 list) option" where
  "get_formats m audio_format_id audio_format_code i 0 = Some (audio_format_id, audio_format_code)"
| "get_formats m audio_format_id audio_format_code i (Suc k) = do {
     b \<leftarrow> get m (2 + i);
     audio_format_id \<leftarrow> buf_put audio_format_id i (drop_bit 6 b);
     audio_format_code \<leftarrow> buf_put audio_format_code i (b AND 0x3f);
     get_formats m audio_format_id audio_format_code (i + 1) k }"

definition cec_ops_request_short_audio_descriptor ::
    "cec_msg \<Rightarrow> u8 list \<Rightarrow> u8 list \<Rightarrow> (u8 \<times> u8 list \<times> u8 list) option" where
  "cec_ops_request_short_audio_descriptor m audio_format_id audio_format_code = do {
     let num_descriptors = ucast (len m - 2);
     let num_descriptors = (if num_descriptors > 4 then 4 else num_descriptors);
     fs \<leftarrow> get_formats m audio_format_id audio_format_code 0 (unat num_descriptors);
     Some (num_descriptors, fs) }"

definition cec_msg_set_audio_rate :: "cec_msg \<Rightarrow> u8 \<Rightarrow> cec_msg option" where
  "cec_msg_set_audio_rate m audio_rate = do {
     let m = m\<lparr>len := 3\<rparr>;
     m \<leftarrow> put m 1 CEC_MSG_SET_AUDIO_RATE;
     m \<leftarrow> put m 2 audio_rate;
     Some m }"

definition cec_ops_set_audio_rate :: "cec_msg \<Rightarrow> u8 option" where
  "cec_ops_set_audio_rate m = get m 2"

definition cec_msg_report_arc_initiated :: "cec_msg \<Rightarrow> cec_msg option" where
  "cec_msg_report_arc_initiated m = do {
     let m = m\<lparr>len := 2\<rparr>;
     m \<leftarrow> put m 1 CEC_MSG_REPORT_ARC_INITIATED;
     Some m }"

definition cec_msg_initiate_arc :: "cec_msg \<Rightarrow> c_int \<Rightarrow> cec_msg option" where
  "cec_msg_initiate_arc m want_reply = do {
     let m = m\<lparr>len := 2\<rparr>;
     m \<leftarrow> put m 1 CEC_MSG_INITIATE_ARC;
     let m = m\<lparr>reply := (if want_reply \<noteq> 0 then CEC_MSG_REPORT_ARC_INITIATED else 0)\<rparr>;
     Some m }"

definition cec_msg_request_arc_initiation :: "cec_msg \<Rightarrow> c_int \<Rightarrow> cec_msg option" where
  "cec_msg_request_arc_initiation m want_reply = do {
     let m = m\<lparr>len := 2\<rparr>;
     m \<leftarrow> put m 1 CEC_MSG_REQUEST_ARC_INITIATION;
     let m = m\<lparr>reply := (if want_reply \<noteq> 0 then CEC_MSG_INITIATE_ARC else 0)\<rparr>;
     Some m }"

definition cec_msg_report_arc_terminated :: "cec_msg \<Rightarrow> cec_msg option" where
  "cec_msg_report_arc_terminated m = do {
     let m = m\<lparr>len := 2\<rparr>;
     m \<leftarrow> put m 1 CEC_MSG_REPORT_ARC_TERMINATED;
     Some m }"

definition cec_msg_terminate_arc :: "cec_msg \<Rightarrow> c_int \<Rightarrow> cec_msg option" where
  "cec_msg_terminate_arc m want_reply = do {
     let m = m\<lparr>len := 2\<rparr>;
     m \<leftarrow> put m 1 CEC_MSG_TERMINATE_ARC;
     let m = m\<lparr>reply := (if want_reply \<noteq> 0 then CEC_MSG_REPORT_ARC_TERMINATED else 0)\<rparr>;
     Some m }"

definition cec_msg_request_arc_termination :: "cec_msg \<Rightarrow> c_int \<Rightarrow> cec_msg option" where
  "cec_msg_request_arc_termination m want_reply = do {
     let m = m\<lparr>len := 2\<rparr>;
     m \<leftarrow> put m 1 CEC_MSG_REQUEST_ARC_TERMINATION;
     let m = m\<lparr>reply := (if want_reply \<noteq> 0 then CEC_MSG_TERMINATE_ARC else 0)\<rparr>;
     Some m }"

definition cec_msg_report_current_latency ::
    "cec_msg \<Rightarrow> u16 \<Rightarrow> u8 \<Rightarrow> u8 \<Rightarrow> u8 \<Rightarrow> u8 \<Rightarrow> cec_msg option" where
  "cec_msg_report_current_latency m phys_addr video_latency low_latency_mode
     audio_out_compensated audio_out_delay = do {
     let m = m\<lparr>len := 6\<rparr>;
     m \<leftarrow> or_byte m 0 0xf;
     m \<leftarrow> put m 1 CEC_MSG_REPORT_CURRENT_LATENCY;
     m \<leftarrow> put m 2 (hi8 phys_addr);
     m \<leftarrow> put m 3 (lo8 phys_addr);
     m \<leftarrow> put m 4 video_latency;
     m \<leftarrow> put m 5 (push_bit 2 low_latency_mode OR audio_out_compensated);
     if audio_out_compensated = 3 then push_byte m audio_out_delay else Some m }"

definition cec_ops_report_current_latency ::
    "cec_msg \<Rightarrow> (u16 \<times> u8 \<times> u8 \<times> u8 \<times> u8) option" where
  "cec_ops_report_current_latency m = do {
     phys_addr \<leftarrow> get16 m 2;
     video_latency \<leftarrow> get m 4;
     b5 \<leftarrow> get m 5;
     let low_latency_mode = drop_bit 2 b5 AND 1;
     let audio_out_compensated = b5 AND 3;
     audio_out_delay \<leftarrow> if audio_out_compensated = 3 \<and> len m \<ge> 7 then get m 6 else Some 0;
     Some (phys_addr, video_latency, low_latency_mode, audio_out_compensated, audio_out_delay) }"

definition cec_msg_request_current_latency :: "cec_msg \<Rightarrow> c_int \<Rightarrow> u16 \<Rightarrow> cec_msg option" where
  "cec_msg_request_current_latency m want_reply phys_addr = do {
     let m = m\<lparr>len := 4\<rparr>;
     m \<leftarrow> or_byte m 0 0xf;
     m \<leftarrow> put m 1 CEC_MSG_REQUEST_CURRENT_LATENCY;
     m \<leftarrow> put m 2 (hi8 phys_addr);
     m \<leftarrow> put m 3 (lo8 phys_addr);
     let m = m\<lparr>reply := (if want_reply \<noteq> 0 then CEC_MSG_REPORT_CURRENT_LATENCY else 0)\<rparr>;
     Some m }"

definition cec_ops_request_current_latency :: "cec_msg \<Rightarrow> u16 option" where
  "cec_ops_request_current_latency m = get16 m 2"

lemmas audio_msg_defs =
  cec_msg_report_audio_status_def cec_msg_give_audio_status_def cec_msg_set_system_audio_mode_def
  cec_msg_system_audio_mode_request_def cec_msg_system_audio_mode_status_def
  cec_msg_give_system_audio_mode_status_def cec_msg_set_audio_rate_def
  cec_msg_report_arc_initiated_def cec_msg_initiate_arc_def cec_msg_request_arc_initiation_def
  cec_msg_report_arc_terminated_def cec_msg_terminate_arc_def cec_msg_request_arc_termination_def
  cec_msg_report_current_latency_def cec_msg_request_current_latency_def

lemmas audio_ops_defs =
  cec_ops_report_audio_status_def cec_ops_set_system_audio_mode_def
  cec_ops_system_audio_mode_request_def cec_ops_system_audio_mode_status_def
  cec_ops_set_audio_rate_def cec_ops_report_current_latency_def
  cec_ops_request_current_latency_def

section \<open>Commands\<close>

datatype audio_cmd =
    Report_Audio_Status u8 u8
  | Give_Audio_Status
  | Set_System_Audio_Mode u8
  | System_Audio_Mode_Request u16
  | System_Audio_Mode_Status u8
  | Give_System_Audio_Mode_Status
  | Report_Short_Audio_Descriptor "u32 list"
  | Request_Short_Audio_Descriptor "(u8 \<times> u8) list"
  | Set_Audio_Rate u8
  | Report_Arc_Initiated
  | Initiate_Arc
  | Request_Arc_Initiation
  | Report_Arc_Terminated
  | Terminate_Arc
  | Request_Arc_Termination
  | Report_Current_Latency u16 u8 u8 u8 u8
  | Request_Current_Latency u16

fun audio_send :: "cec_msg \<Rightarrow> c_int \<Rightarrow> audio_cmd \<Rightarrow> cec_msg option" where
  "audio_send m r (Report_Audio_Status a v) = cec_msg_report_audio_status m a v"
| "audio_send m r Give_Audio_Status = cec_msg_give_audio_status m r"
| "audio_send m r (Set_System_Audio_Mode s) = cec_msg_set_system_audio_mode m s"
| "audio_send m r (System_Audio_Mode_Request p) = cec_msg_system_audio_mode_request m r p"
| "audio_send m r (System_Audio_Mode_Status s) = cec_msg_system_audio_mode_status m s"
| "audio_send m r Give_System_Audio_Mode_Status = cec_msg_give_system_audio_mode_status m r"
| "audio_send m r (Report_Short_Audio_Descriptor ds) =
     cec_msg_report_short_audio_descriptor m (of_nat (length ds)) ds"
| "audio_send m r (Request_Short_Audio_Descriptor fs) =
     cec_msg_request_short_audio_descriptor m r (of_nat (length fs)) (map fst fs) (map snd fs)"
| "audio_send m r (Set_Audio_Rate q) = cec_msg_set_audio_rate m q"
| "audio_send m r Report_Arc_Initiated = cec_msg_report_arc_initiated m"
| "audio_send m r Initiate_Arc = cec_msg_initiate_arc m r"
| "audio_send m r Request_Arc_Initiation = cec_msg_request_arc_initiation m r"
| "audio_send m r Report_Arc_Terminated = cec_msg_report_arc_terminated m"
| "audio_send m r Terminate_Arc = cec_msg_terminate_arc m r"
| "audio_send m r Request_Arc_Termination = cec_msg_request_arc_termination m r"
| "audio_send m r (Report_Current_Latency p v l c d) = cec_msg_report_current_latency m p v l c d"
| "audio_send m r (Request_Current_Latency p) = cec_msg_request_current_latency m r p"

definition descriptor_bytes :: "u32 \<Rightarrow> u8 list" where
  "descriptor_bytes d = [byte2 d, byte1 d, byte0 d]"

definition format_byte :: "u8 \<times> u8 \<Rightarrow> u8" where
  "format_byte f = push_bit 6 (fst f) OR (snd f AND 0x3f)"

text \<open>The number of descriptors is a byte, clamped to four.\<close>

definition first4 :: "'a list \<Rightarrow> 'a list" where
  "first4 xs = take (min 4 (length xs mod 256)) xs"

fun audio_spec :: "c_int \<Rightarrow> audio_cmd \<Rightarrow> wire" where
  "audio_spec r (Report_Audio_Status a v) =
     tell CEC_MSG_REPORT_AUDIO_STATUS [push_bit 7 a OR (v AND 0x7f)]"
| "audio_spec r Give_Audio_Status =
     awaiting r CEC_MSG_REPORT_AUDIO_STATUS (tell CEC_MSG_GIVE_AUDIO_STATUS [])"
| "audio_spec r (Set_System_Audio_Mode s) = tell CEC_MSG_SET_SYSTEM_AUDIO_MODE [s]"
| "audio_spec r (System_Audio_Mode_Request p) =
     awaiting r CEC_MSG_SET_SYSTEM_AUDIO_MODE
       (tell CEC_MSG_SYSTEM_AUDIO_MODE_REQUEST (if p = 0xffff then [] else [hi8 p, lo8 p]))"
| "audio_spec r (System_Audio_Mode_Status s) = tell CEC_MSG_SYSTEM_AUDIO_MODE_STATUS [s]"
| "audio_spec r Give_System_Audio_Mode_Status =
     awaiting r CEC_MSG_SYSTEM_AUDIO_MODE_STATUS (tell CEC_MSG_GIVE_SYSTEM_AUDIO_MODE_STATUS [])"
| "audio_spec r (Report_Short_Audio_Descriptor ds) =
     tell CEC_MSG_REPORT_SHORT_AUDIO_DESCRIPTOR (concat (map descriptor_bytes (first4 ds)))"
| "audio_spec r (Request_Short_Audio_Descriptor fs) =
     awaiting r CEC_MSG_REPORT_SHORT_AUDIO_DESCRIPTOR
       (tell CEC_MSG_REQUEST_SHORT_AUDIO_DESCRIPTOR (map format_byte (first4 fs)))"
| "audio_spec r (Set_Audio_Rate q) = tell CEC_MSG_SET_AUDIO_RATE [q]"
| "audio_spec r Report_Arc_Initiated = tell CEC_MSG_REPORT_ARC_INITIATED []"
| "audio_spec r Initiate_Arc = awaiting r CEC_MSG_REPORT_ARC_INITIATED (tell CEC_MSG_INITIATE_ARC [])"
| "audio_spec r Request_Arc_Initiation =
     awaiting r CEC_MSG_INITIATE_ARC (tell CEC_MSG_REQUEST_ARC_INITIATION [])"
| "audio_spec r Report_Arc_Terminated = tell CEC_MSG_REPORT_ARC_TERMINATED []"
| "audio_spec r Terminate_Arc =
     awaiting r CEC_MSG_REPORT_ARC_TERMINATED (tell CEC_MSG_TERMINATE_ARC [])"
| "audio_spec r Request_Arc_Termination =
     awaiting r CEC_MSG_TERMINATE_ARC (tell CEC_MSG_REQUEST_ARC_TERMINATION [])"
| "audio_spec r (Report_Current_Latency p v l c d) =
     announce CEC_MSG_REPORT_CURRENT_LATENCY
       ([hi8 p, lo8 p, v, push_bit 2 l OR c] @ (if c = 3 then [d] else []))"
| "audio_spec r (Request_Current_Latency p) =
     awaiting r CEC_MSG_REPORT_CURRENT_LATENCY
       (announce CEC_MSG_REQUEST_CURRENT_LATENCY [hi8 p, lo8 p])"

text \<open>The receiver passes arrays of four elements and looks at the first \<open>num_descriptors\<close>.\<close>

definition audio_recv :: "cec_msg \<Rightarrow> audio_cmd received option" where
  "audio_recv m = do {
     op \<leftarrow> cec_msg_opcode m;
     if op = uint CEC_MSG_REPORT_AUDIO_STATUS then
       map_option (\<lambda>(a, v). Recognised (Report_Audio_Status a v)) (cec_ops_report_audio_status m)
     else if op = uint CEC_MSG_GIVE_AUDIO_STATUS then Some (Recognised Give_Audio_Status)
     else if op = uint CEC_MSG_SET_SYSTEM_AUDIO_MODE then
       map_option (Recognised \<circ> Set_System_Audio_Mode) (cec_ops_set_system_audio_mode m)
     else if op = uint CEC_MSG_SYSTEM_AUDIO_MODE_REQUEST then
       map_option (Recognised \<circ> System_Audio_Mode_Request) (cec_ops_system_audio_mode_request m)
     else if op = uint CEC_MSG_SYSTEM_AUDIO_MODE_STATUS then
       map_option (Recognised \<circ> System_Audio_Mode_Status) (cec_ops_system_audio_mode_status m)
     else if op = uint CEC_MSG_GIVE_SYSTEM_AUDIO_MODE_STATUS then
       Some (Recognised Give_System_Audio_Mode_Status)
     else if op = uint CEC_MSG_REPORT_SHORT_AUDIO_DESCRIPTOR then
       map_option (\<lambda>(n, ds). Recognised (Report_Short_Audio_Descriptor (take (unat n) ds)))
         (cec_ops_report_short_audio_descriptor m (replicate 4 0))
     else if op = uint CEC_MSG_REQUEST_SHORT_AUDIO_DESCRIPTOR then
       map_option (\<lambda>(n, ids, codes).
           Recognised (Request_Short_Audio_Descriptor (take (unat n) (zip ids codes))))
         (cec_ops_request_short_audio_descriptor m (replicate 4 0) (replicate 4 0))
     else if op = uint CEC_MSG_SET_AUDIO_RATE then
       map_option (Recognised \<circ> Set_Audio_Rate) (cec_ops_set_audio_rate m)
     else if op = uint CEC_MSG_REPORT_ARC_INITIATED then Some (Recognised Report_Arc_Initiated)
     else if op = uint CEC_MSG_INITIATE_ARC then Some (Recognised Initiate_Arc)
     else if op = uint CEC_MSG_REQUEST_ARC_INITIATION then Some (Recognised Request_Arc_Initiation)
     else if op = uint CEC_MSG_REPORT_ARC_TERMINATED then Some (Recognised Report_Arc_Terminated)
     else if op = uint CEC_MSG_TERMINATE_ARC then Some (Recognised Terminate_Arc)
     else if op = uint CEC_MSG_REQUEST_ARC_TERMINATION then Some (Recognised Request_Arc_Termination)
     else if op = uint CEC_MSG_REPORT_CURRENT_LATENCY then
       map_option (\<lambda>(p, v, l, c, d). Recognised (Report_Current_Latency p v l c d))
         (cec_ops_report_current_latency m)
     else if op = uint CEC_MSG_REQUEST_CURRENT_LATENCY then
       map_option (Recognised \<circ> Request_Current_Latency) (cec_ops_request_current_latency m)
     else Some Unrecognised }"

definition audio_opcodes :: "u8 list" where
  "audio_opcodes =
     [CEC_MSG_REPORT_AUDIO_STATUS, CEC_MSG_GIVE_AUDIO_STATUS, CEC_MSG_SET_SYSTEM_AUDIO_MODE,
      CEC_MSG_SYSTEM_AUDIO_MODE_REQUEST, CEC_MSG_SYSTEM_AUDIO_MODE_STATUS,
      CEC_MSG_GIVE_SYSTEM_AUDIO_MODE_STATUS, CEC_MSG_REPORT_SHORT_AUDIO_DESCRIPTOR,
      CEC_MSG_REQUEST_SHORT_AUDIO_DESCRIPTOR, CEC_MSG_SET_AUDIO_RATE,
      CEC_MSG_REPORT_ARC_INITIATED, CEC_MSG_INITIATE_ARC, CEC_MSG_REQUEST_ARC_INITIATION,
      CEC_MSG_REPORT_ARC_TERMINATED, CEC_MSG_TERMINATE_ARC, CEC_MSG_REQUEST_ARC_TERMINATION,
      CEC_MSG_REPORT_CURRENT_LATENCY, CEC_MSG_REQUEST_CURRENT_LATENCY]"

fun audio_fits :: "audio_cmd \<Rightarrow> bool" where
  "audio_fits (Report_Audio_Status a v) \<longleftrightarrow> a < 2 \<and> v < 0x80"
| "audio_fits (Report_Short_Audio_Descriptor ds) \<longleftrightarrow> length ds \<le> 4 \<and> list_all (\<lambda>d. d < 0x1000000) ds"
| "audio_fits (Request_Short_Audio_Descriptor fs) \<longleftrightarrow>
     length fs \<le> 4 \<and> list_all (\<lambda>f. fst f < 4 \<and> snd f < 0x40) fs"
| "audio_fits (Report_Current_Latency p v l c d) \<longleftrightarrow> l < 2 \<and> c < 4 \<and> (c = 3 \<or> d = 0)"
| "audio_fits c \<longleftrightarrow> True"

section \<open>Codec\<close>

text \<open>At most four rounds, so the loops are followed round by round.\<close>

lemma upto4:
  assumes "n \<le> (4 :: nat)"
  obtains "n = 0" | "n = Suc 0" | "n = Suc (Suc 0)" | "n = Suc (Suc (Suc 0))"
    | "n = Suc (Suc (Suc (Suc 0)))"
  using assms by linarith

lemma clamp4:
  "unat (if of_nat k > (4 :: u8) then 4 else of_nat k :: u8) = min 4 (k mod 256)"
  by (simp add: word_less_nat_alt unat_of_nat min_def)

lemma descriptors_refine:
  assumes "wf_msg m" and "n \<le> 4" and "n \<le> length ds"
  shows "\<exists>x. put_descriptors (m\<lparr>len := of_nat (2 + n * 3), msg := (msg m)[1 := op]\<rparr>) ds 0 n = Some x \<and>
    implements m (tell op (concat (map descriptor_bytes (take n ds)))) x"
  using assms(2)
proof (cases rule: upto4)
  case 1
  then show ?thesis using assms unfolding wf_msg_16
    by (auto simp: refines_simps)
qed (use assms in \<open>auto simp: wf_msg_16 refines_simps descriptor_bytes_def take_nths\<close>)

lemma formats_refine:
  assumes "wf_msg m" and "n \<le> 4" and "n \<le> length fs"
  shows "\<exists>x. put_formats (m\<lparr>len := of_nat (2 + n), msg := (msg m)[1 := op], reply := a\<rparr>)
      (map fst fs) (map snd fs) 0 n = Some x \<and>
    implements m (\<lparr>w_bcast = False, w_opcode = op, w_operands = map format_byte (take n fs),
      w_answer = Some a\<rparr>) x"
  using assms(2)
proof (cases rule: upto4)
  case 1
  then show ?thesis using assms unfolding wf_msg_16
    by (auto simp: refines_simps)
qed (use assms in \<open>auto simp: wf_msg_16 refines_simps format_byte_def take_nths\<close>)

lemma report_descriptors_refines:
  assumes "wf_msg m"
  shows "\<exists>x. cec_msg_report_short_audio_descriptor m (of_nat (length ds)) ds = Some x \<and>
    implements m (tell CEC_MSG_REPORT_SHORT_AUDIO_DESCRIPTOR
      (concat (map descriptor_bytes (first4 ds)))) x"
proof -
  define n :: u8 where "n = (if of_nat (length ds) > (4 :: u8) then 4 else of_nat (length ds))"
  have n: "unat n = min 4 (length ds mod 256)"
    unfolding n_def by (rule clamp4)
  have "unat n \<le> 4" and "unat n \<le> length ds"
    using n mod_less_eq_dividend [of "length ds" 256] by linarith+
  from descriptors_refine [OF assms this]
  have "\<exists>x. put_descriptors (m\<lparr>len := 2 + ucast n * 3,
        msg := (msg m)[1 := CEC_MSG_REPORT_SHORT_AUDIO_DESCRIPTOR]\<rparr>) ds 0 (unat n) = Some x \<and>
      implements m (tell CEC_MSG_REPORT_SHORT_AUDIO_DESCRIPTOR
        (concat (map descriptor_bytes (take (unat n) ds)))) x"
    by simp
  then show ?thesis
    using assms
    by (simp add: cec_msg_report_short_audio_descriptor_def put_total Let_def first4_def
        n_def [symmetric] n)
qed

lemma request_descriptors_refines:
  assumes "wf_msg m"
  shows "\<exists>x. cec_msg_request_short_audio_descriptor m r (of_nat (length fs)) (map fst fs)
      (map snd fs) = Some x \<and>
    implements m (awaiting r CEC_MSG_REPORT_SHORT_AUDIO_DESCRIPTOR
      (tell CEC_MSG_REQUEST_SHORT_AUDIO_DESCRIPTOR (map format_byte (first4 fs)))) x"
proof -
  define n :: u8 where "n = (if of_nat (length fs) > (4 :: u8) then 4 else of_nat (length fs))"
  let ?a = "if r \<noteq> 0 then CEC_MSG_REPORT_SHORT_AUDIO_DESCRIPTOR else 0"
  have n: "unat n = min 4 (length fs mod 256)"
    unfolding n_def by (rule clamp4)
  have "unat n \<le> 4" and "unat n \<le> length fs"
    using n mod_less_eq_dividend [of "length fs" 256] by linarith+
  from formats_refine [OF assms this]
  have "\<exists>x. put_formats (m\<lparr>len := 2 + ucast n,
        msg := (msg m)[1 := CEC_MSG_REQUEST_SHORT_AUDIO_DESCRIPTOR], reply := ?a\<rparr>)
        (map fst fs) (map snd fs) 0 (unat n) = Some x \<and>
      implements m (awaiting r CEC_MSG_REPORT_SHORT_AUDIO_DESCRIPTOR
        (tell CEC_MSG_REQUEST_SHORT_AUDIO_DESCRIPTOR (map format_byte (take (unat n) fs)))) x"
    by (simp add: wire_defs)
  then show ?thesis
    using assms
    by (simp add: cec_msg_request_short_audio_descriptor_def put_total Let_def first4_def
        n_def [symmetric] n)
qed

lemma audio_refines:
  assumes "wf_msg m"
  shows "\<exists>x. audio_send m r c = Some x \<and> implements m (audio_spec r c) x"
proof (cases c)
  case (Report_Short_Audio_Descriptor ds)
  then show ?thesis using report_descriptors_refines [OF assms] by simp
next
  case (Request_Short_Audio_Descriptor fs)
  then show ?thesis using request_descriptors_refines [OF assms] by simp
qed (use assms in \<open>auto simp: wf_msg_16 audio_msg_defs refines_simps\<close>)

lemma get_descriptors_safe:
  assumes "wf_msg m" and "n \<le> 4"
  shows "\<exists>ds. get_descriptors m (replicate 4 0) 0 n = Some ds"
  using assms(2) by (cases rule: upto4) (simp_all add: assms(1) c_mem buf_put_def)

lemma get_formats_safe:
  assumes "wf_msg m" and "n \<le> 4"
  shows "\<exists>fs. get_formats m (replicate 4 0) (replicate 4 0) 0 n = Some fs"
  using assms(2) by (cases rule: upto4) (simp_all add: assms(1) c_mem buf_put_def)

lemma unat_clamp4: "unat (if (s :: u8) > 4 then 4 else s) \<le> 4"
  by (simp add: word_less_nat_alt)

lemma audio_recv_safe:
  assumes "wf_msg m"
  shows "\<exists>p. audio_recv m = Some p"
proof -
  have "\<exists>p. cec_ops_report_short_audio_descriptor m (replicate 4 0) = Some p"
    using get_descriptors_safe [OF assms unat_clamp4 [of "ucast ((len m - 2) div 3)"]]
    by (auto simp: cec_ops_report_short_audio_descriptor_def Let_def split del: if_split)
  moreover have "\<exists>p. cec_ops_request_short_audio_descriptor m (replicate 4 0) (replicate 4 0) = Some p"
    using get_formats_safe [OF assms unat_clamp4 [of "ucast (len m - 2)"]]
    by (auto simp: cec_ops_request_short_audio_descriptor_def Let_def split del: if_split)
  ultimately show ?thesis
    unfolding audio_recv_def
    by (intro opcode_bind_safe) (auto simp: assms audio_ops_defs c_mem Let_def)
qed

lemma format_byte_fields:
  assumes "a < 4" and "b < 0x40"
  shows "drop_bit 6 (format_byte (a, b)) = a" and "format_byte (a, b) AND 0x3f = b"
proof -
  have b: "b AND 0x3f = b"
    using less_mask_eq [of b 6] assms(2) by (simp add: mask_eq_exp_minus_1)
  show "drop_bit 6 (format_byte (a, b)) = a" and "format_byte (a, b) AND 0x3f = b"
    using field_hi [of b 6 a] field_lo [of b 6 a] assms
    by (simp_all add: format_byte_def b mask_eq_exp_minus_1 del: drop_bit_or)
qed

lemma format_byte_pair:
  "fst f < 4 \<Longrightarrow> snd f < 0x40 \<Longrightarrow> (drop_bit 6 (format_byte f), format_byte f AND 0x3f) = f"
  using format_byte_fields [of "fst f" "snd f"] by simp

lemma latency_fields:
  assumes "a < 2" and "b < 4"
  shows "drop_bit 2 (push_bit 2 a OR b) AND 1 = (a :: u8)" and "(push_bit 2 a OR b) AND 3 = (b :: u8)"
proof -
  have a: "a AND 1 = a"
    using less_mask_eq [of a 1] assms(1) by simp
  show "drop_bit 2 (push_bit 2 a OR b) AND 1 = (a :: u8)"
    using field_hi [of b 2 a] assms a by (simp add: word_less_nat_alt del: drop_bit_or)
  show "(push_bit 2 a OR b) AND 3 = (b :: u8)"
    using field_lo [of b 2 a] assms by (simp add: mask_eq_exp_minus_1)
qed

lemma list_upto4:
  assumes "length xs \<le> 4"
  obtains "xs = []" | a where "xs = [a]" | a b where "xs = [a, b]" | a b c where "xs = [a, b, c]"
    | a b c d where "xs = [a, b, c, d]"
  using assms by (cases rule: upto4) (auto simp: length_Suc_conv)

lemma get_rounds:
  "get_descriptors m ds i (numeral k) = do {
     a \<leftarrow> get m (2 + i * 3);
     b \<leftarrow> get m (3 + i * 3);
     c \<leftarrow> get m (4 + i * 3);
     ds \<leftarrow> buf_put ds i (be24 a b c);
     get_descriptors m ds (i + 1) (pred_numeral k) }"
  "get_formats m ids codes i (numeral k) = do {
     b \<leftarrow> get m (2 + i);
     ids \<leftarrow> buf_put ids i (drop_bit 6 b);
     codes \<leftarrow> buf_put codes i (b AND 0x3f);
     get_formats m ids codes (i + 1) (pred_numeral k) }"
  by (simp_all add: numeral_eq_Suc)

lemma four_zeros: "replicate 4 0 = [0, 0, 0, 0]"
  by (simp add: numeral_eq_Suc)

lemma descriptors_recv:
  assumes "audio_fits (Report_Short_Audio_Descriptor ds)"
    and "carries y (h # op # concat (map descriptor_bytes ds))"
  shows "\<exists>n s. cec_ops_report_short_audio_descriptor y (replicate 4 0) = Some (n, s) \<and>
    take (unat n) s = ds"
proof -
  have "length ds \<le> 4"
    using assms(1) by simp
  then show ?thesis
    by (cases rule: list_upto4)
      (use assms(1) carries_get [OF assms(2)] carries_len [OF assms(2)] in
        \<open>simp_all add: cec_ops_report_short_audio_descriptor_def descriptor_bytes_def buf_put_def
          be24_split_id get_rounds four_zeros Let_def\<close>)
qed

lemma formats_recv:
  assumes "audio_fits (Request_Short_Audio_Descriptor fs)"
    and "carries y (h # op # map format_byte fs)"
  shows "\<exists>n ids codes.
    cec_ops_request_short_audio_descriptor y (replicate 4 0) (replicate 4 0) = Some (n, ids, codes) \<and>
    take (unat n) (zip ids codes) = fs"
proof -
  have "length fs \<le> 4"
    using assms(1) by simp
  then show ?thesis
    by (cases rule: list_upto4)
      (use assms(1) carries_get [OF assms(2)] carries_len [OF assms(2)] in
        \<open>simp_all add: cec_ops_request_short_audio_descriptor_def buf_put_def
          format_byte_pair get_rounds four_zeros Let_def\<close>)
qed

lemma first4_id: "length xs \<le> 4 \<Longrightarrow> first4 xs = xs"
  by (simp add: first4_def)

lemma audio_recv_wire:
  assumes "audio_fits c" and "carries y (h # w_opcode (audio_spec r c) # w_operands (audio_spec r c))"
  shows "audio_recv y = Some (Recognised c)"
proof (cases c)
  case (Report_Short_Audio_Descriptor ds)
  then obtain n s where "cec_ops_report_short_audio_descriptor y (replicate 4 0) = Some (n, s)"
    and "take (unat n) s = ds"
    using descriptors_recv [of ds y h CEC_MSG_REPORT_SHORT_AUDIO_DESCRIPTOR] assms
    by (auto simp: wire_defs first4_id)
  then show ?thesis
    using Report_Short_Audio_Descriptor carries_opcode [OF assms(2)]
    by (simp add: audio_recv_def wire_defs c_consts)
next
  case (Request_Short_Audio_Descriptor fs)
  then obtain n ids codes
    where "cec_ops_request_short_audio_descriptor y (replicate 4 0) (replicate 4 0) = Some (n, ids, codes)"
    and "take (unat n) (zip ids codes) = fs"
    using formats_recv [of fs y h CEC_MSG_REQUEST_SHORT_AUDIO_DESCRIPTOR] assms
    by (auto simp: wire_defs first4_id)
  then show ?thesis
    using Request_Short_Audio_Descriptor carries_opcode [OF assms(2)]
    by (simp add: audio_recv_def wire_defs c_consts)
next
  case (Report_Audio_Status a v)
  then have "v AND 0x7f = v"
    using assms(1) less_mask_eq [of v 7] by (simp add: mask_eq_exp_minus_1)
  then show ?thesis
    using Report_Audio_Status assms(1) carries_opcode [OF assms(2)] carries_get [OF assms(2)]
      top_bit [of a v]
    by (simp add: audio_recv_def audio_ops_defs wire_defs c_consts del: drop_bit_or)
next
  case (Report_Current_Latency p v l b d)
  then show ?thesis
    using assms(1) carries_opcode [OF assms(2)] carries_get [OF assms(2)] carries_len [OF assms(2)]
      latency_fields [of l b]
    by (auto simp: audio_recv_def audio_ops_defs get16_def wire_defs c_consts Let_def
        simp del: drop_bit_or)
qed (use carries_opcode [OF assms(2)] carries_get [OF assms(2)] carries_len [OF assms(2)] in
    \<open>auto simp: audio_recv_def audio_ops_defs get16_def wire_defs c_consts\<close>)

lemma audio_opcode: "w_opcode (audio_spec r c) \<in> set audio_opcodes"
  by (cases c) (simp_all add: audio_opcodes_def wire_defs)

lemma audio_recv_other:
  "cec_msg_opcode m = Some op \<Longrightarrow> op \<notin> uint ` set audio_opcodes \<Longrightarrow> audio_recv m = Some Unrecognised"
  by (simp add: audio_recv_def audio_opcodes_def)

interpretation audio: cec_feature audio_send audio_spec audio_recv audio_fits "\<lambda>c. c" audio_opcodes
  by unfold_locales (simp_all add: audio_refines audio_recv_safe audio_recv_wire audio_opcode audio_recv_other)

end
