(* ===== verification/Cec_Cdc.thy ===== *)
theory Cec_Cdc
  imports Cec_Codec
begin

text \<open>
  Capability Discovery and Control of \<open>sysincludes/linux/cec-funcs.h\<close>: broadcast messages under
  the one opcode \<open>CEC_MSG_CDC_MESSAGE\<close>, told apart by a second opcode in byte 4. Bytes 2 and 3
  hold the sender's physical address; as the comments of the source say, the builders leave them
  to the CEC framework. The framework is not part of the source: it is the parameter \<open>fill\<close> of
  the locale \<open>cdc_framework\<close>, whose law is what the comments say of it.
\<close>

section \<open>Message functions\<close>

definition cec_msg_cdc_hec_inquire_state :: "cec_msg \<Rightarrow> u16 \<Rightarrow> u16 \<Rightarrow> cec_msg option" where
  "cec_msg_cdc_hec_inquire_state m phys_addr1 phys_addr2 = do {
     let m = m\<lparr>len := 9\<rparr>;
     m \<leftarrow> or_byte m 0 0xf;
     m \<leftarrow> put m 1 CEC_MSG_CDC_MESSAGE;
     m \<leftarrow> put m 4 CEC_MSG_CDC_HEC_INQUIRE_STATE;
     m \<leftarrow> put m 5 (hi8 phys_addr1);
     m \<leftarrow> put m 6 (lo8 phys_addr1);
     m \<leftarrow> put m 7 (hi8 phys_addr2);
     m \<leftarrow> put m 8 (lo8 phys_addr2);
     Some m }"

definition cec_ops_cdc_hec_inquire_state :: "cec_msg \<Rightarrow> (u16 \<times> u16 \<times> u16) option" where
  "cec_ops_cdc_hec_inquire_state m = do {
     phys_addr \<leftarrow> get16 m 2;
     phys_addr1 \<leftarrow> get16 m 5;
     phys_addr2 \<leftarrow> get16 m 7;
     Some (phys_addr, phys_addr1, phys_addr2) }"

definition cec_msg_cdc_hec_report_state ::
    "cec_msg \<Rightarrow> u16 \<Rightarrow> u8 \<Rightarrow> u8 \<Rightarrow> u8 \<Rightarrow> u8 \<Rightarrow> u8 \<Rightarrow> u16 \<Rightarrow> cec_msg option" where
  "cec_msg_cdc_hec_report_state m target_phys_addr hec_func_state host_func_state enc_func_state
     cdc_errcode has_field hec_field = do {
     let m = m\<lparr>len := (if has_field \<noteq> 0 then 10 else 8)\<rparr>;
     m \<leftarrow> or_byte m 0 0xf;
     m \<leftarrow> put m 1 CEC_MSG_CDC_MESSAGE;
     m \<leftarrow> put m 4 CEC_MSG_CDC_HEC_REPORT_STATE;
     m \<leftarrow> put m 5 (hi8 target_phys_addr);
     m \<leftarrow> put m 6 (lo8 target_phys_addr);
     m \<leftarrow> put m 7 (push_bit 6 hec_func_state OR push_bit 4 host_func_state OR
       push_bit 2 enc_func_state OR cdc_errcode);
     if has_field \<noteq> 0 then do {
       m \<leftarrow> put m 8 (hi8 hec_field);
       put m 9 (lo8 hec_field) }
     else Some m }"

definition cec_ops_cdc_hec_report_state ::
    "cec_msg \<Rightarrow> (u16 \<times> u16 \<times> u8 \<times> u8 \<times> u8 \<times> u8 \<times> u8 \<times> u16) option" where
  "cec_ops_cdc_hec_report_state m = do {
     phys_addr \<leftarrow> get16 m 2;
     target_phys_addr \<leftarrow> get16 m 5;
     b7 \<leftarrow> get m 7;
     let hec_func_state = drop_bit 6 b7;
     let host_func_state = drop_bit 4 b7 AND 3;
     let enc_func_state = drop_bit 4 b7 AND 3;
     let cdc_errcode = b7 AND 3;
     let has_field = (if len m \<ge> 10 then 1 else 0);
     hec_field \<leftarrow> if has_field \<noteq> 0 then get16 m 8 else Some 0;
     Some (phys_addr, target_phys_addr, hec_func_state, host_func_state, enc_func_state,
       cdc_errcode, has_field, hec_field) }"

definition cec_msg_cdc_hec_set_state ::
    "cec_msg \<Rightarrow> u16 \<Rightarrow> u16 \<Rightarrow> u8 \<Rightarrow> u16 \<Rightarrow> u16 \<Rightarrow> u16 \<Rightarrow> cec_msg option" where
  "cec_msg_cdc_hec_set_state m phys_addr1 phys_addr2 hec_set_state phys_addr3 phys_addr4
     phys_addr5 = do {
     let m = m\<lparr>len := 10\<rparr>;
     m \<leftarrow> or_byte m 0 0xf;
     m \<leftarrow> put m 1 CEC_MSG_CDC_MESSAGE;
     m \<leftarrow> put m 4 CEC_MSG_CDC_HEC_INQUIRE_STATE;
     m \<leftarrow> put m 5 (hi8 phys_addr1);
     m \<leftarrow> put m 6 (lo8 phys_addr1);
     m \<leftarrow> put m 7 (hi8 phys_addr2);
     m \<leftarrow> put m 8 (lo8 phys_addr2);
     m \<leftarrow> put m 9 hec_set_state;
     if phys_addr3 \<noteq> CEC_PHYS_ADDR_INVALID then do {
       m \<leftarrow> push_byte m (hi8 phys_addr3);
       m \<leftarrow> push_byte m (lo8 phys_addr3);
       if phys_addr4 \<noteq> CEC_PHYS_ADDR_INVALID then do {
         m \<leftarrow> push_byte m (hi8 phys_addr4);
         m \<leftarrow> push_byte m (lo8 phys_addr4);
         if phys_addr5 \<noteq> CEC_PHYS_ADDR_INVALID then do {
           m \<leftarrow> push_byte m (hi8 phys_addr5);
           push_byte m (lo8 phys_addr5) }
         else Some m }
       else Some m }
     else Some m }"

definition cec_ops_cdc_hec_set_state ::
    "cec_msg \<Rightarrow> (u16 \<times> u16 \<times> u16 \<times> u8 \<times> u16 \<times> u16 \<times> u16) option" where
  "cec_ops_cdc_hec_set_state m = do {
     phys_addr \<leftarrow> get16 m 2;
     phys_addr1 \<leftarrow> get16 m 5;
     phys_addr2 \<leftarrow> get16 m 7;
     hec_set_state \<leftarrow> get m 9;
     phys_addr3 \<leftarrow> if len m \<ge> 12 then get16 m 10 else Some CEC_PHYS_ADDR_INVALID;
     phys_addr4 \<leftarrow> if len m \<ge> 14 then get16 m 12 else Some CEC_PHYS_ADDR_INVALID;
     phys_addr5 \<leftarrow> if len m \<ge> 16 then get16 m 14 else Some CEC_PHYS_ADDR_INVALID;
     Some (phys_addr, phys_addr1, phys_addr2, hec_set_state, phys_addr3, phys_addr4, phys_addr5) }"

definition cec_msg_cdc_hec_set_state_adjacent :: "cec_msg \<Rightarrow> u16 \<Rightarrow> u8 \<Rightarrow> cec_msg option" where
  "cec_msg_cdc_hec_set_state_adjacent m phys_addr1 hec_set_state = do {
     let m = m\<lparr>len := 8\<rparr>;
     m \<leftarrow> or_byte m 0 0xf;
     m \<leftarrow> put m 1 CEC_MSG_CDC_MESSAGE;
     m \<leftarrow> put m 4 CEC_MSG_CDC_HEC_SET_STATE_ADJACENT;
     m \<leftarrow> put m 5 (hi8 phys_addr1);
     m \<leftarrow> put m 6 (lo8 phys_addr1);
     m \<leftarrow> put m 7 hec_set_state;
     Some m }"

definition cec_ops_cdc_hec_set_state_adjacent :: "cec_msg \<Rightarrow> (u16 \<times> u16 \<times> u8) option" where
  "cec_ops_cdc_hec_set_state_adjacent m = do {
     phys_addr \<leftarrow> get16 m 2;
     phys_addr1 \<leftarrow> get16 m 5;
     hec_set_state \<leftarrow> get m 7;
     Some (phys_addr, phys_addr1, hec_set_state) }"

definition cec_msg_cdc_hec_request_deactivation :: "cec_msg \<Rightarrow> u16 \<Rightarrow> u16 \<Rightarrow> u16 \<Rightarrow> cec_msg option" where
  "cec_msg_cdc_hec_request_deactivation m phys_addr1 phys_addr2 phys_addr3 = do {
     let m = m\<lparr>len := 11\<rparr>;
     m \<leftarrow> or_byte m 0 0xf;
     m \<leftarrow> put m 1 CEC_MSG_CDC_MESSAGE;
     m \<leftarrow> put m 4 CEC_MSG_CDC_HEC_REQUEST_DEACTIVATION;
     m \<leftarrow> put m 5 (hi8 phys_addr1);
     m \<leftarrow> put m 6 (lo8 phys_addr1);
     m \<leftarrow> put m 7 (hi8 phys_addr2);
     m \<leftarrow> put m 8 (lo8 phys_addr2);
     m \<leftarrow> put m 9 (hi8 phys_addr3);
     m \<leftarrow> put m 10 (lo8 phys_addr3);
     Some m }"

definition cec_ops_cdc_hec_request_deactivation :: "cec_msg \<Rightarrow> (u16 \<times> u16 \<times> u16 \<times> u16) option" where
  "cec_ops_cdc_hec_request_deactivation m = do {
     phys_addr \<leftarrow> get16 m 2;
     phys_addr1 \<leftarrow> get16 m 5;
     phys_addr2 \<leftarrow> get16 m 7;
     phys_addr3 \<leftarrow> get16 m 9;
     Some (phys_addr, phys_addr1, phys_addr2, phys_addr3) }"

definition cec_msg_cdc_hec_notify_alive :: "cec_msg \<Rightarrow> cec_msg option" where
  "cec_msg_cdc_hec_notify_alive m = do {
     let m = m\<lparr>len := 5\<rparr>;
     m \<leftarrow> or_byte m 0 0xf;
     m \<leftarrow> put m 1 CEC_MSG_CDC_MESSAGE;
     m \<leftarrow> put m 4 CEC_MSG_CDC_HEC_NOTIFY_ALIVE;
     Some m }"

definition cec_ops_cdc_hec_notify_alive :: "cec_msg \<Rightarrow> u16 option" where
  "cec_ops_cdc_hec_notify_alive m = get16 m 2"

definition cec_msg_cdc_hec_discover :: "cec_msg \<Rightarrow> cec_msg option" where
  "cec_msg_cdc_hec_discover m = do {
     let m = m\<lparr>len := 5\<rparr>;
     m \<leftarrow> or_byte m 0 0xf;
     m \<leftarrow> put m 1 CEC_MSG_CDC_MESSAGE;
     m \<leftarrow> put m 4 CEC_MSG_CDC_HEC_DISCOVER;
     Some m }"

definition cec_ops_cdc_hec_discover :: "cec_msg \<Rightarrow> u16 option" where
  "cec_ops_cdc_hec_discover m = get16 m 2"

definition cec_msg_cdc_hpd_set_state :: "cec_msg \<Rightarrow> u8 \<Rightarrow> u8 \<Rightarrow> cec_msg option" where
  "cec_msg_cdc_hpd_set_state m input_port hpd_state = do {
     let m = m\<lparr>len := 6\<rparr>;
     m \<leftarrow> or_byte m 0 0xf;
     m \<leftarrow> put m 1 CEC_MSG_CDC_MESSAGE;
     m \<leftarrow> put m 4 CEC_MSG_CDC_HPD_SET_STATE;
     m \<leftarrow> put m 5 (push_bit 4 input_port OR hpd_state);
     Some m }"

definition cec_ops_cdc_hpd_set_state :: "cec_msg \<Rightarrow> (u16 \<times> u8 \<times> u8) option" where
  "cec_ops_cdc_hpd_set_state m = do {
     phys_addr \<leftarrow> get16 m 2;
     input_port \<leftarrow> map_option (drop_bit 4) (get m 5);
     hpd_state \<leftarrow> map_option (\<lambda>b. b AND 0xf) (get m 5);
     Some (phys_addr, input_port, hpd_state) }"

definition cec_msg_cdc_hpd_report_state :: "cec_msg \<Rightarrow> u8 \<Rightarrow> u8 \<Rightarrow> cec_msg option" where
  "cec_msg_cdc_hpd_report_state m hpd_state hpd_error = do {
     let m = m\<lparr>len := 6\<rparr>;
     m \<leftarrow> or_byte m 0 0xf;
     m \<leftarrow> put m 1 CEC_MSG_CDC_MESSAGE;
     m \<leftarrow> put m 4 CEC_MSG_CDC_HPD_REPORT_STATE;
     m \<leftarrow> put m 5 (push_bit 4 hpd_state OR hpd_error);
     Some m }"

definition cec_ops_cdc_hpd_report_state :: "cec_msg \<Rightarrow> (u16 \<times> u8 \<times> u8) option" where
  "cec_ops_cdc_hpd_report_state m = do {
     phys_addr \<leftarrow> get16 m 2;
     hpd_state \<leftarrow> map_option (drop_bit 4) (get m 5);
     hpd_error \<leftarrow> map_option (\<lambda>b. b AND 0xf) (get m 5);
     Some (phys_addr, hpd_state, hpd_error) }"

lemmas cdc_msg_defs =
  cec_msg_cdc_hec_inquire_state_def cec_msg_cdc_hec_report_state_def
  cec_msg_cdc_hec_set_state_def cec_msg_cdc_hec_set_state_adjacent_def
  cec_msg_cdc_hec_request_deactivation_def cec_msg_cdc_hec_notify_alive_def
  cec_msg_cdc_hec_discover_def cec_msg_cdc_hpd_set_state_def cec_msg_cdc_hpd_report_state_def

lemmas cdc_ops_defs =
  cec_ops_cdc_hec_inquire_state_def cec_ops_cdc_hec_report_state_def
  cec_ops_cdc_hec_set_state_def cec_ops_cdc_hec_set_state_adjacent_def
  cec_ops_cdc_hec_request_deactivation_def cec_ops_cdc_hec_notify_alive_def
  cec_ops_cdc_hec_discover_def cec_ops_cdc_hpd_set_state_def cec_ops_cdc_hpd_report_state_def

section \<open>Commands\<close>

datatype cdc_body =
    Hec_Inquire_State u16 u16
  | Hec_Report_State u16 u8 u8 u8 u8 "u16 option"
  | Hec_Set_State u16 u16 u8 u16 u16 u16
  | Hec_Set_State_Adjacent u16 u8
  | Hec_Request_Deactivation u16 u16 u16
  | Hec_Notify_Alive
  | Hec_Discover
  | Hpd_Set_State u8 u8
  | Hpd_Report_State u8 u8

datatype cdc_cmd = Cdc u16 cdc_body

fun cdc_build :: "cec_msg \<Rightarrow> cdc_body \<Rightarrow> cec_msg option" where
  "cdc_build m (Hec_Inquire_State a b) = cec_msg_cdc_hec_inquire_state m a b"
| "cdc_build m (Hec_Report_State t hec host enc err fld) =
     cec_msg_cdc_hec_report_state m t hec host enc err
       (if fld = None then 0 else 1) (case fld of None \<Rightarrow> 0 | Some f \<Rightarrow> f)"
| "cdc_build m (Hec_Set_State a b s c d e) = cec_msg_cdc_hec_set_state m a b s c d e"
| "cdc_build m (Hec_Set_State_Adjacent a s) = cec_msg_cdc_hec_set_state_adjacent m a s"
| "cdc_build m (Hec_Request_Deactivation a b c) = cec_msg_cdc_hec_request_deactivation m a b c"
| "cdc_build m Hec_Notify_Alive = cec_msg_cdc_hec_notify_alive m"
| "cdc_build m Hec_Discover = cec_msg_cdc_hec_discover m"
| "cdc_build m (Hpd_Set_State p s) = cec_msg_cdc_hpd_set_state m p s"
| "cdc_build m (Hpd_Report_State s e) = cec_msg_cdc_hpd_report_state m s e"

text \<open>A command is built and then handed to the framework with the sender's physical address.\<close>

fun cdc_send :: "(u16 \<Rightarrow> cec_msg \<Rightarrow> cec_msg) \<Rightarrow> cec_msg \<Rightarrow> c_int \<Rightarrow> cdc_cmd \<Rightarrow> cec_msg option" where
  "cdc_send fill m r (Cdc pa b) = do { m \<leftarrow> cdc_build m b; Some (fill pa m) }"

fun cdc_tail :: "u16 list \<Rightarrow> u8 list" where
  "cdc_tail [] = []"
| "cdc_tail (a # as) = (if a = CEC_PHYS_ADDR_INVALID then [] else hi8 a # lo8 a # cdc_tail as)"

text \<open>
  The operands the code sends. For \<open>Hec_Set_State\<close> these start with the second opcode of an inquiry,
  as in the source, and not with \<open>CEC_MSG_CDC_HEC_SET_STATE\<close>.
\<close>

fun cdc_operands :: "cdc_body \<Rightarrow> u8 list" where
  "cdc_operands (Hec_Inquire_State a b) =
     [CEC_MSG_CDC_HEC_INQUIRE_STATE, hi8 a, lo8 a, hi8 b, lo8 b]"
| "cdc_operands (Hec_Report_State t hec host enc err fld) =
     [CEC_MSG_CDC_HEC_REPORT_STATE, hi8 t, lo8 t,
      push_bit 6 hec OR push_bit 4 host OR push_bit 2 enc OR err] @
     (case fld of None \<Rightarrow> [] | Some f \<Rightarrow> [hi8 f, lo8 f])"
| "cdc_operands (Hec_Set_State a b s c d e) =
     [CEC_MSG_CDC_HEC_INQUIRE_STATE, hi8 a, lo8 a, hi8 b, lo8 b, s] @ cdc_tail [c, d, e]"
| "cdc_operands (Hec_Set_State_Adjacent a s) =
     [CEC_MSG_CDC_HEC_SET_STATE_ADJACENT, hi8 a, lo8 a, s]"
| "cdc_operands (Hec_Request_Deactivation a b c) =
     [CEC_MSG_CDC_HEC_REQUEST_DEACTIVATION, hi8 a, lo8 a, hi8 b, lo8 b, hi8 c, lo8 c]"
| "cdc_operands Hec_Notify_Alive = [CEC_MSG_CDC_HEC_NOTIFY_ALIVE]"
| "cdc_operands Hec_Discover = [CEC_MSG_CDC_HEC_DISCOVER]"
| "cdc_operands (Hpd_Set_State p s) = [CEC_MSG_CDC_HPD_SET_STATE, push_bit 4 p OR s]"
| "cdc_operands (Hpd_Report_State s e) = [CEC_MSG_CDC_HPD_REPORT_STATE, push_bit 4 s OR e]"

fun cdc_spec :: "c_int \<Rightarrow> cdc_cmd \<Rightarrow> wire" where
  "cdc_spec r (Cdc pa b) = announce CEC_MSG_CDC_MESSAGE (hi8 pa # lo8 pa # cdc_operands b)"

definition cdc_parse :: "cec_msg \<Rightarrow> u8 \<Rightarrow> cdc_cmd received option" where
  "cdc_parse m c =
     (if c = CEC_MSG_CDC_HEC_INQUIRE_STATE then
        map_option (\<lambda>(pa, a, b). Recognised (Cdc pa (Hec_Inquire_State a b)))
          (cec_ops_cdc_hec_inquire_state m)
      else if c = CEC_MSG_CDC_HEC_REPORT_STATE then
        map_option (\<lambda>(pa, t, hec, host, enc, err, has, f).
            Recognised (Cdc pa (Hec_Report_State t hec host enc err (if has = 0 then None else Some f))))
          (cec_ops_cdc_hec_report_state m)
      else if c = CEC_MSG_CDC_HEC_SET_STATE then
        map_option (\<lambda>(pa, a, b, s, c, d, e). Recognised (Cdc pa (Hec_Set_State a b s c d e)))
          (cec_ops_cdc_hec_set_state m)
      else if c = CEC_MSG_CDC_HEC_SET_STATE_ADJACENT then
        map_option (\<lambda>(pa, a, s). Recognised (Cdc pa (Hec_Set_State_Adjacent a s)))
          (cec_ops_cdc_hec_set_state_adjacent m)
      else if c = CEC_MSG_CDC_HEC_REQUEST_DEACTIVATION then
        map_option (\<lambda>(pa, a, b, c). Recognised (Cdc pa (Hec_Request_Deactivation a b c)))
          (cec_ops_cdc_hec_request_deactivation m)
      else if c = CEC_MSG_CDC_HEC_NOTIFY_ALIVE then
        map_option (\<lambda>pa. Recognised (Cdc pa Hec_Notify_Alive)) (cec_ops_cdc_hec_notify_alive m)
      else if c = CEC_MSG_CDC_HEC_DISCOVER then
        map_option (\<lambda>pa. Recognised (Cdc pa Hec_Discover)) (cec_ops_cdc_hec_discover m)
      else if c = CEC_MSG_CDC_HPD_SET_STATE then
        map_option (\<lambda>(pa, p, s). Recognised (Cdc pa (Hpd_Set_State p s)))
          (cec_ops_cdc_hpd_set_state m)
      else if c = CEC_MSG_CDC_HPD_REPORT_STATE then
        map_option (\<lambda>(pa, s, e). Recognised (Cdc pa (Hpd_Report_State s e)))
          (cec_ops_cdc_hpd_report_state m)
      else Some Unrecognised)"

definition cdc_recv :: "cec_msg \<Rightarrow> cdc_cmd received option" where
  "cdc_recv m = do {
     op \<leftarrow> cec_msg_opcode m;
     if op = uint CEC_MSG_CDC_MESSAGE then do { c \<leftarrow> get m 4; cdc_parse m c }
     else Some Unrecognised }"

definition cdc_opcodes :: "u8 list" where
  "cdc_opcodes =
     [CEC_MSG_CDC_MESSAGE]"

text \<open>Operands that fit: the states and the error code of a report have two bits, HPD fields four.\<close>

fun body_fits :: "cdc_body \<Rightarrow> bool" where
  "body_fits (Hec_Report_State t hec host enc err fld) \<longleftrightarrow>
     hec < 4 \<and> host < 4 \<and> enc < 4 \<and> err < 4"
| "body_fits (Hpd_Set_State p s) \<longleftrightarrow> p < 16 \<and> s < 16"
| "body_fits (Hpd_Report_State s e) \<longleftrightarrow> s < 16 \<and> e < 16"
| "body_fits b \<longleftrightarrow> True"

fun cdc_fits :: "cdc_cmd \<Rightarrow> bool" where
  "cdc_fits (Cdc pa b) \<longleftrightarrow> body_fits b"

text \<open>
  Two commands are taken for others: the parser of a report reads the encoder state from the bits of
  the host state, and a set-state request goes out under the second opcode of an inquiry.
\<close>

fun body_heard :: "cdc_body \<Rightarrow> cdc_body" where
  "body_heard (Hec_Report_State t hec host enc err fld) = Hec_Report_State t hec host host err fld"
| "body_heard (Hec_Set_State a b s c d e) = Hec_Inquire_State a b"
| "body_heard b = b"

fun cdc_heard :: "cdc_cmd \<Rightarrow> cdc_cmd" where
  "cdc_heard (Cdc pa b) = Cdc pa (body_heard b)"

fun body_garbled :: "cdc_body \<Rightarrow> bool" where
  "body_garbled (Hec_Report_State t hec host enc err fld) \<longleftrightarrow> enc \<noteq> host"
| "body_garbled (Hec_Set_State a b s c d e) \<longleftrightarrow> True"
| "body_garbled b \<longleftrightarrow> False"

fun cdc_garbled :: "cdc_cmd \<Rightarrow> bool" where
  "cdc_garbled (Cdc pa b) \<longleftrightarrow> body_garbled b"

lemma cdc_heard_exact: "cdc_heard c = c \<longleftrightarrow> \<not> cdc_garbled c"
proof (cases c)
  case (Cdc pa b)
  then show ?thesis by (cases b) auto
qed

section \<open>The framework\<close>

locale cdc_framework =
  fixes fill :: "u16 \<Rightarrow> cec_msg \<Rightarrow> cec_msg"
  assumes fills_address:
    "wf_msg m \<Longrightarrow> fill pa m = m\<lparr>msg := (msg m)[2 := hi8 pa, 3 := lo8 pa]\<rparr>"

text \<open>A function with that law.\<close>

definition fill_address :: "u16 \<Rightarrow> cec_msg \<Rightarrow> cec_msg" where
  "fill_address pa m = m\<lparr>msg := (msg m)[2 := hi8 pa, 3 := lo8 pa]\<rparr>"

lemma fill_address_framework: "cdc_framework fill_address"
  by unfold_locales (simp add: fill_address_def)

section \<open>Codec\<close>

lemma set_state_carries:
  assumes "wf_msg m"
  shows "\<exists>x. cec_msg_cdc_hec_set_state m a b s c d e = Some x \<and>
    carries x ([header True m, CEC_MSG_CDC_MESSAGE, msg m ! 2, msg m ! 3,
      CEC_MSG_CDC_HEC_INQUIRE_STATE, hi8 a, lo8 a, hi8 b, lo8 b, s] @ cdc_tail [c, d, e])"
  using assms unfolding wf_msg_16
  by (auto simp: cec_msg_cdc_hec_set_state_def refines_simps)

text \<open>Behind every builder the framework finds a well-formed message.\<close>

lemma cdc_build_wf:
  assumes "wf_msg m" and "cdc_build m b = Some x"
  shows "wf_msg x"
proof (cases b)
  case (Hec_Set_State p q s c d e)
  then show ?thesis
    using set_state_carries [OF assms(1), of p q s c d e] assms(2) by (auto dest: carries_wf)
qed (use assms in \<open>auto simp: wf_msg_16 [of m] cdc_msg_defs mem_defs wf_msg_def Let_def
    CEC_MAX_MSG_SIZE_def split: if_splits option.splits\<close>)

lemma set_state_refines:
  assumes "wf_msg m"
  shows "\<exists>x. cdc_send fill_address m r (Cdc pa (Hec_Set_State a b s c d e)) = Some x \<and>
    implements m (cdc_spec r (Cdc pa (Hec_Set_State a b s c d e))) x"
  using assms unfolding wf_msg_16
  by (auto simp: cec_msg_cdc_hec_set_state_def fill_address_def refines_simps)

lemma fill_address_refines:
  assumes "wf_msg m"
  shows "\<exists>x. cdc_send fill_address m r c = Some x \<and> implements m (cdc_spec r c) x"
proof (cases c)
  case (Cdc pa b)
  show ?thesis
  proof (cases b)
    case (Hec_Set_State a b s c d e)
    then show ?thesis using set_state_refines [OF assms] Cdc by simp
  next
    case (Hec_Report_State t hec host enc err fld)
    then show ?thesis
      using Cdc assms unfolding wf_msg_16
      by (cases fld) (auto simp: cdc_msg_defs fill_address_def refines_simps)
  qed (use Cdc assms in \<open>auto simp: wf_msg_16 cdc_msg_defs fill_address_def refines_simps\<close>)
qed

context cdc_framework
begin

text \<open>On what the builders hand over, every framework does the same.\<close>

lemma send_fill_address:
  assumes "wf_msg m"
  shows "cdc_send fill m r c = cdc_send fill_address m r c"
proof (cases c)
  case (Cdc pa b)
  show ?thesis
    using Cdc cdc_build_wf [OF assms, of b]
    by (cases "cdc_build m b") (simp_all add: fills_address fill_address_def)
qed

lemma cdc_refines:
  "wf_msg m \<Longrightarrow> \<exists>x. cdc_send fill m r c = Some x \<and> implements m (cdc_spec r c) x"
  by (simp add: send_fill_address fill_address_refines)

end

lemma cdc_recv_safe:
  assumes "wf_msg m"
  shows "\<exists>p. cdc_recv m = Some p"
  unfolding cdc_recv_def
  by (intro opcode_bind_safe) (simp_all add: assms cdc_parse_def cdc_ops_defs c_mem Let_def)

lemma report_byte:
  assumes "hec < 4" and "host < 4" and "enc < 4" and "err < 4"
  defines "b \<equiv> push_bit 6 hec OR push_bit 4 host OR push_bit 2 enc OR (err :: u8)"
  shows "drop_bit 6 b = hec" and "drop_bit 4 b AND 3 = host" and "b AND 3 = err"
proof -
  have "list_all (\<lambda>x. list_all (\<lambda>y. list_all (\<lambda>z. list_all (\<lambda>w.
      let b = push_bit 6 x OR push_bit 4 y OR push_bit 2 w OR (z :: u8) in
      drop_bit 6 b = x \<and> drop_bit 4 b AND 3 = y \<and> b AND 3 = z) (map word_of_nat [0..<4]))
    (map word_of_nat [0..<4])) (map word_of_nat [0..<4])) (map word_of_nat [0..<4])"
    by code_simp
  from u8_table [OF u8_table [OF u8_table [OF u8_table [OF this, of hec], of host], of err], of enc]
  show "drop_bit 6 b = hec" and "drop_bit 4 b AND 3 = host" and "b AND 3 = err"
    using assms(1-4) unfolding b_def by (simp_all add: word_less_nat_alt Let_def)
qed

lemma cdc_recv_wire:
  assumes "cdc_fits c" and "carries y (h # w_opcode (cdc_spec r c) # w_operands (cdc_spec r c))"
  shows "cdc_recv y = Some (Recognised (cdc_heard c))"
proof (cases c)
  case (Cdc pa b)
  note facts = carries_opcode [OF assms(2)] carries_get [OF assms(2)] carries_len [OF assms(2)]
  show ?thesis
  proof (cases b)
    case (Hec_Report_State t hec host enc err fld)
    then show ?thesis
      using Cdc assms(1) facts report_byte [of hec host enc err]
      by (cases fld) (simp_all add: cdc_recv_def cdc_parse_def cdc_ops_defs get16_def wire_defs
        c_consts Let_def del: drop_bit_or)
  qed (use Cdc assms(1) facts nibbles in \<open>simp_all add: cdc_recv_def cdc_parse_def cdc_ops_defs
      get16_def wire_defs c_consts Let_def del: drop_bit_or\<close>)
qed

lemma cdc_opcode: "w_opcode (cdc_spec r c) \<in> set cdc_opcodes"
  by (cases c) (simp_all add: cdc_opcodes_def wire_defs)

lemma cdc_recv_other:
  "cec_msg_opcode m = Some op \<Longrightarrow> op \<notin> uint ` set cdc_opcodes \<Longrightarrow> cdc_recv m = Some Unrecognised"
  by (simp add: cdc_recv_def cdc_opcodes_def)

sublocale cdc_framework \<subseteq> cdc: cec_feature "cdc_send fill" cdc_spec cdc_recv cdc_fits cdc_heard
    cdc_opcodes
  by unfold_locales (simp_all add: cdc_refines cdc_recv_safe cdc_recv_wire cdc_opcode cdc_recv_other)

section \<open>Operands\<close>

text \<open>
  C26. The builder of the HEC set-state message writes the second opcode
  of an inquiry, so a receiver takes every set-state request for an inquiry about its first two
  addresses.
\<close>

theorem cdc_set_state_is_inquiry:
  assumes "cdc_framework fill" and "wf_msg m"
  shows "\<exists>x. cdc_send fill m r (Cdc pa (Hec_Set_State a b s c d e)) = Some x \<and>
    cdc_recv x = Some (Recognised (Cdc pa (Hec_Inquire_State a b)))"
proof -
  obtain x where x: "cdc_send fill m r (Cdc pa (Hec_Set_State a b s c d e)) = Some x"
    and "implements m (cdc_spec r (Cdc pa (Hec_Set_State a b s c d e))) x"
    using cdc_framework.cdc_refines [OF assms] by blast
  then have f: "carries x (header True m # CEC_MSG_CDC_MESSAGE # hi8 pa # lo8 pa #
      CEC_MSG_CDC_HEC_INQUIRE_STATE # hi8 a # lo8 a # hi8 b # lo8 b # s # cdc_tail [c, d, e])"
    by (simp add: implements_def frame_of_def wire_defs)
  show ?thesis
    using x carries_opcode [OF f] carries_get [OF f]
    by (simp add: cdc_recv_def cdc_parse_def cec_ops_cdc_hec_inquire_state_def get16_def
        del: cdc_tail.simps cdc_send.simps)
qed

theorem cdc_set_state_is_inquiry_witness:
  "\<exists>x. cdc_send fill_address zero_msg 0
      (Cdc 0x1000 (Hec_Set_State 0x1100 0x1200 1 0xffff 0xffff 0xffff)) = Some x \<and>
    cdc_recv x = Some (Recognised (Cdc 0x1000 (Hec_Inquire_State 0x1100 0x1200)))"
  by (rule cdc_set_state_is_inquiry [OF fill_address_framework]) (simp add: wf_msg_def zero_msg_def)

text \<open>
  Read by its own parser, the set-state message has its operands: two
  addresses, the state, and the list of up to three further addresses, which ends at the first
  invalid one.
\<close>

theorem cdc_set_state_operands:
  assumes "wf_msg m"
  shows "\<exists>x. cec_msg_cdc_hec_set_state m a b s c d e = Some x \<and>
    cec_ops_cdc_hec_set_state x = Some (be16 (msg m ! 2) (msg m ! 3), a, b, s, c,
      (if c = CEC_PHYS_ADDR_INVALID then CEC_PHYS_ADDR_INVALID else d),
      (if c = CEC_PHYS_ADDR_INVALID \<or> d = CEC_PHYS_ADDR_INVALID then CEC_PHYS_ADDR_INVALID else e))"
proof -
  obtain x where x: "cec_msg_cdc_hec_set_state m a b s c d e = Some x"
    and f: "carries x ([header True m, CEC_MSG_CDC_MESSAGE, msg m ! 2, msg m ! 3,
      CEC_MSG_CDC_HEC_INQUIRE_STATE, hi8 a, lo8 a, hi8 b, lo8 b, s] @ cdc_tail [c, d, e])"
    using set_state_carries [OF assms] by blast
  show ?thesis
    using x carries_get [OF f] carries_len [OF f]
    by (cases "c = CEC_PHYS_ADDR_INVALID"; cases "d = CEC_PHYS_ADDR_INVALID";
        cases "e = CEC_PHYS_ADDR_INVALID")
      (simp_all add: cec_ops_cdc_hec_set_state_def get16_def)
qed

theorem cdc_set_state_operands_witness:
  "\<exists>x. cec_msg_cdc_hec_set_state zero_msg 1 2 3 4 0xffff 6 = Some x \<and>
    cec_ops_cdc_hec_set_state x = Some (0, 1, 2, 3, 4, 0xffff, 0xffff)"
  using cdc_set_state_operands [of zero_msg 1 2 3 4 "0xffff" 6]
  by (simp add: wf_msg_def zero_msg_def CEC_MAX_MSG_SIZE_def CEC_PHYS_ADDR_INVALID_def be16_def)

text \<open>
  C27. The parser of the HEC state report returns the host state in
  place of the encoder state: the encoder state the sender put into bits 2 and 3 is lost. The other
  operands come back, with and without the optional HEC field.
\<close>

theorem cdc_report_state_encoder:
  assumes "wf_msg m" and "hec < 4" and "host < 4" and "enc < 4" and "err < 4"
  shows "\<exists>x. cec_msg_cdc_hec_report_state m t hec host enc err has_field hec_field = Some x \<and>
    cec_ops_cdc_hec_report_state x =
      Some (be16 (msg m ! 2) (msg m ! 3), t, hec, host, host, err,
        (if has_field = 0 then 0 else 1), (if has_field = 0 then 0 else hec_field))"
  using assms(1) report_byte [OF assms(2-5)] unfolding wf_msg_16
  by (auto simp: cec_msg_cdc_hec_report_state_def cec_ops_cdc_hec_report_state_def mem_defs Let_def
      simp del: drop_bit_or)

theorem cdc_report_state_encoder_witness:
  "\<exists>x. cec_msg_cdc_hec_report_state zero_msg 0x1000 1 2 3 0 1 0xf0f0 = Some x \<and>
    cec_ops_cdc_hec_report_state x = Some (0, 0x1000, 1, 2, 2, 0, 1, 0xf0f0)"
  using cdc_report_state_encoder [of zero_msg 1 2 3 0 "0x1000" 1 "0xf0f0"]
  by (simp add: wf_msg_def zero_msg_def CEC_MAX_MSG_SIZE_def be16_def)

end
