(* ===== verification/Cec_Bus.thy ===== *)
theory Cec_Bus
  imports Cec_Routing Cec_Timer Cec_System Cec_Tuner Cec_Vendor Cec_Osd Cec_General Cec_Audio Cec_Cdc
begin

text \<open>
  All features of \<open>sysincludes/linux/cec-funcs.h\<close> on one bus: the opcodes of the features are
  disjoint, so a receiver that asks them one after the other finds the parser of every command.
  Asking them in turn stands for the application's switch on the opcode, which the header leaves to
  its users. The framework that fills in the address of a CDC message stays a parameter.
\<close>

type_synonym cec_cmd = "routing_cmd + record_cmd + timer_cmd + system_cmd + tuner_cmd +
  vendor_cmd + osd_cmd + general_cmd + audio_cmd + cdc_cmd"

definition cec_send :: "(u16 \<Rightarrow> cec_msg \<Rightarrow> cec_msg) \<Rightarrow> cec_msg \<Rightarrow> c_int \<Rightarrow> cec_cmd \<Rightarrow> cec_msg option" where
  "cec_send fill = both_send routing_send (both_send record_send (both_send timer_send
     (both_send system_send (both_send tuner_send (both_send vendor_send (both_send osd_send
     (both_send general_send (both_send audio_send (cdc_send fill)))))))))"

definition cec_spec :: "c_int \<Rightarrow> cec_cmd \<Rightarrow> wire" where
  "cec_spec = both_spec routing_spec (both_spec record_spec (both_spec timer_spec
     (both_spec system_spec (both_spec tuner_spec (both_spec vendor_spec (both_spec osd_spec
     (both_spec general_spec (both_spec audio_spec cdc_spec))))))))"

definition cec_recv :: "cec_msg \<Rightarrow> cec_cmd received option" where
  "cec_recv = both_recv routing_recv (both_recv record_recv (both_recv timer_recv
     (both_recv system_recv (both_recv tuner_recv (both_recv vendor_recv (both_recv osd_recv
     (both_recv general_recv (both_recv audio_recv cdc_recv))))))))"

definition cec_fits :: "cec_cmd \<Rightarrow> bool" where
  "cec_fits = case_sum (\<lambda>_. True) (case_sum record_fits (case_sum timer_cmd_fits (case_sum system_fits
     (case_sum tuner_fits (case_sum vendor_fits (case_sum osd_fits (case_sum general_fits
     (case_sum audio_fits cdc_fits))))))))"

text \<open>What a receiver makes of a command, and the commands it takes for another.\<close>

definition cec_heard :: "cec_cmd \<Rightarrow> cec_cmd" where
  "cec_heard = map_sum (\<lambda>c. c) (map_sum record_heard (map_sum timer_cmd_heard (map_sum (\<lambda>c. c)
     (map_sum tuner_heard (map_sum (\<lambda>c. c) (map_sum osd_heard (map_sum (\<lambda>c. c)
     (map_sum (\<lambda>c. c) cdc_heard))))))))"

definition cec_garbled :: "cec_cmd \<Rightarrow> bool" where
  "cec_garbled = case_sum (\<lambda>_. False) (case_sum record_garbled (case_sum timer_cmd_garbled
     (case_sum (\<lambda>_. False) (case_sum tuner_garbled (case_sum (\<lambda>_. False) (case_sum osd_garbled
     (case_sum (\<lambda>_. False) (case_sum (\<lambda>_. False) cdc_garbled))))))))"

definition cec_opcodes :: "u8 list" where
  "cec_opcodes = routing_opcodes @ record_opcodes @ timer_opcodes @ system_opcodes @
     tuner_opcodes @ vendor_opcodes @ osd_opcodes @ general_opcodes @ audio_opcodes @ cdc_opcodes"

lemmas opcode_lists =
  routing_opcodes_def record_opcodes_def timer_opcodes_def system_opcodes_def tuner_opcodes_def
  vendor_opcodes_def osd_opcodes_def general_opcodes_def audio_opcodes_def cdc_opcodes_def

section \<open>One feature after the other\<close>

sublocale cdc_framework \<subseteq> bus2: cec_two audio_send audio_spec audio_recv audio_fits
    "\<lambda>c. c" audio_opcodes
    "cdc_send fill" cdc_spec cdc_recv cdc_fits cdc_heard cdc_opcodes
  by unfold_locales (simp add: opcode_lists c_consts)

sublocale cdc_framework \<subseteq> bus3: cec_two general_send general_spec general_recv
    general_fits "\<lambda>c. c" general_opcodes
    "both_send audio_send (cdc_send fill)"
    "both_spec audio_spec cdc_spec"
    "both_recv audio_recv cdc_recv"
    "case_sum audio_fits cdc_fits"
    "map_sum (\<lambda>c. c) cdc_heard"
    "audio_opcodes @ cdc_opcodes"
  by unfold_locales (simp add: opcode_lists c_consts)

sublocale cdc_framework \<subseteq> bus4: cec_two osd_send osd_spec osd_recv osd_fits osd_heard
    osd_opcodes
    "both_send general_send (both_send audio_send (cdc_send fill))"
    "both_spec general_spec (both_spec audio_spec cdc_spec)"
    "both_recv general_recv (both_recv audio_recv cdc_recv)"
    "case_sum general_fits (case_sum audio_fits cdc_fits)"
    "map_sum (\<lambda>c. c) (map_sum (\<lambda>c. c) cdc_heard)"
    "general_opcodes @ audio_opcodes @ cdc_opcodes"
  by unfold_locales (simp add: opcode_lists c_consts)

sublocale cdc_framework \<subseteq> bus5: cec_two vendor_send vendor_spec vendor_recv
    vendor_fits "\<lambda>c. c" vendor_opcodes
    "both_send osd_send (both_send general_send (both_send audio_send (cdc_send fill)))"
    "both_spec osd_spec (both_spec general_spec (both_spec audio_spec cdc_spec))"
    "both_recv osd_recv (both_recv general_recv (both_recv audio_recv cdc_recv))"
    "case_sum osd_fits (case_sum general_fits (case_sum audio_fits cdc_fits))"
    "map_sum osd_heard (map_sum (\<lambda>c. c) (map_sum (\<lambda>c. c) cdc_heard))"
    "osd_opcodes @ general_opcodes @ audio_opcodes @ cdc_opcodes"
  by unfold_locales (simp add: opcode_lists c_consts)

sublocale cdc_framework \<subseteq> bus6: cec_two tuner_send tuner_spec tuner_recv tuner_fits
    tuner_heard tuner_opcodes
    "both_send vendor_send (both_send osd_send (both_send general_send (both_send audio_send
      (cdc_send fill))))"
    "both_spec vendor_spec (both_spec osd_spec (both_spec general_spec (both_spec audio_spec
      cdc_spec)))"
    "both_recv vendor_recv (both_recv osd_recv (both_recv general_recv (both_recv audio_recv
      cdc_recv)))"
    "case_sum vendor_fits (case_sum osd_fits (case_sum general_fits (case_sum audio_fits
      cdc_fits)))"
    "map_sum (\<lambda>c. c) (map_sum osd_heard (map_sum (\<lambda>c. c) (map_sum (\<lambda>c.
      c) cdc_heard)))"
    "vendor_opcodes @ osd_opcodes @ general_opcodes @ audio_opcodes @ cdc_opcodes"
  by unfold_locales (simp add: opcode_lists c_consts)

sublocale cdc_framework \<subseteq> bus7: cec_two system_send system_spec system_recv
    system_fits "\<lambda>c. c" system_opcodes
    "both_send tuner_send (both_send vendor_send (both_send osd_send (both_send general_send
      (both_send audio_send (cdc_send fill)))))"
    "both_spec tuner_spec (both_spec vendor_spec (both_spec osd_spec (both_spec general_spec
      (both_spec audio_spec cdc_spec))))"
    "both_recv tuner_recv (both_recv vendor_recv (both_recv osd_recv (both_recv general_recv
      (both_recv audio_recv cdc_recv))))"
    "case_sum tuner_fits (case_sum vendor_fits (case_sum osd_fits (case_sum general_fits
      (case_sum audio_fits cdc_fits))))"
    "map_sum tuner_heard (map_sum (\<lambda>c. c) (map_sum osd_heard (map_sum (\<lambda>c. c)
      (map_sum (\<lambda>c. c) cdc_heard))))"
    "tuner_opcodes @ vendor_opcodes @ osd_opcodes @ general_opcodes @ audio_opcodes @
      cdc_opcodes"
  by unfold_locales (simp add: opcode_lists c_consts)

sublocale cdc_framework \<subseteq> bus8: cec_two timer_send timer_spec timer_recv
    timer_cmd_fits timer_cmd_heard timer_opcodes
    "both_send system_send (both_send tuner_send (both_send vendor_send (both_send osd_send
      (both_send general_send (both_send audio_send (cdc_send fill))))))"
    "both_spec system_spec (both_spec tuner_spec (both_spec vendor_spec (both_spec osd_spec
      (both_spec general_spec (both_spec audio_spec cdc_spec)))))"
    "both_recv system_recv (both_recv tuner_recv (both_recv vendor_recv (both_recv osd_recv
      (both_recv general_recv (both_recv audio_recv cdc_recv)))))"
    "case_sum system_fits (case_sum tuner_fits (case_sum vendor_fits (case_sum osd_fits
      (case_sum general_fits (case_sum audio_fits cdc_fits)))))"
    "map_sum (\<lambda>c. c) (map_sum tuner_heard (map_sum (\<lambda>c. c) (map_sum osd_heard
      (map_sum (\<lambda>c. c) (map_sum (\<lambda>c. c) cdc_heard)))))"
    "system_opcodes @ tuner_opcodes @ vendor_opcodes @ osd_opcodes @ general_opcodes @
      audio_opcodes @ cdc_opcodes"
  by unfold_locales (simp add: opcode_lists c_consts)

sublocale cdc_framework \<subseteq> bus9: cec_two record_send record_spec record_recv
    record_fits record_heard record_opcodes
    "both_send timer_send (both_send system_send (both_send tuner_send (both_send vendor_send
      (both_send osd_send (both_send general_send (both_send audio_send (cdc_send fill)))))))"
    "both_spec timer_spec (both_spec system_spec (both_spec tuner_spec (both_spec vendor_spec
      (both_spec osd_spec (both_spec general_spec (both_spec audio_spec cdc_spec))))))"
    "both_recv timer_recv (both_recv system_recv (both_recv tuner_recv (both_recv vendor_recv
      (both_recv osd_recv (both_recv general_recv (both_recv audio_recv cdc_recv))))))"
    "case_sum timer_cmd_fits (case_sum system_fits (case_sum tuner_fits (case_sum vendor_fits
      (case_sum osd_fits (case_sum general_fits (case_sum audio_fits cdc_fits))))))"
    "map_sum timer_cmd_heard (map_sum (\<lambda>c. c) (map_sum tuner_heard (map_sum
      (\<lambda>c. c) (map_sum osd_heard (map_sum (\<lambda>c. c) (map_sum (\<lambda>c. c)
      cdc_heard))))))"
    "timer_opcodes @ system_opcodes @ tuner_opcodes @ vendor_opcodes @ osd_opcodes @
      general_opcodes @ audio_opcodes @ cdc_opcodes"
  by unfold_locales (simp add: opcode_lists c_consts)

sublocale cdc_framework \<subseteq> bus10: cec_two routing_send routing_spec routing_recv
    "\<lambda>_. True" "\<lambda>c. c" routing_opcodes
    "both_send record_send (both_send timer_send (both_send system_send (both_send tuner_send
      (both_send vendor_send (both_send osd_send (both_send general_send (both_send audio_send
      (cdc_send fill))))))))"
    "both_spec record_spec (both_spec timer_spec (both_spec system_spec (both_spec tuner_spec
      (both_spec vendor_spec (both_spec osd_spec (both_spec general_spec (both_spec audio_spec
      cdc_spec)))))))"
    "both_recv record_recv (both_recv timer_recv (both_recv system_recv (both_recv tuner_recv
      (both_recv vendor_recv (both_recv osd_recv (both_recv general_recv (both_recv audio_recv
      cdc_recv)))))))"
    "case_sum record_fits (case_sum timer_cmd_fits (case_sum system_fits (case_sum tuner_fits
      (case_sum vendor_fits (case_sum osd_fits (case_sum general_fits (case_sum audio_fits
      cdc_fits)))))))"
    "map_sum record_heard (map_sum timer_cmd_heard (map_sum (\<lambda>c. c) (map_sum
      tuner_heard (map_sum (\<lambda>c. c) (map_sum osd_heard (map_sum (\<lambda>c. c) (map_sum
      (\<lambda>c. c) cdc_heard)))))))"
    "record_opcodes @ timer_opcodes @ system_opcodes @ tuner_opcodes @ vendor_opcodes @
      osd_opcodes @ general_opcodes @ audio_opcodes @ cdc_opcodes"
  by unfold_locales (simp add: opcode_lists c_consts)

sublocale cdc_framework \<subseteq> bus: cec_feature "cec_send fill" cec_spec cec_recv cec_fits cec_heard
    cec_opcodes
  unfolding cec_send_def cec_spec_def cec_recv_def cec_fits_def cec_heard_def cec_opcodes_def
  by (rule bus10.both.cec_feature_axioms)

context cdc_framework
begin

lemmas bus_refines = bus.build_refines
lemmas bus_addresses = bus.build_addresses

lemma bus_transmission:
  assumes "wf_msg m" and "cec_fits c"
  shows "\<exists>x. cec_send fill m r c = Some x \<and> unat (len x) \<le> CEC_MAX_MSG_SIZE \<and>
    (\<forall>y. wf_msg y \<and> len y = len x \<and> take (unat (len x)) (msg y) = take (unat (len x)) (msg x) \<longrightarrow>
      cec_recv y = Some (Recognised (cec_heard c)))"
proof -
  obtain x where x: "cec_send fill m r c = Some x" and i: "implements m (cec_spec r c) x"
    using bus.build_refines [OF assms(1)] by blast
  have f: "carries x (frame_of m (cec_spec r c))"
    using i by (simp add: implements_def)
  have "cec_recv y = Some (Recognised (cec_heard c))"
    if "wf_msg y" "len y = len x" "take (unat (len x)) (msg y) = take (unat (len x)) (msg x)" for y
  proof (rule bus.transmit [OF assms x])
    show "carries y (frame_of m (cec_spec r c))"
      using f that carries_unat_len [OF f] by (simp add: carries_def)
  qed
  then show ?thesis
    using x bus.build_fits [OF assms(1) x] by blast
qed

end

interpretation filler: cdc_framework fill_address
  by (rule fill_address_framework)

section \<open>The bus\<close>

lemma cec_fits_simps:
  "cec_fits (Inl a)" "cec_fits (Inr (Inl b)) = record_fits b" "cec_fits (Inr (Inr (Inl c))) = timer_cmd_fits c"
  "cec_fits (Inr (Inr (Inr (Inl d)))) = system_fits d"
  by (simp_all add: cec_fits_def)

lemma sum_heard_exact: "map_sum f g x = x \<longleftrightarrow> case_sum (\<lambda>a. f a = a) (\<lambda>b. g b = b) x"
  by (cases x) simp_all

lemma cec_heard_exact:
  assumes "cec_fits c"
  shows "cec_heard c = c \<longleftrightarrow> \<not> cec_garbled c"
  using assms unfolding cec_fits_def cec_heard_def cec_garbled_def sum_heard_exact
  by (auto simp: record_heard_exact timer_cmd_heard_exact tuner_heard_exact osd_heard_exact
      cdc_heard_exact split: sum.splits)

text \<open>
  C1. A command whose operands fit their fields can be built in every message,
  its frame has at most 16 bytes, and whoever receives the bytes of that frame, in a structure
  with whatever else in it, reads the command \<open>cec_heard c\<close>. This is the command that was sent,
  except for exactly four kinds: digital services and key presses with a major channel number above
  255, HEC state reports whose encoder and host states differ, and HEC set-state requests.
\<close>

theorem cec_transmission:
  assumes "cdc_framework fill" and "wf_msg m" and "cec_fits c"
  shows "(\<exists>x. cec_send fill m r c = Some x \<and> unat (len x) \<le> CEC_MAX_MSG_SIZE \<and>
    (\<forall>y. wf_msg y \<and> len y = len x \<and> take (unat (len x)) (msg y) = take (unat (len x)) (msg x) \<longrightarrow>
      cec_recv y = Some (Recognised (cec_heard c)))) \<and>
    (cec_heard c = c \<longleftrightarrow> \<not> cec_garbled c)"
  using cdc_framework.bus_transmission [OF assms] cec_heard_exact [OF assms(3)] by blast

theorem cec_transmission_witness:
  "\<exists>x. cec_send fill_address zero_msg 1 (Inr (Inl (Record_On (Digital (By_Channel 1 2 0x123 4))))) = Some x \<and>
    (\<forall>y. wf_msg y \<and> len y = len x \<and> take (unat (len x)) (msg y) = take (unat (len x)) (msg x) \<longrightarrow>
      cec_recv y = Some (Recognised (Inr (Inl (Record_On (Digital (By_Channel 1 2 0x63 4)))))))"
  using cec_transmission [OF fill_address_framework, of zero_msg
      "Inr (Inl (Record_On (Digital (By_Channel 1 2 0x123 4))))" 1]
  by (auto simp: wf_msg_def zero_msg_def cec_fits_simps cec_heard_def fold_major_def hi8_def lo8_def)

text \<open>
  C2. Parsing is memory safe: whatever 16 bytes and whatever length field a received
  message has, dispatching on its opcode and parsing its operands stays inside the payload.
\<close>

theorem cec_recv_total:
  assumes "wf_msg m"
  shows "\<exists>p. cec_recv m = Some p"
  using assms by (rule filler.bus.parse_safe)

theorem cec_recv_total_witness:
  "\<exists>p. cec_recv (zero_msg\<lparr>len := 0xffffffff, msg := 0x4f # CEC_MSG_SET_OSD_STRING # replicate 14 0xff\<rparr>)
    = Some p"
  by (rule cec_recv_total) (simp add: wf_msg_def CEC_MAX_MSG_SIZE_def)

text \<open>
  C5. Every builder implements the abstract frame of its command: it writes
  exactly the opcode and operands after the header, sets the length to match, sets the awaited reply
  if asked for one, and leaves every other field of the message as it was. The frame is the one of
  \<open>cec_spec\<close>, in which an HEC set-state request has the second opcode of an inquiry.
\<close>

theorem cec_send_implements:
  assumes "cdc_framework fill" and "wf_msg m"
  shows "\<exists>x. cec_send fill m r c = Some x \<and> implements m (cec_spec r c) x"
  using assms by (rule cdc_framework.bus_refines)

theorem cec_send_implements_witness:
  "\<exists>x. cec_send fill_address zero_msg 0 (Inr (Inr (Inr (Inr (Inr (Inl (Vendor_Command (replicate 300 7)))))))) = Some x \<and>
    implements zero_msg (cec_spec 0 (Inr (Inr (Inr (Inr (Inr (Inl (Vendor_Command (replicate 300 7))))))))) x"
  by (rule cec_send_implements [OF fill_address_framework]) (simp add: wf_msg_def zero_msg_def)

text \<open>
  C18. Building a message never changes who sends it; it changes the destination
  only to the broadcast address, and only for the commands specified as broadcasts.
\<close>

theorem cec_send_addresses:
  assumes "cdc_framework fill" and "wf_msg m" and "cec_send fill m r c = Some x"
  shows "cec_msg_initiator x = cec_msg_initiator m \<and>
    cec_msg_destination x = (if w_bcast (cec_spec r c) then Some 0xf else cec_msg_destination m)"
  using cdc_framework.bus_addresses [OF assms] by simp

theorem cec_send_addresses_witness:
  "\<exists>x. cec_send fill_address (zero_msg\<lparr>msg := 0x40 # replicate 15 0\<rparr>) 0 (Inl (Active_Source 0x1000)) = Some x \<and>
    cec_msg_initiator x = Some 4 \<and> cec_msg_destination x = Some 0xf"
proof -
  let ?m = "zero_msg\<lparr>msg := 0x40 # replicate 15 0\<rparr>"
  have w: "wf_msg ?m"
    by (simp add: wf_msg_def CEC_MAX_MSG_SIZE_def)
  obtain x where x: "cec_send fill_address ?m 0 (Inl (Active_Source 0x1000)) = Some x"
    using filler.bus.build_refines [OF w] by blast
  from cec_send_addresses [OF fill_address_framework w x] show ?thesis
    using x by (simp add: cec_spec_def wire_defs cec_msg_initiator_def get_def buf_get_def)
qed

end
