(* ===== verification/Cec_Log_Addrs.thy ===== *)
theory Cec_Log_Addrs
  imports Cec_Const
begin

text \<open>
  Logical addresses in \<open>sysincludes/linux/cec.h\<close>: the masks with one bit per logical address and
  the tests on them, \<open>struct cec_log_addrs\<close>, and the functions that classify a device.
\<close>

section \<open>Masks\<close>

text \<open>Logical address masks: one bit per logical address.\<close>

definition CEC_LOG_ADDR_MASK_TV :: c_int where
  "CEC_LOG_ADDR_MASK_TV = push_bit 0 1"

definition CEC_LOG_ADDR_MASK_RECORD :: c_int where
  "CEC_LOG_ADDR_MASK_RECORD = push_bit 1 1 OR push_bit 2 1 OR push_bit 9 1"

definition CEC_LOG_ADDR_MASK_TUNER :: c_int where
  "CEC_LOG_ADDR_MASK_TUNER = push_bit 3 1 OR push_bit 6 1 OR push_bit 7 1 OR push_bit 10 1"

definition CEC_LOG_ADDR_MASK_PLAYBACK :: c_int where
  "CEC_LOG_ADDR_MASK_PLAYBACK = push_bit 4 1 OR push_bit 8 1 OR push_bit 11 1"

definition CEC_LOG_ADDR_MASK_AUDIOSYSTEM :: c_int where
  "CEC_LOG_ADDR_MASK_AUDIOSYSTEM = push_bit 5 1"

definition CEC_LOG_ADDR_MASK_BACKUP :: c_int where
  "CEC_LOG_ADDR_MASK_BACKUP = push_bit 12 1 OR push_bit 13 1"

definition CEC_LOG_ADDR_MASK_SPECIFIC :: c_int where
  "CEC_LOG_ADDR_MASK_SPECIFIC = push_bit 14 1"

definition CEC_LOG_ADDR_MASK_UNREGISTERED :: c_int where
  "CEC_LOG_ADDR_MASK_UNREGISTERED = push_bit 15 1"

definition cec_has_tv :: "u16 \<Rightarrow> c_int" where
  "cec_has_tv log_addr_mask = ucast log_addr_mask AND CEC_LOG_ADDR_MASK_TV"

definition cec_has_record :: "u16 \<Rightarrow> c_int" where
  "cec_has_record log_addr_mask = ucast log_addr_mask AND CEC_LOG_ADDR_MASK_RECORD"

definition cec_has_tuner :: "u16 \<Rightarrow> c_int" where
  "cec_has_tuner log_addr_mask = ucast log_addr_mask AND CEC_LOG_ADDR_MASK_TUNER"

definition cec_has_playback :: "u16 \<Rightarrow> c_int" where
  "cec_has_playback log_addr_mask = ucast log_addr_mask AND CEC_LOG_ADDR_MASK_PLAYBACK"

definition cec_has_audiosystem :: "u16 \<Rightarrow> c_int" where
  "cec_has_audiosystem log_addr_mask = ucast log_addr_mask AND CEC_LOG_ADDR_MASK_AUDIOSYSTEM"

definition cec_has_backup :: "u16 \<Rightarrow> c_int" where
  "cec_has_backup log_addr_mask = ucast log_addr_mask AND CEC_LOG_ADDR_MASK_BACKUP"

definition cec_has_specific :: "u16 \<Rightarrow> c_int" where
  "cec_has_specific log_addr_mask = ucast log_addr_mask AND CEC_LOG_ADDR_MASK_SPECIFIC"

definition cec_is_unregistered :: "u16 \<Rightarrow> c_int" where
  "cec_is_unregistered log_addr_mask = ucast log_addr_mask AND CEC_LOG_ADDR_MASK_UNREGISTERED"

definition cec_is_unconfigured :: "u16 \<Rightarrow> bool" where
  "cec_is_unconfigured log_addr_mask \<longleftrightarrow> log_addr_mask = 0"

text \<open>
  \<open>struct cec_log_addrs\<close>; its field \<open>flags\<close> is \<open>las_flags\<close> here. \<open>features\<close> is the list of its
  rows. The classification functions read element 0 of two arrays of \<open>CEC_MAX_LOG_ADDRS\<close>.
\<close>

record cec_log_addrs =
  log_addr :: "u8 list"
  log_addr_mask :: u16
  cec_version :: u8
  num_log_addrs :: u8
  vendor_id :: u32
  las_flags :: u32
  osd_name :: "u8 list"
  primary_device_type :: "u8 list"
  log_addr_type :: "u8 list"
  all_device_types :: "u8 list"
  features :: "u8 list list"

definition CEC_MAX_LOG_ADDRS :: nat where
  [c_consts]: "CEC_MAX_LOG_ADDRS = 4"

definition wf_log_addrs :: "cec_log_addrs \<Rightarrow> bool" where
  "wf_log_addrs las \<longleftrightarrow> length (log_addr las) = CEC_MAX_LOG_ADDRS \<and>
     length (primary_device_type las) = CEC_MAX_LOG_ADDRS"

definition CEC_LOG_ADDRS_FL_CDC_ONLY :: u32 where
  [c_consts]: "CEC_LOG_ADDRS_FL_CDC_ONLY = push_bit 2 1"

text \<open>\<open>a && b\<close> evaluates \<open>b\<close> only when \<open>a\<close> holds.\<close>

definition cand :: "bool option \<Rightarrow> bool option \<Rightarrow> bool option" where
  "cand a b = do { p \<leftarrow> a; if p then b else Some False }"

definition first_addr :: "cec_log_addrs \<Rightarrow> u8 option" where
  "first_addr las = buf_get (log_addr las) 0"

definition first_type :: "cec_log_addrs \<Rightarrow> u8 option" where
  "first_type las = buf_get (primary_device_type las) 0"

definition cec_is_2nd_tv :: "cec_log_addrs \<Rightarrow> bool option" where
  "cec_is_2nd_tv las =
     cand (cand (Some (num_log_addrs las \<noteq> 0))
       (map_option (\<lambda>a. CEC_LOG_ADDR_SPECIFIC \<le> a) (first_addr las)))
       (map_option (\<lambda>t. t = CEC_OP_PRIM_DEVTYPE_TV) (first_type las))"

definition cec_is_processor :: "cec_log_addrs \<Rightarrow> bool option" where
  "cec_is_processor las =
     cand (cand (Some (num_log_addrs las \<noteq> 0))
       (map_option (\<lambda>a. CEC_LOG_ADDR_BACKUP_1 \<le> a) (first_addr las)))
       (map_option (\<lambda>t. t = CEC_OP_PRIM_DEVTYPE_PROCESSOR) (first_type las))"

definition cec_is_switch :: "cec_log_addrs \<Rightarrow> bool option" where
  "cec_is_switch las =
     cand (cand (cand (Some (num_log_addrs las = 1))
       (map_option (\<lambda>a. a = CEC_LOG_ADDR_UNREGISTERED) (first_addr las)))
       (map_option (\<lambda>t. t = CEC_OP_PRIM_DEVTYPE_SWITCH) (first_type las)))
       (Some (las_flags las AND CEC_LOG_ADDRS_FL_CDC_ONLY = 0))"

definition cec_is_cdc_only :: "cec_log_addrs \<Rightarrow> bool option" where
  "cec_is_cdc_only las =
     cand (cand (cand (Some (num_log_addrs las = 1))
       (map_option (\<lambda>a. a = CEC_LOG_ADDR_UNREGISTERED) (first_addr las)))
       (map_option (\<lambda>t. t = CEC_OP_PRIM_DEVTYPE_SWITCH) (first_type las)))
       (Some (las_flags las AND CEC_LOG_ADDRS_FL_CDC_ONLY \<noteq> 0))"

section \<open>Classification\<close>

lemmas mask_tests = cec_has_tv_def cec_has_record_def cec_has_tuner_def cec_has_playback_def
  cec_has_audiosystem_def cec_has_backup_def cec_has_specific_def cec_is_unregistered_def

lemmas masks = CEC_LOG_ADDR_MASK_TV_def CEC_LOG_ADDR_MASK_RECORD_def CEC_LOG_ADDR_MASK_TUNER_def
  CEC_LOG_ADDR_MASK_PLAYBACK_def CEC_LOG_ADDR_MASK_AUDIOSYSTEM_def CEC_LOG_ADDR_MASK_BACKUP_def
  CEC_LOG_ADDR_MASK_SPECIFIC_def CEC_LOG_ADDR_MASK_UNREGISTERED_def

definition mask_classes :: "u16 \<Rightarrow> bool list" where
  "mask_classes w = [cec_has_tv w \<noteq> 0, cec_has_record w \<noteq> 0, cec_has_tuner w \<noteq> 0,
     cec_has_playback w \<noteq> 0, cec_has_audiosystem w \<noteq> 0, cec_has_backup w \<noteq> 0,
     cec_has_specific w \<noteq> 0, cec_is_unregistered w \<noteq> 0]"

definition address_class :: "nat \<Rightarrow> nat" where
  "address_class a = [0, 1, 1, 2, 3, 4, 2, 2, 3, 1, 2, 3, 5, 5, 6, 7] ! a"

lemma or_zero: "a OR b = 0 \<longleftrightarrow> a = 0 \<and> b = (0 :: c_int)"
  by (auto simp: bit_eq_iff bit_simps)

lemma masks_cover:
  "CEC_LOG_ADDR_MASK_TV OR CEC_LOG_ADDR_MASK_RECORD OR CEC_LOG_ADDR_MASK_TUNER OR
   CEC_LOG_ADDR_MASK_PLAYBACK OR CEC_LOG_ADDR_MASK_AUDIOSYSTEM OR CEC_LOG_ADDR_MASK_BACKUP OR
   CEC_LOG_ADDR_MASK_SPECIFIC OR CEC_LOG_ADDR_MASK_UNREGISTERED = 0xffff"
  by (simp add: masks)

text \<open>
  C33. Each of the 16 logical addresses belongs to exactly one of the eight
  device classes the mask tests know: a mask with the single bit of an address answers yes to the
  test of its class and no to the seven others.
\<close>

theorem logical_address_class:
  assumes "a < 16"
  shows "mask_classes (push_bit a 1) = map (\<lambda>c. c = address_class a) [0..<8]"
proof -
  have "list_all (\<lambda>a. mask_classes (push_bit a 1) = map (\<lambda>c. c = address_class a) [0..<8]) [0..<16]"
    by code_simp
  then show ?thesis
    using assms by (simp add: list_all_iff)
qed

theorem logical_address_class_witness:
  "mask_classes (push_bit 9 1) = [False, True, False, False, False, False, False, False]"
proof -
  have "[0..<8] = [0, 1, 2, 3, 4, 5, 6, 7 :: nat]"
    by (simp add: upt_conv_Cons)
  then show ?thesis
    using logical_address_class [of 9] by (simp add: address_class_def)
qed

text \<open>
  An adapter is unconfigured exactly when no class test succeeds on
  its mask of logical addresses.
\<close>

theorem unconfigured_has_no_class:
  "cec_is_unconfigured w \<longleftrightarrow> \<not> (True \<in> set (mask_classes w))"
proof -
  let ?w = "ucast w :: c_int"
  have "\<not> (True \<in> set (mask_classes w)) \<longleftrightarrow>
      ?w AND (CEC_LOG_ADDR_MASK_TV OR CEC_LOG_ADDR_MASK_RECORD OR CEC_LOG_ADDR_MASK_TUNER OR
        CEC_LOG_ADDR_MASK_PLAYBACK OR CEC_LOG_ADDR_MASK_AUDIOSYSTEM OR CEC_LOG_ADDR_MASK_BACKUP OR
        CEC_LOG_ADDR_MASK_SPECIFIC OR CEC_LOG_ADDR_MASK_UNREGISTERED) = 0"
    by (auto simp: mask_classes_def mask_tests bit.conj_disj_distrib or_zero)
  also have "\<dots> \<longleftrightarrow> take_bit 16 ?w = 0"
    unfolding masks_cover by (simp add: take_bit_eq_mask mask_eq_exp_minus_1)
  also have "\<dots> \<longleftrightarrow> w = 0"
    by (auto simp: bit_eq_iff bit_simps)
  finally show ?thesis
    by (simp add: cec_is_unconfigured_def)
qed

lemmas role_defs = cec_is_2nd_tv_def cec_is_processor_def cec_is_switch_def cec_is_cdc_only_def
  cand_def first_addr_def first_type_def

text \<open>
  The four role tests never read outside their arrays, and a device
  has at most one of the roles second TV, processor, pure switch and CDC-only device.
\<close>

theorem device_roles_exclusive:
  assumes "wf_log_addrs las"
  shows "\<exists>t p s c. cec_is_2nd_tv las = Some t \<and> cec_is_processor las = Some p \<and>
    cec_is_switch las = Some s \<and> cec_is_cdc_only las = Some c \<and>
    length (filter id [t, p, s, c]) \<le> 1"
  using assms
  by (auto simp: wf_log_addrs_def role_defs buf_get_def c_consts CEC_MAX_LOG_ADDRS_def)

theorem device_roles_exclusive_witness:
  "\<exists>t p c. let las = \<lparr>log_addr = [15, 0, 0, 0], log_addr_mask = 0x8000, cec_version = 5,
      num_log_addrs = 1, vendor_id = 0, las_flags = 0, osd_name = [], primary_device_type = [6, 0, 0, 0],
      log_addr_type = [], all_device_types = [], features = []\<rparr> in
    cec_is_2nd_tv las = Some t \<and> cec_is_processor las = Some p \<and>
    cec_is_switch las = Some True \<and> cec_is_cdc_only las = Some c \<and> length (filter id [t, p, True, c]) \<le> 1"
  using device_roles_exclusive [of "\<lparr>log_addr = [15, 0, 0, 0], log_addr_mask = 0x8000, cec_version = 5,
      num_log_addrs = 1, vendor_id = 0, las_flags = 0, osd_name = [], primary_device_type = [6, 0, 0, 0],
      log_addr_type = [], all_device_types = [], features = []\<rparr>"]
  by (auto simp: wf_log_addrs_def role_defs buf_get_def c_consts)

end
