(* ===== verification/Stl_Base.thy ===== *)
theory Stl_Base
  imports Prelude "HOL-Library.Multiset"
begin

text \<open>
  Ground for the algorithms of \<open>sysincludes/c++/8/bits\<close>: the comparison functors of
  \<open>predefined_ops.h\<close>, the ordering the algorithms require of a comparison, and rearrangements of
  a range of an array. Random access iterators are positions in the array; a dereferenced
  position outside the array makes the result \<open>None\<close>. Values are copied where the source moves
  them, which is what a moved-from object that is never read allows.
\<close>

section \<open>Comparisons\<close>

text \<open>\<open>_Iter_less_iter\<close>, \<open>_Iter_less_val\<close>, \<open>_Val_less_iter\<close> on values: the operator \<open><\<close>.\<close>

definition iter_less_iter :: "'a :: linorder \<Rightarrow> 'a \<Rightarrow> bool" where
  "iter_less_iter x y \<longleftrightarrow> x < y"

locale strict_weak_ordering =
  fixes cmp :: "'a \<Rightarrow> 'a \<Rightarrow> bool"
  assumes cmp_asym: "cmp x y \<Longrightarrow> \<not> cmp y x"
    and cmp_split: "cmp x z \<Longrightarrow> cmp x y \<or> cmp y z"
begin

lemma cmp_irrefl [simp]: "\<not> cmp x x"
  using cmp_asym by blast

lemma cmp_trans: "cmp x y \<Longrightarrow> cmp y z \<Longrightarrow> cmp x z"
  using cmp_asym cmp_split by blast

lemma cmp_le_trans: "\<not> cmp y x \<Longrightarrow> \<not> cmp z y \<Longrightarrow> \<not> cmp z x"
  using cmp_split by blast

end

interpretation less: strict_weak_ordering "iter_less_iter :: 'a :: linorder \<Rightarrow> 'a \<Rightarrow> bool"
  by unfold_locales (auto simp: iter_less_iter_def)

section \<open>Ranges\<close>

definition slice :: "'a list \<Rightarrow> nat \<Rightarrow> nat \<Rightarrow> 'a list" where
  "slice a l r = take (r - l) (drop l a)"

text \<open>No element is smaller than an earlier one.\<close>

definition sorted_range :: "('a \<Rightarrow> 'a \<Rightarrow> bool) \<Rightarrow> 'a list \<Rightarrow> nat \<Rightarrow> nat \<Rightarrow> bool" where
  "sorted_range cmp a l r \<longleftrightarrow> (\<forall>i j. l \<le> i \<and> i < j \<and> j < r \<longrightarrow> \<not> cmp (a ! j) (a ! i))"

text \<open>\<open>b\<close> arises from \<open>a\<close> by moving elements around in the range from \<open>l\<close> to \<open>r\<close>.\<close>

definition rearranges :: "'a list \<Rightarrow> 'a list \<Rightarrow> nat \<Rightarrow> nat \<Rightarrow> bool" where
  "rearranges a b l r \<longleftrightarrow> length b = length a \<and> mset b = mset a \<and>
     (\<forall>i. i < l \<or> r \<le> i \<longrightarrow> i < length a \<longrightarrow> b ! i = a ! i)"

lemma rearranges_refl [simp]: "rearranges a a l r"
  by (simp add: rearranges_def)

lemma rearranges_trans: "rearranges a b l r \<Longrightarrow> rearranges b c l r \<Longrightarrow> rearranges a c l r"
  by (simp add: rearranges_def)

lemma rearranges_mono:
  "rearranges a b l r \<Longrightarrow> l' \<le> l \<Longrightarrow> r \<le> r' \<Longrightarrow> rearranges a b l' r'"
  by (simp add: rearranges_def)

lemma rearranges_length: "rearranges a b l r \<Longrightarrow> length b = length a"
  by (simp add: rearranges_def)

lemma rearranges_outside: "rearranges a b l r \<Longrightarrow> i < l \<or> r \<le> i \<Longrightarrow> i < length a \<Longrightarrow> b ! i = a ! i"
  by (auto simp: rearranges_def)

lemma length_slice [simp]: "r \<le> length a \<Longrightarrow> length (slice a l r) = r - l"
  by (simp add: slice_def)

lemma slice_nth: "l + i < r \<Longrightarrow> r \<le> length a \<Longrightarrow> slice a l r ! i = a ! (l + i)"
  by (simp add: slice_def)

lemma set_slice: "r \<le> length a \<Longrightarrow> set (slice a l r) = (!) a ` {l..<r}"
proof -
  assume r: "r \<le> length a"
  have "slice a l r = map ((!) a) [l..<r]"
    using r by (auto simp: list_eq_iff_nth_eq slice_nth)
  then show ?thesis by simp
qed

lemma split_slice:
  assumes "l \<le> r" and "r \<le> length a"
  shows "a = take l a @ slice a l r @ drop r a"
proof -
  have "drop l a = slice a l r @ drop (r - l) (drop l a)"
    unfolding slice_def by (rule append_take_drop_id [symmetric])
  then show ?thesis
    using append_take_drop_id [of l a] assms(1) by simp
qed

lemma rearranges_slice:
  assumes "rearranges a b l r" and "l \<le> r" and "r \<le> length a"
  shows "mset (slice b l r) = mset (slice a l r)"
proof -
  have len: "length b = length a" and ms: "mset b = mset a"
    using assms(1) by (simp_all add: rearranges_def)
  have t: "take l b = take l a" and d: "drop r b = drop r a"
    using assms len by (auto simp: rearranges_def list_eq_iff_nth_eq)
  have "mset (take l b @ slice b l r @ drop r b) = mset (take l a @ slice a l r @ drop r a)"
    using split_slice [of l r a] split_slice [of l r b] assms(2,3) len ms by simp
  then show ?thesis
    using t d by simp
qed

lemma rearranges_image:
  assumes "rearranges a b l r" and "l \<le> r" and "r \<le> length a"
  shows "(!) b ` {l..<r} = (!) a ` {l..<r}"
  using mset_eq_setD [OF rearranges_slice [OF assms]] assms
  by (simp add: set_slice rearranges_length)

text \<open>A bound on the elements of a range survives a rearrangement of that range.\<close>

lemma rearranges_all:
  assumes "rearranges a b l r" and "r \<le> length a" and "\<And>i. l \<le> i \<Longrightarrow> i < r \<Longrightarrow> P (a ! i)"
    and "l \<le> i" and "i < r"
  shows "P (b ! i)"
proof -
  have "b ! i \<in> (!) a ` {l..<r}"
    using rearranges_image [OF assms(1) _ assms(2)] assms(4,5) by fastforce
  then show ?thesis using assms(3) by auto
qed

text \<open>A value travels with a hole: the hole moves from \<open>h\<close> to \<open>c\<close>, and \<open>c\<close>'s element to \<open>h\<close>.\<close>

lemma mset_hole_move:
  assumes "h < length a" and "c < length a"
  shows "mset (a[h := a ! c, c := v]) = mset (a[h := v])"
proof (cases "h = c")
  case False
  have "mset ((a[h := v])[h := (a[h := v]) ! c, c := (a[h := v]) ! h]) = mset (a[h := v])"
    using assms by (intro mset_swap) simp_all
  then show ?thesis
    using False assms by (simp add: list_update_swap)
qed simp

lemma rearranges_put_same:
  "i < length a \<Longrightarrow> rearranges a (a[i := a ! i]) l r"
  by simp

lemma rearranges_swap:
  assumes "l \<le> i" "i < r" "l \<le> j" "j < r" "r \<le> length a"
  shows "rearranges a (a[i := a ! j, j := a ! i]) l r"
  using assms by (auto simp: rearranges_def mset_swap nth_list_update)

lemma sorted_range_singleton: "r \<le> Suc l \<Longrightarrow> sorted_range cmp a l r"
  by (auto simp: sorted_range_def)

lemma sorted_range_outside:
  assumes "sorted_range cmp a l r" and "rearranges a b l' r'" and "r \<le> l' \<or> r' \<le> l"
    and "r \<le> length a"
  shows "sorted_range cmp b l r"
  using assms by (auto simp: sorted_range_def rearranges_def)

text \<open>Checked accesses.\<close>

lemma buf_get_Some [simp]: "i < length a \<Longrightarrow> buf_get a i = Some (a ! i)"
  by (simp add: buf_get_def)

lemma buf_put_Some [simp]: "i < length a \<Longrightarrow> buf_put a i v = Some (a[i := v])"
  by (simp add: buf_put_def)

end
