(* ===== verification/Stl_Heap.thy ===== *)
theory Stl_Heap
  imports Stl_Base
begin

text \<open>
  The heap algorithms of \<open>sysincludes/c++/8/bits/stl_heap.h\<close>. A function whose name starts with
  two underscores in the source ends in \<open>_impl\<close> here; the overloads without a comparison functor
  end in \<open>_less\<close>. The iterators \<open>__first\<close> and \<open>__last\<close> are the positions \<open>first\<close> (or \<open>f\<close>) and \<open>stop\<close>; distances are natural numbers, and
  integers where the source's difference can be negative.
\<close>

section \<open>Functions\<close>

function is_heap_until_loop ::
    "('a \<Rightarrow> 'a \<Rightarrow> bool) \<Rightarrow> 'a list \<Rightarrow> nat \<Rightarrow> nat \<Rightarrow> nat \<Rightarrow> nat \<Rightarrow> nat option" where
  "is_heap_until_loop cmp a f n parent child =
     (if child < n then do {
        x \<leftarrow> buf_get a (f + parent);
        y \<leftarrow> buf_get a (f + child);
        if cmp x y then Some child
        else is_heap_until_loop cmp a f n (if even child then parent + 1 else parent) (child + 1) }
      else Some n)"
  by pat_completeness auto
termination
  by (relation "measure (\<lambda>(cmp, a, f, n, parent, child). n - child)") auto

definition is_heap_until_impl :: "('a \<Rightarrow> 'a \<Rightarrow> bool) \<Rightarrow> 'a list \<Rightarrow> nat \<Rightarrow> nat \<Rightarrow> nat option" where
  "is_heap_until_impl cmp a f n = is_heap_until_loop cmp a f n 0 1"

function push_heap_impl ::
    "('a \<Rightarrow> 'a \<Rightarrow> bool) \<Rightarrow> 'a list \<Rightarrow> nat \<Rightarrow> nat \<Rightarrow> nat \<Rightarrow> 'a \<Rightarrow> 'a list option" where
  "push_heap_impl cmp a f hole top_index v =
     (if hole > top_index then do {
        x \<leftarrow> buf_get a (f + (hole - 1) div 2);
        if cmp x v then do {
          a \<leftarrow> buf_put a (f + hole) x;
          push_heap_impl cmp a f ((hole - 1) div 2) top_index v }
        else buf_put a (f + hole) v }
      else buf_put a (f + hole) v)"
  by pat_completeness auto
termination
  by (relation "measure (\<lambda>(cmp, a, f, hole, top_index, v). hole)") auto

definition push_heap :: "('a \<Rightarrow> 'a \<Rightarrow> bool) \<Rightarrow> 'a list \<Rightarrow> nat \<Rightarrow> nat \<Rightarrow> 'a list option" where
  "push_heap cmp a first stop = do {
     v \<leftarrow> buf_get a (stop - 1);
     push_heap_impl cmp a first (stop - first - 1) 0 v }"

definition push_heap_less :: "'a :: linorder list \<Rightarrow> nat \<Rightarrow> nat \<Rightarrow> 'a list option" where
  "push_heap_less a first stop = do {
     v \<leftarrow> buf_get a (stop - 1);
     push_heap_impl iter_less_iter a first (stop - first - 1) 0 v }"

function adjust_heap_loop ::
    "('a \<Rightarrow> 'a \<Rightarrow> bool) \<Rightarrow> 'a list \<Rightarrow> nat \<Rightarrow> nat \<Rightarrow> nat \<Rightarrow> nat \<Rightarrow> ('a list \<times> nat \<times> nat) option" where
  "adjust_heap_loop cmp a f hole second len =
     (if second < (len - 1) div 2 then do {
        let second = 2 * (second + 1);
        x \<leftarrow> buf_get a (f + second);
        y \<leftarrow> buf_get a (f + (second - 1));
        let second = (if cmp x y then second - 1 else second);
        z \<leftarrow> buf_get a (f + second);
        a \<leftarrow> buf_put a (f + hole) z;
        adjust_heap_loop cmp a f second second len }
      else Some (a, hole, second))"
  by pat_completeness auto
termination
  by (relation "measure (\<lambda>(cmp, a, f, hole, second, len). len - second)") auto

declare is_heap_until_loop.simps [simp del] push_heap_impl.simps [simp del]
  adjust_heap_loop.simps [simp del]

definition adjust_heap_impl ::
    "('a \<Rightarrow> 'a \<Rightarrow> bool) \<Rightarrow> 'a list \<Rightarrow> nat \<Rightarrow> nat \<Rightarrow> nat \<Rightarrow> 'a \<Rightarrow> 'a list option" where
  "adjust_heap_impl cmp a f hole len v = do {
     let top_index = hole;
     (a, hole, second) \<leftarrow> adjust_heap_loop cmp a f hole hole len;
     (a, hole) \<leftarrow>
       (if even len \<and> int second = (int len - 2) div 2 then do {
          let second = 2 * (second + 1);
          z \<leftarrow> buf_get a (f + (second - 1));
          a \<leftarrow> buf_put a (f + hole) z;
          Some (a, second - 1) }
        else Some (a, hole));
     push_heap_impl cmp a f hole top_index v }"

definition pop_heap_impl ::
    "('a \<Rightarrow> 'a \<Rightarrow> bool) \<Rightarrow> 'a list \<Rightarrow> nat \<Rightarrow> nat \<Rightarrow> nat \<Rightarrow> 'a list option" where
  "pop_heap_impl cmp a first stop result = do {
     v \<leftarrow> buf_get a result;
     x \<leftarrow> buf_get a first;
     a \<leftarrow> buf_put a result x;
     adjust_heap_impl cmp a first 0 (stop - first) v }"

definition pop_heap :: "('a \<Rightarrow> 'a \<Rightarrow> bool) \<Rightarrow> 'a list \<Rightarrow> nat \<Rightarrow> nat \<Rightarrow> 'a list option" where
  "pop_heap cmp a first stop =
     (if stop - first > 1 then pop_heap_impl cmp a first (stop - 1) (stop - 1) else Some a)"

definition pop_heap_less :: "'a :: linorder list \<Rightarrow> nat \<Rightarrow> nat \<Rightarrow> 'a list option" where
  "pop_heap_less a first stop =
     (if stop - first > 1 then pop_heap_impl iter_less_iter a first (stop - 1) (stop - 1) else Some a)"

fun make_heap_loop ::
    "('a \<Rightarrow> 'a \<Rightarrow> bool) \<Rightarrow> 'a list \<Rightarrow> nat \<Rightarrow> nat \<Rightarrow> nat \<Rightarrow> 'a list option" where
  "make_heap_loop cmp a f len parent = do {
     v \<leftarrow> buf_get a (f + parent);
     a \<leftarrow> adjust_heap_impl cmp a f parent len v;
     (case parent of 0 \<Rightarrow> Some a | Suc parent \<Rightarrow> make_heap_loop cmp a f len parent) }"

declare make_heap_loop.simps [simp del]

definition make_heap_impl :: "('a \<Rightarrow> 'a \<Rightarrow> bool) \<Rightarrow> 'a list \<Rightarrow> nat \<Rightarrow> nat \<Rightarrow> 'a list option" where
  "make_heap_impl cmp a first stop =
     (if stop - first < 2 then Some a
      else make_heap_loop cmp a first (stop - first) ((stop - first - 2) div 2))"

definition make_heap :: "('a \<Rightarrow> 'a \<Rightarrow> bool) \<Rightarrow> 'a list \<Rightarrow> nat \<Rightarrow> nat \<Rightarrow> 'a list option" where
  "make_heap cmp a first stop = make_heap_impl cmp a first stop"

definition make_heap_less :: "'a :: linorder list \<Rightarrow> nat \<Rightarrow> nat \<Rightarrow> 'a list option" where
  "make_heap_less a first stop = make_heap_impl iter_less_iter a first stop"

function sort_heap_impl :: "('a \<Rightarrow> 'a \<Rightarrow> bool) \<Rightarrow> 'a list \<Rightarrow> nat \<Rightarrow> nat \<Rightarrow> 'a list option" where
  "sort_heap_impl cmp a first stop =
     (if stop - first > 1 then do {
        a \<leftarrow> pop_heap_impl cmp a first (stop - 1) (stop - 1);
        sort_heap_impl cmp a first (stop - 1) }
      else Some a)"
  by pat_completeness auto
termination
  by (relation "measure (\<lambda>(cmp, a, first, stop). stop)") auto

declare sort_heap_impl.simps [simp del]

definition sort_heap :: "('a \<Rightarrow> 'a \<Rightarrow> bool) \<Rightarrow> 'a list \<Rightarrow> nat \<Rightarrow> nat \<Rightarrow> 'a list option" where
  "sort_heap cmp a first stop = sort_heap_impl cmp a first stop"

definition sort_heap_less :: "'a :: linorder list \<Rightarrow> nat \<Rightarrow> nat \<Rightarrow> 'a list option" where
  "sort_heap_less a first stop = sort_heap_impl iter_less_iter a first stop"

definition is_heap_until :: "('a \<Rightarrow> 'a \<Rightarrow> bool) \<Rightarrow> 'a list \<Rightarrow> nat \<Rightarrow> nat \<Rightarrow> nat option" where
  "is_heap_until cmp a first stop =
     map_option ((+) first) (is_heap_until_impl cmp a first (stop - first))"

definition is_heap_until_less :: "'a :: linorder list \<Rightarrow> nat \<Rightarrow> nat \<Rightarrow> nat option" where
  "is_heap_until_less a first stop =
     map_option ((+) first) (is_heap_until_impl iter_less_iter a first (stop - first))"

definition is_heap :: "('a \<Rightarrow> 'a \<Rightarrow> bool) \<Rightarrow> 'a list \<Rightarrow> nat \<Rightarrow> nat \<Rightarrow> bool option" where
  "is_heap cmp a first stop =
     map_option (\<lambda>d. d = stop - first) (is_heap_until_impl cmp a first (stop - first))"

definition is_heap_less :: "'a :: linorder list \<Rightarrow> nat \<Rightarrow> nat \<Rightarrow> bool option" where
  "is_heap_less a first stop = map_option (\<lambda>i. i = stop) (is_heap_until_less a first stop)"

section \<open>Heaps\<close>

text \<open>
  Every node from \<open>k\<close> on is not smaller than its children, among the \<open>n\<close> nodes from \<open>f\<close> on;
  \<open>holed\<close> excepts the node \<open>h\<close>, whose children are bounded by its parent instead.
\<close>

definition heap_from :: "('a \<Rightarrow> 'a \<Rightarrow> bool) \<Rightarrow> 'a list \<Rightarrow> nat \<Rightarrow> nat \<Rightarrow> nat \<Rightarrow> bool" where
  "heap_from cmp a f k n \<longleftrightarrow> (\<forall>i. 0 < i \<and> i < n \<and> k \<le> (i - 1) div 2 \<longrightarrow>
     \<not> cmp (a ! (f + (i - 1) div 2)) (a ! (f + i)))"

definition holed :: "('a \<Rightarrow> 'a \<Rightarrow> bool) \<Rightarrow> 'a list \<Rightarrow> nat \<Rightarrow> nat \<Rightarrow> nat \<Rightarrow> nat \<Rightarrow> bool" where
  "holed cmp a f k h n \<longleftrightarrow>
     (\<forall>i. 0 < i \<and> i < n \<and> k \<le> (i - 1) div 2 \<and> i \<noteq> h \<and> (i - 1) div 2 \<noteq> h \<longrightarrow>
       \<not> cmp (a ! (f + (i - 1) div 2)) (a ! (f + i))) \<and>
     (k < h \<longrightarrow> (\<forall>i. 0 < i \<and> i < n \<and> (i - 1) div 2 = h \<longrightarrow>
       \<not> cmp (a ! (f + (h - 1) div 2)) (a ! (f + i))))"

lemma parent_less: "0 < i \<Longrightarrow> (i - 1) div 2 < (i :: nat)"
  by presburger

lemma childless: "n \<le> 2 * h + 1 \<Longrightarrow> 0 < i \<Longrightarrow> i < n \<Longrightarrow> (i - 1) div 2 \<noteq> (h :: nat)"
  by presburger

lemma one_child:
  assumes "(n - 1) div 2 \<le> (h :: nat)" and "2 * h + 1 < n"
  shows "even n \<and> int h = (int n - 2) div 2"
proof -
  have "n = 2 * h + 2"
    using assms by presburger
  then show ?thesis by simp
qed

text \<open>\<open>i\<close> lies in the subtree of \<open>k\<close>.\<close>

function under :: "nat \<Rightarrow> nat \<Rightarrow> bool" where
  "under k i = (if k < i then under k ((i - 1) div 2) else i = k)"
  by pat_completeness auto
termination
  by (relation "measure (\<lambda>(k, i). i)") auto

declare under.simps [simp del]

lemma under_refl [simp]: "under k k"
  by (simp add: under.simps)

lemma under_le: "under k i \<Longrightarrow> k \<le> i"
  by (subst (asm) under.simps) (auto split: if_splits)

lemma under_parent: "under k i \<Longrightarrow> k < i \<Longrightarrow> under k ((i - 1) div 2) \<and> k \<le> (i - 1) div 2"
  using under_le by (subst (asm) under.simps) auto

lemma under_child: "under k i \<Longrightarrow> (c - 1) div 2 = i \<Longrightarrow> 0 < c \<Longrightarrow> under k c"
  using under_le [of k i] by (subst under.simps) auto

context strict_weak_ordering
begin

lemma holedD:
  "holed cmp a f k h n \<Longrightarrow> 0 < i \<Longrightarrow> i < n \<Longrightarrow> k \<le> (i - 1) div 2 \<Longrightarrow> i \<noteq> h \<Longrightarrow> (i - 1) div 2 \<noteq> h \<Longrightarrow>
    \<not> cmp (a ! (f + (i - 1) div 2)) (a ! (f + i))"
  and holed_skipD:
  "holed cmp a f k h n \<Longrightarrow> k < h \<Longrightarrow> 0 < i \<Longrightarrow> i < n \<Longrightarrow> (i - 1) div 2 = h \<Longrightarrow>
    \<not> cmp (a ! (f + (h - 1) div 2)) (a ! (f + i))"
  by (auto simp: holed_def)

text \<open>Filling the hole.\<close>

lemma holed_fill:
  assumes "holed cmp a f k h n" and "under k h" and "h < n" and "f + n \<le> length a"
    and "\<And>i. 0 < i \<Longrightarrow> i < n \<Longrightarrow> (i - 1) div 2 = h \<Longrightarrow> \<not> cmp v (a ! (f + i))"
    and "k < h \<Longrightarrow> \<not> cmp (a ! (f + (h - 1) div 2)) v"
  shows "heap_from cmp (a[f + h := v]) f k n"
  unfolding heap_from_def
proof (intro allI impI)
  fix i
  assume i: "0 < i \<and> i < n \<and> k \<le> (i - 1) div 2"
  then have p: "(i - 1) div 2 < i"
    using parent_less [of i] by simp
  show "\<not> cmp (a[f + h := v] ! (f + (i - 1) div 2)) (a[f + h := v] ! (f + i))"
  proof (cases "i = h")
    case True
    then have "k < h" using i p by linarith
    then show ?thesis using True assms(3,4,6) i p by simp
  next
    case False
    then show ?thesis
      using i p assms(3,4,5) holedD [OF assms(1)] by (cases "(i - 1) div 2 = h") simp_all
  qed
qed

text \<open>Moving the hole up: the parent's value, smaller than \<open>v\<close>, comes down.\<close>

lemma holed_up:
  assumes "holed cmp a f k h n" and "under k h" and "k < h" and "h < n" and "f + n \<le> length a"
    and "\<And>i. 0 < i \<Longrightarrow> i < n \<Longrightarrow> (i - 1) div 2 = h \<Longrightarrow> \<not> cmp v (a ! (f + i))"
    and "cmp (a ! (f + (h - 1) div 2)) v"
  defines "p \<equiv> (h - 1) div 2" and "b \<equiv> a[f + h := a ! (f + (h - 1) div 2)]"
  shows "holed cmp b f k p n"
    and "\<And>i. 0 < i \<Longrightarrow> i < n \<Longrightarrow> (i - 1) div 2 = p \<Longrightarrow> \<not> cmp v (b ! (f + i))"
proof -
  have p: "p < h" "k \<le> p" "p < n"
    using assms(2,3,4) under_parent [of k h] by (auto simp: p_def)
  have b: "b ! (f + j) = (if j = h then a ! (f + p) else a ! (f + j))" if "j < n" for j
    using that assms(4,5) by (auto simp: b_def p_def)
  have sib: "\<not> cmp (a ! (f + p)) (b ! (f + i))" if "0 < i" "i < n" "(i - 1) div 2 = p" for i
    using that holedD [OF assms(1), of i] p b by (cases "i = h") auto
  show "holed cmp b f k p n"
    unfolding holed_def
  proof (intro conjI allI impI)
    fix i
    assume i: "0 < i \<and> i < n \<and> k \<le> (i - 1) div 2 \<and> i \<noteq> p \<and> (i - 1) div 2 \<noteq> p"
    then have "i \<noteq> h" "(i - 1) div 2 < n"
      using parent_less [of i] by (auto simp: p_def)
    then show "\<not> cmp (b ! (f + (i - 1) div 2)) (b ! (f + i))"
      using i b holedD [OF assms(1), of i] holed_skipD [OF assms(1,3), of i]
      by (auto simp: p_def)
  next
    fix i
    assume "k < p" and i: "0 < i \<and> i < n \<and> (i - 1) div 2 = p"
    have "k \<le> (p - 1) div 2"
      using under_parent [of k p] under_parent [of k h] assms(2,3) \<open>k < p\<close> by (simp add: p_def)
    then have "\<not> cmp (a ! (f + (p - 1) div 2)) (a ! (f + p))"
      using holedD [OF assms(1), of p] p \<open>k < p\<close> by auto
    then have "\<not> cmp (b ! (f + (p - 1) div 2)) (a ! (f + p))"
      using b [of "(p - 1) div 2"] p by auto
    then show "\<not> cmp (b ! (f + (p - 1) div 2)) (b ! (f + i))"
      using sib [of i] i cmp_le_trans by blast
  qed
  show "\<not> cmp v (b ! (f + i))" if "0 < i" "i < n" "(i - 1) div 2 = p" for i
    using sib [OF that] assms(7) cmp_trans unfolding p_def by blast
qed

text \<open>Moving the hole down to its greatest child.\<close>

lemma holed_down:
  assumes "holed cmp a f k h n" and "under k h" and "f + n \<le> length a"
    and "0 < c" and "c < n" and "(c - 1) div 2 = h"
    and "\<And>d. 0 < d \<Longrightarrow> d < n \<Longrightarrow> (d - 1) div 2 = h \<Longrightarrow> \<not> cmp (a ! (f + c)) (a ! (f + d))"
  defines "b \<equiv> a[f + h := a ! (f + c)]"
  shows "holed cmp b f k c n"
proof -
  have h: "h < c" "k \<le> h"
    using assms(4,6) under_le [OF assms(2)] by auto
  have b: "b ! (f + j) = (if j = h then a ! (f + c) else a ! (f + j))" if "j < n" for j
    using that assms(3,5) h by (auto simp: b_def)
  show ?thesis
    unfolding holed_def
  proof (intro conjI allI impI)
    fix i
    assume i: "0 < i \<and> i < n \<and> k \<le> (i - 1) div 2 \<and> i \<noteq> c \<and> (i - 1) div 2 \<noteq> c"
    then have p: "(i - 1) div 2 < i" "(i - 1) div 2 < n"
      using parent_less [of i] by auto
    show "\<not> cmp (b ! (f + (i - 1) div 2)) (b ! (f + i))"
    proof (cases "i = h")
      case True
      then have "k < h" using i p by linarith
      then show ?thesis
        using holed_skipD [OF assms(1) _ assms(4,5,6)] True i p b by simp
    next
      case False
      then show ?thesis
        using i p b assms(7) holedD [OF assms(1)] by (cases "(i - 1) div 2 = h") simp_all
    qed
  next
    fix i
    assume "k < c" and i: "0 < i \<and> i < n \<and> (i - 1) div 2 = c"
    then have "i \<noteq> h" using h by auto
    then show "\<not> cmp (b ! (f + (c - 1) div 2)) (b ! (f + i))"
      using i h b assms(5,6) holedD [OF assms(1), of i] by simp
  qed
qed

lemma push_heap_impl_heap:
  assumes "holed cmp a f k h n" and "under k h" and "h < n" and "f + n \<le> length a"
    and "\<And>i. 0 < i \<Longrightarrow> i < n \<Longrightarrow> (i - 1) div 2 = h \<Longrightarrow> \<not> cmp v (a ! (f + i))"
  shows "\<exists>b. push_heap_impl cmp a f h k v = Some b \<and> heap_from cmp b f k n \<and>
    rearranges (a[f + h := v]) b f (f + n)"
  using assms
proof (induction h arbitrary: a rule: less_induct)
  case (less h)
  let ?p = "(h - 1) div 2"
  show ?case
  proof (cases "k < h \<and> cmp (a ! (f + ?p)) v")
    case True
    let ?a = "a[f + h := a ! (f + ?p)]"
    have p: "?p < h" "under k ?p"
      using True parent_less [of h] under_parent [OF less.prems(2)] by auto
    obtain b where b: "push_heap_impl cmp ?a f ?p k v = Some b" "heap_from cmp b f k n"
        "rearranges (?a[f + ?p := v]) b f (f + n)"
      using less.IH [OF p(1) holed_up(1) [OF less.prems(1,2) _ less.prems(3,4,5)] p(2)]
        holed_up(2) [OF less.prems(1,2) _ less.prems(3,4,5)] p(1) less.prems(3,4) True
      by auto
    have "rearranges (a[f + h := v]) (?a[f + ?p := v]) f (f + n)"
      using p(1) less.prems(3,4) mset_hole_move [of "f + h" a "f + ?p" v]
      by (auto simp: rearranges_def nth_list_update)
    moreover have "push_heap_impl cmp a f h k v = Some b"
      using b(1) True p(1) less.prems(3,4) by (simp add: push_heap_impl.simps [of cmp a f h])
    ultimately show ?thesis
      using b rearranges_trans by blast
  next
    case False
    then have "push_heap_impl cmp a f h k v = Some (a[f + h := v])"
      using less.prems(3,4) parent_less [of h]
      by (auto simp: push_heap_impl.simps [of cmp a f h])
    then show ?thesis
      using holed_fill [OF less.prems] False by auto
  qed
qed

text \<open>The loop of \<open>__adjust_heap\<close> carries the hole down until it has at most one child.\<close>

lemma adjust_heap_loop_hole:
  assumes "holed cmp a f k h n" and "under k h" and "h < n" and "f + n \<le> length a"
  shows "\<exists>b h'. adjust_heap_loop cmp a f h h n = Some (b, h', h') \<and> holed cmp b f k h' n \<and>
    under k h' \<and> h' < n \<and> (n - 1) div 2 \<le> h' \<and>
    (\<forall>v. rearranges (a[f + h := v]) (b[f + h' := v]) f (f + n))"
  using assms
proof (induction "n - h" arbitrary: a h rule: less_induct)
  case less
  show ?case
  proof (cases "h < (n - 1) div 2")
    case True
    let ?s = "2 * (h + 1)"
    define c where "c = (if cmp (a ! (f + ?s)) (a ! (f + (?s - 1))) then ?s - 1 else ?s)"
    have c: "0 < c" "c < n" "(c - 1) div 2 = h" "h < c" "?s < n"
      using True by (auto simp: c_def)
    have kids: "d = ?s \<or> d = ?s - 1" if "0 < d" "(d - 1) div 2 = h" for d
      using that by presburger
    have great: "\<not> cmp (a ! (f + c)) (a ! (f + d))" if "0 < d" "d < n" "(d - 1) div 2 = h" for d
      using kids [OF that(1,3)] cmp_asym by (auto simp: c_def)
    let ?a = "a[f + h := a ! (f + c)]"
    have holed: "holed cmp ?a f k c n"
      by (rule holed_down [OF less.prems(1,2,4) c(1-3) great])
    have under: "under k c"
      using under_child [OF less.prems(2) c(3,1)] .
    have lt: "n - c < n - h" and len: "f + n \<le> length ?a"
      using c(2,4) less.prems(4) by simp_all
    obtain b h' where b: "adjust_heap_loop cmp ?a f c c n = Some (b, h', h')" "holed cmp b f k h' n"
        "under k h'" "h' < n" "(n - 1) div 2 \<le> h'"
        "\<forall>v. rearranges (?a[f + c := v]) (b[f + h' := v]) f (f + n)"
      using less.hyps [OF lt holed under c(2) len] by blast
    have "rearranges (a[f + h := v]) (?a[f + c := v]) f (f + n)" for v
      using c less.prems(4) mset_hole_move [of "f + h" a "f + c" v]
      by (auto simp: rearranges_def nth_list_update)
    then have "\<forall>v. rearranges (a[f + h := v]) (b[f + h' := v]) f (f + n)"
      using b(6) rearranges_trans by blast
    moreover have "adjust_heap_loop cmp a f h h n = adjust_heap_loop cmp ?a f c c n"
      using True c less.prems(4)
      by (subst adjust_heap_loop.simps) (simp add: c_def Let_def)
    ultimately show ?thesis
      using b by auto
  next
    case False
    then have "adjust_heap_loop cmp a f h h n = Some (a, h, h)"
      by (simp add: adjust_heap_loop.simps [of cmp a f h])
    then show ?thesis
      using less.prems False by auto
  qed
qed

lemma adjust_heap_impl_heap:
  assumes "heap_from cmp a f (Suc k) n" and "k < n" and "f + n \<le> length a"
  shows "\<exists>b. adjust_heap_impl cmp a f k n v = Some b \<and> heap_from cmp b f k n \<and>
    rearranges (a[f + k := v]) b f (f + n)"
proof -
  have "holed cmp a f k k n"
    using assms(1) by (auto simp: holed_def heap_from_def)
  then obtain a1 h where h: "adjust_heap_loop cmp a f k k n = Some (a1, h, h)" "holed cmp a1 f k h n"
      "under k h" "h < n" "(n - 1) div 2 \<le> h"
      "\<forall>v. rearranges (a[f + k := v]) (a1[f + h := v]) f (f + n)"
    using adjust_heap_loop_hole [OF _ under_refl assms(2,3)] by blast
  have len: "f + n \<le> length a1"
    using h(6) [rule_format, of v] assms(3) by (auto dest: rearranges_length)
  show ?thesis
  proof (cases "even n \<and> int h = (int n - 2) div 2")
    case True
    then have n: "n = 2 * h + 2" by presburger
    let ?c = "2 * h + 1" and ?b = "a1[f + h := a1 ! (f + (2 * h + 1))]"
    have kid: "d = ?c" if "0 < d" "d < n" "(d - 1) div 2 = h" for d
      using that n by presburger
    have great: "\<not> cmp (a1 ! (f + ?c)) (a1 ! (f + d))" if "0 < d" "d < n" "(d - 1) div 2 = h" for d
      using kid [OF that] by simp
    have "holed cmp ?b f k ?c n"
      by (rule holed_down [OF h(2,3) len _ _ _ great]) (use n in simp_all)
    moreover have "under k ?c"
      by (rule under_child [OF h(3)]) auto
    moreover have "\<not> cmp v (?b ! (f + i))" if "0 < i" "i < n" "(i - 1) div 2 = ?c" for i
      using childless [of n ?c i] n that by simp
    ultimately obtain b where b: "push_heap_impl cmp ?b f ?c k v = Some b" "heap_from cmp b f k n"
        "rearranges (?b[f + ?c := v]) b f (f + n)"
      using push_heap_impl_heap [of ?b f k ?c n v] n len by auto
    have "rearranges (a1[f + h := v]) (?b[f + ?c := v]) f (f + n)"
      using n len mset_hole_move [of "f + h" a1 "f + ?c" v]
      by (auto simp: rearranges_def nth_list_update)
    then have "rearranges (a[f + k := v]) b f (f + n)"
      using h(6) b(3) rearranges_trans by blast
    moreover have "adjust_heap_impl cmp a f k n v = Some b"
      using True h(1) b(1) n len by (simp add: adjust_heap_impl_def Let_def)
    ultimately show ?thesis using b by blast
  next
    case False
    then have "n \<le> 2 * h + 1"
      using h(5) one_child [of n h] by linarith
    then have leaf: "\<not> cmp v (a1 ! (f + i))" if "0 < i" "i < n" "(i - 1) div 2 = h" for i
      using childless [of n h i] that by simp
    obtain b where b: "push_heap_impl cmp a1 f h k v = Some b" "heap_from cmp b f k n"
        "rearranges (a1[f + h := v]) b f (f + n)"
      using push_heap_impl_heap [OF h(2-4) len leaf] by blast
    moreover have "adjust_heap_impl cmp a f k n v = Some b"
      using False h(1) b(1) by (auto simp: adjust_heap_impl_def Let_def)
    ultimately show ?thesis
      using h(6) rearranges_trans by blast
  qed
qed

lemma heap_root:
  assumes "heap_from cmp a f 0 n" and "i < n"
  shows "\<not> cmp (a ! f) (a ! (f + i))"
  using assms(2)
proof (induction i rule: less_induct)
  case (less i)
  show ?case
  proof (cases "i = 0")
    case False
    then have "\<not> cmp (a ! (f + (i - 1) div 2)) (a ! (f + i))"
      using assms(1) less.prems by (simp add: heap_from_def)
    moreover have "\<not> cmp (a ! f) (a ! (f + (i - 1) div 2))"
      using less.IH [of "(i - 1) div 2"] parent_less [of i] False less.prems by simp
    ultimately show ?thesis
      using cmp_le_trans by blast
  qed simp
qed

lemma pop_heap_impl_heap:
  assumes "heap_from cmp a f 0 n" and "0 < n" and "f + n \<le> r" and "r < length a"
  shows "\<exists>b. pop_heap_impl cmp a f (f + n) r = Some b \<and> heap_from cmp b f 0 n \<and> b ! r = a ! f \<and>
    rearranges a b f (Suc r) \<and> rearranges (a[r := a ! f, f := a ! r]) b f (f + n)"
proof -
  let ?a = "a[r := a ! f]"
  have "heap_from cmp ?a f (Suc 0) n"
    using assms(1,3) by (auto simp: heap_from_def nth_list_update)
  then obtain b where b: "adjust_heap_impl cmp ?a f 0 n (a ! r) = Some b" "heap_from cmp b f 0 n"
      "rearranges (?a[f + 0 := a ! r]) b f (f + n)"
    using adjust_heap_impl_heap [of ?a f 0 n "a ! r"] assms by auto
  have "rearranges a (?a[f := a ! r]) f (Suc r)"
    using assms rearranges_swap [of f r "Suc r" f a] by simp
  then have "rearranges a b f (Suc r)"
    using rearranges_trans rearranges_mono [OF b(3), of f "Suc r"] assms(3) by simp blast
  moreover have "b ! r = a ! f"
    using rearranges_outside [OF b(3), of r] assms by simp
  moreover have "pop_heap_impl cmp a f (f + n) r = Some b"
    using b(1) assms by (simp add: pop_heap_impl_def)
  ultimately show ?thesis
    using b by simp
qed

lemma make_heap_loop_heap:
  assumes "heap_from cmp a f (Suc k) n" and "k < n" and "f + n \<le> length a"
  shows "\<exists>b. make_heap_loop cmp a f n k = Some b \<and> heap_from cmp b f 0 n \<and> rearranges a b f (f + n)"
  using assms
proof (induction k arbitrary: a)
  case 0
  then show ?case
    using adjust_heap_impl_heap [of a f 0 n "a ! f"]
    by (simp add: make_heap_loop.simps [of cmp a])
next
  case (Suc k)
  obtain b where b: "adjust_heap_impl cmp a f (Suc k) n (a ! (f + Suc k)) = Some b"
      "heap_from cmp b f (Suc k) n" "rearranges a b f (f + n)"
    using adjust_heap_impl_heap [OF Suc.prems, of "a ! (f + Suc k)"] by auto
  obtain c where c: "make_heap_loop cmp b f n k = Some c" "heap_from cmp c f 0 n"
      "rearranges b c f (f + n)"
    using Suc.IH [OF b(2)] Suc.prems rearranges_length [OF b(3)] by auto
  have "make_heap_loop cmp a f n (Suc k) = Some c"
    using b(1) c(1) Suc.prems by (simp add: make_heap_loop.simps [of cmp a])
  then show ?case
    using b c rearranges_trans by blast
qed

lemma make_heap_impl_heap:
  assumes "first \<le> stop" and "stop \<le> length a"
  shows "\<exists>b. make_heap_impl cmp a first stop = Some b \<and> heap_from cmp b first 0 (stop - first) \<and>
    rearranges a b first stop"
proof (cases "stop - first < 2")
  case True
  then have "heap_from cmp a first 0 (stop - first)"
    by (auto simp: heap_from_def)
  then show ?thesis
    using True by (auto simp: make_heap_impl_def)
next
  case False
  let ?n = "stop - first"
  have "heap_from cmp a first (Suc ((?n - 2) div 2)) ?n"
    using False unfolding heap_from_def by presburger
  then show ?thesis
    using make_heap_loop_heap [of a first "(?n - 2) div 2" ?n] False assms
    by (simp add: make_heap_impl_def)
qed

lemma sort_heap_impl_sorts:
  assumes "heap_from cmp a f 0 n" and "f + n \<le> length a"
  shows "\<exists>b. sort_heap_impl cmp a f (f + n) = Some b \<and> sorted_range cmp b f (f + n) \<and>
    rearranges a b f (f + n)"
  using assms
proof (induction n arbitrary: a)
  case 0
  then show ?case
    by (simp add: sort_heap_impl.simps [of cmp a] sorted_range_singleton)
next
  case (Suc n)
  show ?case
  proof (cases "n = 0")
    case True
    then show ?thesis
      by (simp add: sort_heap_impl.simps [of cmp a] sorted_range_singleton)
  next
    case False
    have sub: "heap_from cmp a f 0 n"
      using Suc.prems(1) by (simp add: heap_from_def)
    obtain a1 where a1: "pop_heap_impl cmp a f (f + n) (f + n) = Some a1" "heap_from cmp a1 f 0 n"
        "a1 ! (f + n) = a ! f" "rearranges a a1 f (Suc (f + n))"
      using pop_heap_impl_heap [OF sub, of "f + n"] False Suc.prems(2) by auto
    have len: "length a1 = length a"
      using a1(4) by (rule rearranges_length)
    obtain b where b: "sort_heap_impl cmp a1 f (f + n) = Some b" "sorted_range cmp b f (f + n)"
        "rearranges a1 b f (f + n)"
      using Suc.IH [OF a1(2)] Suc.prems(2) len by auto
    have all: "rearranges a b f (f + Suc n)"
      using a1(4) rearranges_mono [OF b(3), of f "Suc (f + n)"] rearranges_trans by auto
    have top_elem: "b ! (f + n) = a ! f"
      using rearranges_outside [OF b(3), of "f + n"] a1(3) len Suc.prems(2) by simp
    have "\<not> cmp (a ! f) (b ! i)" if "f \<le> i" "i < f + Suc n" for i
    proof (rule rearranges_all [OF all Suc.prems(2) _ that])
      show "\<not> cmp (a ! f) (a ! j)" if "f \<le> j" "j < f + Suc n" for j
        using heap_root [OF Suc.prems(1), of "j - f"] that by simp
    qed
    then have "sorted_range cmp b f (f + Suc n)"
      using b(2) top_elem unfolding sorted_range_def
      by (metis add_Suc_right less_Suc_eq less_imp_le order.strict_trans)
    moreover have "sort_heap_impl cmp a f (f + Suc n) = Some b"
      using a1(1) b(1) False by (simp add: sort_heap_impl.simps [of cmp a])
    ultimately show ?thesis
      using all by blast
  qed
qed

end

section \<open>Properties\<close>

lemma is_heap_until_loop_prefix:
  assumes "f + n \<le> length a" and "heap_from cmp a f 0 child" and "0 < child" and "child \<le> n"
  shows "\<exists>r. is_heap_until_loop cmp a f n ((child - 1) div 2) child = Some r \<and> r \<le> n \<and>
    heap_from cmp a f 0 r \<and> (r < n \<longrightarrow> 0 < r \<and> cmp (a ! (f + (r - 1) div 2)) (a ! (f + r)))"
  using assms(2-4)
proof (induction "n - child" arbitrary: child)
  case 0
  then have "child = n" by simp
  then show ?case
    using 0 by (simp add: is_heap_until_loop.simps [of cmp a f n])
next
  case (Suc k)
  let ?p = "(child - 1) div 2"
  have lt: "child < n" and p: "f + ?p < length a"
    using Suc(2) Suc.prems assms(1) parent_less [of child] by linarith+
  have next_parent: "(if even child then ?p + 1 else ?p) = (child + 1 - 1) div 2"
    using Suc.prems(2) by presburger
  show ?case
  proof (cases "cmp (a ! (f + ?p)) (a ! (f + child))")
    case True
    then show ?thesis
      using lt p Suc.prems assms(1) by (subst is_heap_until_loop.simps) simp
  next
    case False
    have "heap_from cmp a f 0 (child + 1)"
      using Suc.prems(1) False by (auto simp: heap_from_def less_Suc_eq)
    moreover have "is_heap_until_loop cmp a f n ?p child =
        is_heap_until_loop cmp a f n ((child + 1 - 1) div 2) (child + 1)"
      using False lt p assms(1) next_parent
      by (subst is_heap_until_loop.simps) (simp del: add_diff_cancel_right')
    ultimately show ?thesis
      using Suc.hyps(1) [of "child + 1"] Suc(2) lt by simp
  qed
qed

text \<open>
  \<open>push_heap\<close> on a range whose last element is new and whose other elements
  form a heap makes the whole range a heap of the same elements and touches nothing outside.
\<close>

theorem push_heap_heap:
  assumes "strict_weak_ordering cmp" and "first < stop" and "stop \<le> length a"
    and "heap_from cmp a first 0 (stop - first - 1)"
  shows "\<exists>b. push_heap cmp a first stop = Some b \<and> heap_from cmp b first 0 (stop - first) \<and>
    rearranges a b first stop"
proof -
  let ?n = "stop - first"
  have "holed cmp a first 0 (?n - 1) ?n"
    unfolding holed_def
  proof (intro conjI allI impI)
    fix i
    assume "0 < i \<and> i < ?n \<and> 0 \<le> (i - 1) div 2 \<and> i \<noteq> ?n - 1 \<and> (i - 1) div 2 \<noteq> ?n - 1"
    then show "\<not> cmp (a ! (first + (i - 1) div 2)) (a ! (first + i))"
      using assms(4) by (auto simp: heap_from_def)
  next
    fix i
    assume "0 < i \<and> i < ?n \<and> (i - 1) div 2 = ?n - 1"
    then show "\<not> cmp (a ! (first + (?n - 1 - 1) div 2)) (a ! (first + i))"
      using childless [of ?n "?n - 1" i] by auto
  qed
  moreover have "under 0 i" for i
    by (induction i rule: less_induct) (use parent_less in \<open>subst under.simps, auto\<close>)
  moreover have "\<not> cmp v (a ! (first + i))" if "0 < i" "i < ?n" "(i - 1) div 2 = ?n - 1" for i v
    using childless [of ?n "?n - 1" i] that by auto
  moreover have "?n - 1 < ?n"
    using assms(2) by simp
  ultimately obtain b where b: "push_heap_impl cmp a first (?n - 1) 0 (a ! (stop - 1)) = Some b"
      "heap_from cmp b first 0 ?n" "rearranges (a[first + (?n - 1) := a ! (stop - 1)]) b first (first + ?n)"
    using strict_weak_ordering.push_heap_impl_heap [OF assms(1), of a first 0 "?n - 1" ?n "a ! (stop - 1)"]
      assms(2,3) by auto
  have "first + (?n - 1) = stop - 1" "first + ?n = stop"
    using assms(2) by auto
  then show ?thesis
    using b assms(2,3) by (auto simp: push_heap_def)
qed

theorem push_heap_heap_witness:
  "\<exists>b. push_heap iter_less_iter [9, 4, 7, 1, 8 :: int] 0 5 = Some b \<and>
    heap_from iter_less_iter b 0 0 5 \<and> rearranges [9, 4, 7, 1, 8] b 0 5"
proof -
  have "heap_from iter_less_iter [9, 4, 7, 1, 8 :: int] 0 0 (5 - 0 - 1)"
    by (auto simp: heap_from_def iter_less_iter_def less_Suc_eq numeral_eq_Suc)
  from push_heap_heap [OF less.strict_weak_ordering_axioms _ _ this] show ?thesis by simp
qed

text \<open>
  \<open>pop_heap\<close> moves an element that no other is greater than to the end of
  the range and leaves a heap of the others in front of it.
\<close>

theorem pop_heap_maximum:
  assumes "strict_weak_ordering cmp" and "first < stop" and "stop \<le> length a"
    and "heap_from cmp a first 0 (stop - first)"
  shows "\<exists>b. pop_heap cmp a first stop = Some b \<and> heap_from cmp b first 0 (stop - first - 1) \<and>
    rearranges a b first stop \<and> (\<forall>i. first \<le> i \<and> i < stop \<longrightarrow> \<not> cmp (b ! (stop - 1)) (b ! i))"
proof -
  let ?n = "stop - first"
  have root: "\<not> cmp (a ! first) (a ! i)" if "first \<le> i" "i < stop" for i
    using strict_weak_ordering.heap_root [OF assms(1,4), of "i - first"] that by simp
  show ?thesis
  proof (cases "?n > 1")
    case True
    have "heap_from cmp a first 0 (?n - 1)"
      using assms(4) by (auto simp: heap_from_def)
    then obtain b where b: "pop_heap_impl cmp a first (first + (?n - 1)) (stop - 1) = Some b"
        "heap_from cmp b first 0 (?n - 1)" "b ! (stop - 1) = a ! first"
        "rearranges a b first (Suc (stop - 1))"
      using strict_weak_ordering.pop_heap_impl_heap [OF assms(1), of a first "?n - 1" "stop - 1"]
        True assms(3) less_le_trans [of "stop - 1" stop "length a"] by (auto simp: less_diff_conv)
    have stop: "first + (?n - 1) = stop - 1" "Suc (stop - 1) = stop"
      using True by auto
    have "\<not> cmp (a ! first) (b ! i)" if "first \<le> i" "i < stop" for i
      using rearranges_all [of a b first stop "\<lambda>x. \<not> cmp (a ! first) x", OF _ assms(3) root that]
        b(4) stop by simp
    then show ?thesis
      using b True stop by (auto simp: pop_heap_def)
  next
    case False
    then have "stop = Suc first" using assms(2) by simp
    moreover have "\<not> cmp (a ! first) (a ! first)"
      using root [of first] assms(2) by simp
    ultimately show ?thesis
      using assms(4) by (auto simp: pop_heap_def heap_from_def le_less_Suc_eq)
  qed
qed

theorem pop_heap_maximum_witness:
  "\<exists>b. pop_heap iter_less_iter [9, 4, 7, 1 :: int] 0 4 = Some b \<and>
    heap_from iter_less_iter b 0 0 3 \<and> rearranges [9, 4, 7, 1] b 0 4 \<and>
    (\<forall>i. 0 \<le> i \<and> i < 4 \<longrightarrow> \<not> iter_less_iter (b ! 3) (b ! i))"
proof -
  have "heap_from iter_less_iter [9, 4, 7, 1 :: int] 0 0 (4 - 0)"
    by (auto simp: heap_from_def iter_less_iter_def less_Suc_eq numeral_eq_Suc)
  from pop_heap_maximum [OF less.strict_weak_ordering_axioms _ _ this] show ?thesis
    by (simp add: numeral_3_eq_3)
qed

text \<open>
  C7. \<open>make_heap\<close> turns any range into a heap of its elements, and \<open>sort_heap\<close>
  then sorts it: no element is smaller than an earlier one, the elements are the same, and nothing
  outside the range changes.
\<close>

theorem heap_sort_sorts:
  assumes "strict_weak_ordering cmp" and "first \<le> stop" and "stop \<le> length a"
  shows "\<exists>b c. make_heap cmp a first stop = Some b \<and> heap_from cmp b first 0 (stop - first) \<and>
    rearranges a b first stop \<and> sort_heap cmp b first stop = Some c \<and>
    sorted_range cmp c first stop \<and> rearranges a c first stop"
proof -
  obtain b where b: "make_heap_impl cmp a first stop = Some b" "heap_from cmp b first 0 (stop - first)"
      "rearranges a b first stop"
    using strict_weak_ordering.make_heap_impl_heap [OF assms] by blast
  obtain c where "sort_heap_impl cmp b first stop = Some c" "sorted_range cmp c first stop"
      "rearranges b c first stop"
    using strict_weak_ordering.sort_heap_impl_sorts [OF assms(1) b(2)] assms(2,3)
      rearranges_length [OF b(3)] by auto
  then show ?thesis
    using b rearranges_trans by (auto simp: make_heap_def sort_heap_def)
qed

theorem heap_sort_sorts_witness:
  "\<exists>b c. make_heap iter_less_iter [3, 1, 4, 1, 5 :: int] 1 5 = Some b \<and>
    heap_from iter_less_iter b 1 0 4 \<and> rearranges [3, 1, 4, 1, 5] b 1 5 \<and>
    sort_heap iter_less_iter b 1 5 = Some c \<and> sorted_range iter_less_iter c 1 5 \<and>
    rearranges [3, 1, 4, 1, 5] c 1 5"
  using heap_sort_sorts [OF less.strict_weak_ordering_axioms, of 1 5 "[3, 1, 4, 1, 5 :: int]"] by simp

text \<open>
  \<open>is_heap_until\<close> returns the end of the longest prefix of the range
  that is a heap, for any comparison.
\<close>

theorem is_heap_until_longest:
  assumes "first \<le> stop" and "stop \<le> length a"
  shows "\<exists>i. is_heap_until cmp a first stop = Some i \<and> first \<le> i \<and> i \<le> stop \<and>
    heap_from cmp a first 0 (i - first) \<and>
    (\<forall>j. i < j \<and> j \<le> stop \<longrightarrow> \<not> heap_from cmp a first 0 (j - first))"
proof (cases "stop = first")
  case True
  then show ?thesis
    by (simp add: is_heap_until_def is_heap_until_impl_def is_heap_until_loop.simps [of cmp a]
        heap_from_def)
next
  case False
  let ?n = "stop - first"
  have "1 \<le> ?n"
    using False assms(1) by simp
  then obtain r where r: "is_heap_until_loop cmp a first ?n 0 1 = Some r" "r \<le> ?n" "heap_from cmp a first 0 r"
      "r < ?n \<longrightarrow> 0 < r \<and> cmp (a ! (first + (r - 1) div 2)) (a ! (first + r))"
    using is_heap_until_loop_prefix [of first ?n a cmp 1] False assms by (auto simp: heap_from_def)
  have "\<not> heap_from cmp a first 0 (j - first)" if "first + r < j" "j \<le> stop" for j
  proof -
    have "r < j - first" "r < ?n" using that by linarith+
    then show ?thesis using r(4) by (auto simp: heap_from_def)
  qed
  then show ?thesis
    using r assms(1) by (auto simp: is_heap_until_def is_heap_until_impl_def)
qed

theorem is_heap_until_longest_witness:
  "\<exists>i. is_heap_until iter_less_iter [9, 4, 7, 5 :: int] 0 4 = Some i \<and> 0 \<le> i \<and> i \<le> 4 \<and>
    heap_from iter_less_iter [9, 4, 7, 5 :: int] 0 0 (i - 0) \<and>
    (\<forall>j. i < j \<and> j \<le> 4 \<longrightarrow> \<not> heap_from iter_less_iter [9, 4, 7, 5 :: int] 0 0 (j - 0))"
  by (rule is_heap_until_longest) simp_all

end
