(* ===== verification/Stl_Sort.thy ===== *)
theory Stl_Sort
  imports Stl_Heap
begin

text \<open>
  The sorting algorithms of \<open>sysincludes/c++/8/bits/stl_algo.h\<close>: insertion sort with and without a
  guard, the partition around a median of three, introsort, partial sort and selection. The loops
  that the source calls unguarded run until a comparison stops them; in the model they may leave
  the array, which is the value \<open>None\<close>. Ranges are valid, so a loop that the source ends at
  \<open>__i == __last\<close> is one up to \<open>stop\<close> here.
\<close>

section \<open>Functions\<close>

definition iter_swap :: "'a list \<Rightarrow> nat \<Rightarrow> nat \<Rightarrow> 'a list option" where
  "iter_swap a i j = do {
     x \<leftarrow> buf_get a i;
     y \<leftarrow> buf_get a j;
     a \<leftarrow> buf_put a i y;
     buf_put a j x }"

definition move_median_to_first ::
    "('a \<Rightarrow> 'a \<Rightarrow> bool) \<Rightarrow> 'a list \<Rightarrow> nat \<Rightarrow> nat \<Rightarrow> nat \<Rightarrow> nat \<Rightarrow> 'a list option" where
  "move_median_to_first cmp xs result a b c = do {
     x \<leftarrow> buf_get xs a;
     y \<leftarrow> buf_get xs b;
     z \<leftarrow> buf_get xs c;
     if cmp x y then
       (if cmp y z then iter_swap xs result b
        else if cmp x z then iter_swap xs result c
        else iter_swap xs result a)
     else if cmp x z then iter_swap xs result a
     else if cmp y z then iter_swap xs result c
     else iter_swap xs result b }"

function heap_select_loop ::
    "('a \<Rightarrow> 'a \<Rightarrow> bool) \<Rightarrow> 'a list \<Rightarrow> nat \<Rightarrow> nat \<Rightarrow> nat \<Rightarrow> nat \<Rightarrow> 'a list option" where
  "heap_select_loop cmp a first middle stop i =
     (if i < stop then do {
        x \<leftarrow> buf_get a i;
        y \<leftarrow> buf_get a first;
        a \<leftarrow> (if cmp x y then pop_heap_impl cmp a first middle i else Some a);
        heap_select_loop cmp a first middle stop (i + 1) }
      else Some a)"
  by pat_completeness auto
termination
  by (relation "measure (\<lambda>(cmp, a, first, middle, stop, i). stop - i)") auto

definition heap_select ::
    "('a \<Rightarrow> 'a \<Rightarrow> bool) \<Rightarrow> 'a list \<Rightarrow> nat \<Rightarrow> nat \<Rightarrow> nat \<Rightarrow> 'a list option" where
  "heap_select cmp a first middle stop = do {
     a \<leftarrow> make_heap_impl cmp a first middle;
     heap_select_loop cmp a first middle stop middle }"

text \<open>The loop of \<open>__unguarded_linear_insert\<close>, with \<open>__last\<close> and the value in hand.\<close>

fun linear_insert_loop :: "('a \<Rightarrow> 'a \<Rightarrow> bool) \<Rightarrow> 'a list \<Rightarrow> nat \<Rightarrow> 'a \<Rightarrow> 'a list option" where
  "linear_insert_loop cmp a 0 v = None"
| "linear_insert_loop cmp a (Suc i) v = do {
     x \<leftarrow> buf_get a i;
     if cmp v x then do {
       a \<leftarrow> buf_put a (Suc i) x;
       linear_insert_loop cmp a i v }
     else buf_put a (Suc i) v }"

definition unguarded_linear_insert :: "('a \<Rightarrow> 'a \<Rightarrow> bool) \<Rightarrow> 'a list \<Rightarrow> nat \<Rightarrow> 'a list option" where
  "unguarded_linear_insert cmp a l = do {
     v \<leftarrow> buf_get a l;
     linear_insert_loop cmp a l v }"

text \<open>\<open>move_backward(last - n, last, result)\<close>.\<close>

fun move_backward_n :: "'a list \<Rightarrow> nat \<Rightarrow> nat \<Rightarrow> nat \<Rightarrow> 'a list option" where
  "move_backward_n a stop result 0 = Some a"
| "move_backward_n a stop result (Suc n) = do {
     x \<leftarrow> buf_get a (stop - 1);
     a \<leftarrow> buf_put a (result - 1) x;
     move_backward_n a (stop - 1) (result - 1) n }"

function insertion_sort_loop ::
    "('a \<Rightarrow> 'a \<Rightarrow> bool) \<Rightarrow> 'a list \<Rightarrow> nat \<Rightarrow> nat \<Rightarrow> nat \<Rightarrow> 'a list option" where
  "insertion_sort_loop cmp a first stop i =
     (if i < stop then do {
        x \<leftarrow> buf_get a i;
        y \<leftarrow> buf_get a first;
        a \<leftarrow> (if cmp x y then do {
               a \<leftarrow> move_backward_n a i (i + 1) (i - first);
               buf_put a first x }
             else unguarded_linear_insert cmp a i);
        insertion_sort_loop cmp a first stop (i + 1) }
      else Some a)"
  by pat_completeness auto
termination
  by (relation "measure (\<lambda>(cmp, a, first, stop, i). stop - i)") auto

definition insertion_sort :: "('a \<Rightarrow> 'a \<Rightarrow> bool) \<Rightarrow> 'a list \<Rightarrow> nat \<Rightarrow> nat \<Rightarrow> 'a list option" where
  "insertion_sort cmp a first stop =
     (if first = stop then Some a else insertion_sort_loop cmp a first stop (first + 1))"

function unguarded_insertion_sort ::
    "('a \<Rightarrow> 'a \<Rightarrow> bool) \<Rightarrow> 'a list \<Rightarrow> nat \<Rightarrow> nat \<Rightarrow> 'a list option" where
  "unguarded_insertion_sort cmp a i stop =
     (if i < stop then do {
        a \<leftarrow> unguarded_linear_insert cmp a i;
        unguarded_insertion_sort cmp a (i + 1) stop }
      else Some a)"
  by pat_completeness auto
termination
  by (relation "measure (\<lambda>(cmp, a, i, stop). stop - i)") auto

declare heap_select_loop.simps [simp del] insertion_sort_loop.simps [simp del]
  unguarded_insertion_sort.simps [simp del]

definition S_threshold :: nat where
  "S_threshold = 16"

definition final_insertion_sort ::
    "('a \<Rightarrow> 'a \<Rightarrow> bool) \<Rightarrow> 'a list \<Rightarrow> nat \<Rightarrow> nat \<Rightarrow> 'a list option" where
  "final_insertion_sort cmp a first stop =
     (if stop - first > S_threshold then do {
        a \<leftarrow> insertion_sort cmp a first (first + S_threshold);
        unguarded_insertion_sort cmp a (first + S_threshold) stop }
      else insertion_sort cmp a first stop)"

text \<open>The two inner loops of \<open>__unguarded_partition\<close>.\<close>

function scan_up :: "('a \<Rightarrow> 'a \<Rightarrow> bool) \<Rightarrow> 'a list \<Rightarrow> nat \<Rightarrow> nat \<Rightarrow> nat option" where
  "scan_up cmp a i pivot =
     (case buf_get a i of None \<Rightarrow> None
      | Some x \<Rightarrow> (case buf_get a pivot of None \<Rightarrow> None
          | Some p \<Rightarrow> if cmp x p then scan_up cmp a (i + 1) pivot else Some i))"
  by pat_completeness auto
termination
  by (relation "measure (\<lambda>(cmp, a, i, pivot). length a - i)")
    (auto simp: buf_get_def split: if_splits)

declare scan_up.simps [simp del]

fun scan_down :: "('a \<Rightarrow> 'a \<Rightarrow> bool) \<Rightarrow> 'a list \<Rightarrow> nat \<Rightarrow> nat \<Rightarrow> nat option" where
  "scan_down cmp a j pivot = do {
     p \<leftarrow> buf_get a pivot;
     x \<leftarrow> buf_get a j;
     if cmp p x then (case j of 0 \<Rightarrow> None | Suc j' \<Rightarrow> scan_down cmp a j' pivot) else Some j }"

declare scan_down.simps [simp del]

lemma scan_down_le: "scan_down cmp a j pivot = Some k \<Longrightarrow> k \<le> j"
proof (induction j)
  case 0
  then show ?case
    by (auto simp: scan_down.simps [of cmp a 0] bind_eq_Some_conv split: if_splits)
next
  case (Suc j)
  then show ?case
    by (auto simp: scan_down.simps [of cmp a "Suc j"] bind_eq_Some_conv split: if_splits)
qed

function unguarded_partition ::
    "('a \<Rightarrow> 'a \<Rightarrow> bool) \<Rightarrow> 'a list \<Rightarrow> nat \<Rightarrow> nat \<Rightarrow> nat \<Rightarrow> ('a list \<times> nat) option" where
  "unguarded_partition cmp a first stop pivot =
     (case scan_up cmp a first pivot of None \<Rightarrow> None
      | Some i \<Rightarrow> (case stop of 0 \<Rightarrow> None
          | Suc l \<Rightarrow> (case scan_down cmp a l pivot of None \<Rightarrow> None
              | Some j \<Rightarrow>
                  if \<not> i < j then Some (a, i)
                  else (case iter_swap a i j of None \<Rightarrow> None
                      | Some a' \<Rightarrow> unguarded_partition cmp a' (i + 1) j pivot))))"
  by pat_completeness auto
termination
  by (relation "measure (\<lambda>(cmp, a, first, stop, pivot). stop)") (auto dest: scan_down_le)

declare unguarded_partition.simps [simp del]

definition unguarded_partition_pivot ::
    "('a \<Rightarrow> 'a \<Rightarrow> bool) \<Rightarrow> 'a list \<Rightarrow> nat \<Rightarrow> nat \<Rightarrow> ('a list \<times> nat) option" where
  "unguarded_partition_pivot cmp a first stop = do {
     let mid = first + (stop - first) div 2;
     a \<leftarrow> move_median_to_first cmp a first (first + 1) mid (stop - 1);
     unguarded_partition cmp a (first + 1) stop first }"

definition partial_sort_impl ::
    "('a \<Rightarrow> 'a \<Rightarrow> bool) \<Rightarrow> 'a list \<Rightarrow> nat \<Rightarrow> nat \<Rightarrow> nat \<Rightarrow> 'a list option" where
  "partial_sort_impl cmp a first middle stop = do {
     a \<leftarrow> heap_select cmp a first middle stop;
     sort_heap_impl cmp a first middle }"

fun introsort_loop :: "('a \<Rightarrow> 'a \<Rightarrow> bool) \<Rightarrow> 'a list \<Rightarrow> nat \<Rightarrow> nat \<Rightarrow> nat \<Rightarrow> 'a list option" where
  "introsort_loop cmp a first stop depth_limit =
     (if stop - first > S_threshold then
        (case depth_limit of 0 \<Rightarrow> partial_sort_impl cmp a first stop stop
         | Suc depth_limit \<Rightarrow> do {
             (a, cut) \<leftarrow> unguarded_partition_pivot cmp a first stop;
             a \<leftarrow> introsort_loop cmp a cut stop depth_limit;
             introsort_loop cmp a first cut depth_limit })
      else Some a)"

text \<open>\<open>__lg\<close>: the index of the highest bit.\<close>

fun lg :: "nat \<Rightarrow> nat" where
  "lg n = (if n \<le> 1 then 0 else Suc (lg (n div 2)))"

declare introsort_loop.simps [simp del] lg.simps [simp del]

definition sort_impl :: "('a \<Rightarrow> 'a \<Rightarrow> bool) \<Rightarrow> 'a list \<Rightarrow> nat \<Rightarrow> nat \<Rightarrow> 'a list option" where
  "sort_impl cmp a first stop =
     (if first \<noteq> stop then do {
        a \<leftarrow> introsort_loop cmp a first stop (lg (stop - first) * 2);
        final_insertion_sort cmp a first stop }
      else Some a)"

fun introselect :: "('a \<Rightarrow> 'a \<Rightarrow> bool) \<Rightarrow> 'a list \<Rightarrow> nat \<Rightarrow> nat \<Rightarrow> nat \<Rightarrow> nat \<Rightarrow> 'a list option" where
  "introselect cmp a first nth_pos stop depth_limit =
     (if stop - first > 3 then
        (case depth_limit of 0 \<Rightarrow> do {
             a \<leftarrow> heap_select cmp a first (nth_pos + 1) stop;
             iter_swap a first nth_pos }
         | Suc depth_limit \<Rightarrow> do {
             (a, cut) \<leftarrow> unguarded_partition_pivot cmp a first stop;
             if cut \<le> nth_pos then introselect cmp a cut nth_pos stop depth_limit
             else introselect cmp a first nth_pos cut depth_limit })
      else insertion_sort cmp a first stop)"

declare introselect.simps [simp del]

definition partial_sort :: "('a \<Rightarrow> 'a \<Rightarrow> bool) \<Rightarrow> 'a list \<Rightarrow> nat \<Rightarrow> nat \<Rightarrow> nat \<Rightarrow> 'a list option" where
  "partial_sort cmp a first middle stop = partial_sort_impl cmp a first middle stop"

definition partial_sort_less :: "'a :: linorder list \<Rightarrow> nat \<Rightarrow> nat \<Rightarrow> nat \<Rightarrow> 'a list option" where
  "partial_sort_less a first middle stop = partial_sort_impl iter_less_iter a first middle stop"

definition nth_element :: "('a \<Rightarrow> 'a \<Rightarrow> bool) \<Rightarrow> 'a list \<Rightarrow> nat \<Rightarrow> nat \<Rightarrow> nat \<Rightarrow> 'a list option" where
  "nth_element cmp a first nth_pos stop =
     (if first = stop \<or> nth_pos = stop then Some a
      else introselect cmp a first nth_pos stop (lg (stop - first) * 2))"

definition nth_element_less :: "'a :: linorder list \<Rightarrow> nat \<Rightarrow> nat \<Rightarrow> nat \<Rightarrow> 'a list option" where
  "nth_element_less a first nth_pos stop =
     (if first = stop \<or> nth_pos = stop then Some a
      else introselect iter_less_iter a first nth_pos stop (lg (stop - first) * 2))"

definition sort_range :: "('a \<Rightarrow> 'a \<Rightarrow> bool) \<Rightarrow> 'a list \<Rightarrow> nat \<Rightarrow> nat \<Rightarrow> 'a list option" where
  "sort_range cmp a first stop = sort_impl cmp a first stop"

definition sort_range_less :: "'a :: linorder list \<Rightarrow> nat \<Rightarrow> nat \<Rightarrow> 'a list option" where
  "sort_range_less a first stop = sort_impl iter_less_iter a first stop"

section \<open>Insertion\<close>

lemma rearranges_hole:
  assumes "l \<le> h" "h < r" "l \<le> c" "c < r" "r \<le> length a"
  shows "rearranges (a[h := v]) (a[h := a ! c, c := v]) l r"
  using assms mset_hole_move [of h a c v] by (auto simp: rearranges_def nth_list_update)

lemma sorted_range_Suc:
  assumes "sorted_range cmp a f r" and "\<And>i. f \<le> i \<Longrightarrow> i < r \<Longrightarrow> \<not> cmp (a ! r) (a ! i)"
  shows "sorted_range cmp a f (Suc r)"
  using assms by (auto simp: sorted_range_def less_Suc_eq)

lemma move_backward_n_shift:
  assumes "n \<le> i" and "i < length a"
  shows "\<exists>b. move_backward_n a i (Suc i) n = Some b \<and> length b = length a \<and>
    (\<forall>k < length a. b ! k = (if i - n < k \<and> k \<le> i then a ! (k - 1) else a ! k)) \<and>
    (\<forall>v. rearranges (a[i := v]) (b[i - n := v]) (i - n) (Suc i))"
  using assms
proof (induction n arbitrary: a i)
  case (Suc n)
  then obtain i' where i: "i = Suc i'"
    by (cases i) auto
  let ?a = "a[Suc i' := a ! i']"
  obtain b where b: "move_backward_n ?a i' (Suc i') n = Some b" "length b = length a"
      "\<forall>k < length a. b ! k = (if i' - n < k \<and> k \<le> i' then ?a ! (k - 1) else ?a ! k)"
      "\<forall>v. rearranges (?a[i' := v]) (b[i' - n := v]) (i' - n) (Suc i')"
    using Suc.IH [of i' ?a] Suc.prems i by auto
  have "rearranges (a[i := v]) (b[i' - n := v]) (i' - n) (Suc i)" for v
  proof (rule rearranges_trans)
    show "rearranges (a[i := v]) (?a[i' := v]) (i' - n) (Suc i)"
      using rearranges_hole [of "i' - n" i "Suc i" i' a v] Suc.prems i by simp
    show "rearranges (?a[i' := v]) (b[i' - n := v]) (i' - n) (Suc i)"
      by (rule rearranges_mono [OF b(4) [rule_format]]) (simp_all add: i)
  qed
  moreover have "b ! k = (if i' - n < k \<and> k \<le> i then a ! (k - 1) else a ! k)" if "k < length a" for k
    using b(3) that i Suc.prems by (auto simp: nth_list_update)
  ultimately show ?case
    using b(1,2) i Suc.prems by auto
qed auto

context strict_weak_ordering
begin

lemma linear_insert_loop_sorts:
  assumes "f < l" and "l < r" and "r \<le> length a" and "\<not> cmp v (a ! f)"
    and "\<And>i j. f \<le> i \<Longrightarrow> i < j \<Longrightarrow> j < r \<Longrightarrow> i \<noteq> l \<Longrightarrow> j \<noteq> l \<Longrightarrow> \<not> cmp (a ! j) (a ! i)"
    and "\<And>j. l < j \<Longrightarrow> j < r \<Longrightarrow> cmp v (a ! j)"
  shows "\<exists>b. linear_insert_loop cmp a l v = Some b \<and> sorted_range cmp b f r \<and>
    rearranges (a[l := v]) b f r"
  using assms
proof (induction l arbitrary: a)
  case (Suc i)
  show ?case
  proof (cases "cmp v (a ! i)")
    case True
    then have fi: "f < i"
      using Suc.prems(1,4) by (cases "i = f") auto
    let ?a = "a[Suc i := a ! i]"
    have A: "\<not> cmp (?a ! k) (?a ! j)" if "f \<le> j" "j < k" "k < r" "j \<noteq> i" "k \<noteq> i" for j k
    proof -
      consider "j = Suc i" | "k = Suc i" | "j \<noteq> Suc i" "k \<noteq> Suc i" by blast
      then show ?thesis
      proof cases
        case 1
        then show ?thesis using Suc.prems(2,3) Suc.prems(5) [of i k] that fi by simp
      next
        case 2
        then show ?thesis using Suc.prems(2,3) Suc.prems(5) [of j i] that fi by simp
      next
        case 3
        then show ?thesis using Suc.prems(5) [of j k] that by simp
      qed
    qed
    have B: "cmp v (?a ! k)" if "i < k" "k < r" for k
      using that True Suc.prems(2,3) Suc.prems(6) [of k] by (cases "k = Suc i") simp_all
    have C: "i < r" "r \<le> length ?a" "\<not> cmp v (?a ! f)"
      using fi Suc.prems(2,3,4) by simp_all
    obtain b where b: "linear_insert_loop cmp ?a i v = Some b" "sorted_range cmp b f r"
        "rearranges (?a[i := v]) b f r"
      using Suc.IH [OF fi C A B] by blast
    have "rearranges (a[Suc i := v]) (?a[i := v]) f r"
      using fi Suc.prems(2,3) by (intro rearranges_hole) auto
    then have "rearranges (a[Suc i := v]) b f r"
      using b(3) by (rule rearranges_trans)
    moreover have "linear_insert_loop cmp a (Suc i) v = Some b"
      using b(1) True Suc.prems(2,3) by simp
    ultimately show ?thesis
      using b(2) by blast
  next
    case False
    have before: "\<not> cmp v (a ! j)" if "f \<le> j" "j < Suc i" for j
      using that False Suc.prems(2) Suc.prems(5) [of j i] cmp_le_trans [of "a ! i" "a ! j" v]
      by (cases "j = i") simp_all
    have "sorted_range cmp (a[Suc i := v]) f r"
      unfolding sorted_range_def
    proof (intro allI impI)
      fix j k
      assume jk: "f \<le> j \<and> j < k \<and> k < r"
      consider "j = Suc i" | "k = Suc i" | "j \<noteq> Suc i" "k \<noteq> Suc i" by blast
      then show "\<not> cmp (a[Suc i := v] ! k) (a[Suc i := v] ! j)"
      proof cases
        case 1
        then show ?thesis using jk Suc.prems(3) cmp_asym [OF Suc.prems(6) [of k]] by simp
      next
        case 2
        then show ?thesis using jk Suc.prems(2,3) before [of j] by simp
      next
        case 3
        then show ?thesis using jk Suc.prems(5) [of j k] by simp
      qed
    qed
    moreover have "linear_insert_loop cmp a (Suc i) v = Some (a[Suc i := v])"
      using False Suc.prems(2,3) by simp
    ultimately show ?thesis by simp
  qed
qed simp

lemma unguarded_linear_insert_sorts:
  assumes "sorted_range cmp a f l" and "f < l" and "l < length a" and "\<not> cmp (a ! l) (a ! f)"
  shows "\<exists>b. unguarded_linear_insert cmp a l = Some b \<and> sorted_range cmp b f (Suc l) \<and>
    rearranges a b f (Suc l)"
proof -
  have "\<not> cmp (a ! j) (a ! i)" if "f \<le> i" "i < j" "j < Suc l" "i \<noteq> l" "j \<noteq> l" for i j
    using assms(1) that by (auto simp: sorted_range_def)
  then show ?thesis
    using linear_insert_loop_sorts [of f l "Suc l" a "a ! l"] assms
    by (auto simp: unguarded_linear_insert_def)
qed

text \<open>One round of \<open>__insertion_sort\<close>, in either branch.\<close>

lemma insertion_step_sorts:
  assumes "sorted_range cmp a f i" and "f < i" and "i < length a"
  shows "\<exists>b. (if cmp (a ! i) (a ! f) then do {
        b \<leftarrow> move_backward_n a i (i + 1) (i - f);
        buf_put b f (a ! i) }
      else unguarded_linear_insert cmp a i) = Some b \<and>
    sorted_range cmp b f (Suc i) \<and> rearranges a b f (Suc i)"
proof (cases "cmp (a ! i) (a ! f)")
  case True
  obtain b where b: "move_backward_n a i (Suc i) (i - f) = Some b" "length b = length a"
      "\<forall>k < length a. b ! k = (if f < k \<and> k \<le> i then a ! (k - 1) else a ! k)"
      "\<forall>v. rearranges (a[i := v]) (b[f := v]) f (Suc i)"
    using move_backward_n_shift [of "i - f" i a] assms(2,3) by auto
  let ?b = "b[f := a ! i]"
  have first: "cmp (a ! i) (a ! j)" if "f \<le> j" "j < i" for j
  proof (cases "j = f")
    case False
    then have "\<not> cmp (a ! j) (a ! f)"
      using assms(1) that by (auto simp: sorted_range_def)
    then show ?thesis
      using True cmp_split by blast
  qed (use True in simp)
  have "sorted_range cmp ?b f (Suc i)"
    unfolding sorted_range_def
  proof (intro allI impI)
    fix j k
    assume jk: "f \<le> j \<and> j < k \<and> k < Suc i"
    then have k: "?b ! k = a ! (k - 1)"
      using b(2,3) assms(3) by (auto simp: nth_list_update)
    show "\<not> cmp (?b ! k) (?b ! j)"
    proof (cases "j = f")
      case True
      then have "f \<le> k - 1" "k - 1 < i"
        using jk by auto
      then show ?thesis
        using True k b(2) assms(2,3) cmp_asym [OF first [of "k - 1"]] by auto
    next
      case False
      then have "?b ! j = a ! (j - 1)"
        using jk b(2,3) assms(3) by (auto simp: nth_list_update)
      moreover have "f \<le> j - 1" "j - 1 < k - 1" "k - 1 < i"
        using False jk by auto
      ultimately show ?thesis
        using k assms(1) by (auto simp: sorted_range_def)
    qed
  qed
  moreover have "rearranges a ?b f (Suc i)"
    using b(4) [rule_format, of "a ! i"] by simp
  ultimately show ?thesis
    using True b assms(2,3) by auto
next
  case False
  then show ?thesis
    using unguarded_linear_insert_sorts [OF assms] by simp
qed

lemma insertion_sort_loop_sorts:
  assumes "sorted_range cmp a f i" and "f < i" and "i \<le> stop" and "stop \<le> length a"
  shows "\<exists>b. insertion_sort_loop cmp a f stop i = Some b \<and> sorted_range cmp b f stop \<and>
    rearranges a b f stop"
  using assms
proof (induction "stop - i" arbitrary: a i)
  case 0
  then show ?case
    by (simp add: insertion_sort_loop.simps [of cmp a])
next
  case (Suc n)
  then have i: "i < length a" "i < stop" and n: "n = stop - Suc i" by auto
  obtain b where b: "(if cmp (a ! i) (a ! f) then do {
        b \<leftarrow> move_backward_n a i (i + 1) (i - f);
        buf_put b f (a ! i) }
      else unguarded_linear_insert cmp a i) = Some b"
    "sorted_range cmp b f (Suc i)" "rearranges a b f (Suc i)"
    using insertion_step_sorts [OF Suc.prems(1,2) i(1)] by blast
  obtain c where c: "insertion_sort_loop cmp b f stop (Suc i) = Some c" "sorted_range cmp c f stop"
      "rearranges b c f stop"
    using Suc.hyps(1) [OF n, of b] b(2) Suc.prems i rearranges_length [OF b(3)] by auto
  have "insertion_sort_loop cmp a f stop i = Some c"
    using b(1) c(1) i Suc.prems(2) by (subst insertion_sort_loop.simps) simp
  moreover have "rearranges a c f stop"
    using rearranges_mono [OF b(3), of f stop] c(3) i(2) rearranges_trans by simp
  ultimately show ?case
    using c by blast
qed

lemma insertion_sort_sorts:
  assumes "f \<le> stop" and "stop \<le> length a"
  shows "\<exists>b. insertion_sort cmp a f stop = Some b \<and> sorted_range cmp b f stop \<and> rearranges a b f stop"
  using insertion_sort_loop_sorts [of a f "Suc f" stop] assms
  by (auto simp: insertion_sort_def sorted_range_singleton)

text \<open>
  Without the guard, an element that nothing in the range is smaller than must already stand first.
\<close>

lemma unguarded_insertion_sort_sorts:
  assumes "sorted_range cmp a f i" and "f < i" and "i \<le> stop" and "stop \<le> length a"
    and "\<And>j. f \<le> j \<Longrightarrow> j < stop \<Longrightarrow> \<not> cmp (a ! j) (a ! f)"
  shows "\<exists>b. unguarded_insertion_sort cmp a i stop = Some b \<and> sorted_range cmp b f stop \<and>
    rearranges a b f stop"
  using assms
proof (induction "stop - i" arbitrary: a i)
  case 0
  then show ?case
    by (simp add: unguarded_insertion_sort.simps [of cmp a])
next
  case (Suc n)
  then have i: "i < length a" "i < stop" and n: "n = stop - Suc i" by auto
  obtain b where b: "unguarded_linear_insert cmp a i = Some b" "sorted_range cmp b f (Suc i)"
      "rearranges a b f (Suc i)"
    using unguarded_linear_insert_sorts [OF Suc.prems(1,2) i(1)] Suc.prems(2,5) i(2) by auto
  have rear: "rearranges a b f stop"
    using rearranges_mono [OF b(3)] i(2) by simp
  have least: "\<not> cmp (b ! j) (b ! f)" if "f \<le> j" "j < stop" for j
  proof -
    have "\<not> cmp (b ! j) (a ! f)"
      using rearranges_all [of a b f stop "\<lambda>x. \<not> cmp x (a ! f)"] rear Suc.prems(4,5) that by blast
    moreover have "\<not> cmp (a ! f) (b ! f)"
    proof -
      have "a ! f \<in> (!) b ` {f..<Suc i}"
        using rearranges_image [OF b(3)] i(1) Suc.prems(2) by auto
      then obtain k where k: "f \<le> k" "k < Suc i" "b ! k = a ! f"
        by auto
      then show ?thesis
        using b(2) [unfolded sorted_range_def, rule_format, of f k] by (cases "k = f") auto
    qed
    ultimately show ?thesis
      using cmp_le_trans by blast
  qed
  obtain c where c: "unguarded_insertion_sort cmp b (Suc i) stop = Some c" "sorted_range cmp c f stop"
      "rearranges b c f stop"
    using Suc.hyps(1) [OF n, of b] b(2) Suc.prems i rearranges_length [OF rear] least by auto
  have "unguarded_insertion_sort cmp a i stop = Some c"
    using b(1) c(1) i by (subst unguarded_insertion_sort.simps) simp
  then show ?case
    using c rearranges_trans [OF rear c(3)] by blast
qed

end

section \<open>Partition\<close>

lemma iter_swap_Some:
  "i < length a \<Longrightarrow> j < length a \<Longrightarrow> iter_swap a i j = Some (a[i := a ! j, j := a ! i])"
  by (simp add: iter_swap_def)

lemma scan_up_finds:
  assumes "i \<le> k" and "k < length a" and "pivot < length a" and "\<not> cmp (a ! k) (a ! pivot)"
  shows "\<exists>i'. scan_up cmp a i pivot = Some i' \<and> i \<le> i' \<and> i' \<le> k \<and> \<not> cmp (a ! i') (a ! pivot) \<and>
    (\<forall>l. i \<le> l \<and> l < i' \<longrightarrow> cmp (a ! l) (a ! pivot))"
  using assms(1)
proof (induction "k - i" arbitrary: i)
  case 0
  then have "i = k" by simp
  then show ?case
    using assms by (subst scan_up.simps) auto
next
  case (Suc n)
  show ?case
  proof (cases "cmp (a ! i) (a ! pivot)")
    case True
    have n: "n = k - Suc i" "Suc i \<le> k"
      using Suc(2) by simp_all
    obtain i' where i': "scan_up cmp a (Suc i) pivot = Some i'" "Suc i \<le> i'" "i' \<le> k"
        "\<not> cmp (a ! i') (a ! pivot)" "\<forall>l. Suc i \<le> l \<and> l < i' \<longrightarrow> cmp (a ! l) (a ! pivot)"
      using Suc.hyps(1) [OF n] by blast
    have "scan_up cmp a i pivot = Some i'"
      using True i'(1) Suc(2) assms(2,3) by (subst scan_up.simps) simp
    moreover have "\<forall>l. i \<le> l \<and> l < i' \<longrightarrow> cmp (a ! l) (a ! pivot)"
      using True i'(5) by (metis le_antisym not_less_eq_eq)
    ultimately show ?thesis
      using i' by (intro exI [of _ i']) simp
  next
    case False
    then show ?thesis
      using Suc(2) assms(2,3) by (subst scan_up.simps) auto
  qed
qed

lemma scan_down_finds:
  assumes "k \<le> j" and "j < length a" and "pivot < length a" and "\<not> cmp (a ! pivot) (a ! k)"
  shows "\<exists>j'. scan_down cmp a j pivot = Some j' \<and> k \<le> j' \<and> j' \<le> j \<and> \<not> cmp (a ! pivot) (a ! j') \<and>
    (\<forall>l. j' < l \<and> l \<le> j \<longrightarrow> cmp (a ! pivot) (a ! l))"
  using assms(1,2)
proof (induction j)
  case 0
  then show ?case
    using assms(3,4) by (subst scan_down.simps) auto
next
  case (Suc j)
  show ?case
  proof (cases "cmp (a ! pivot) (a ! Suc j)")
    case True
    then have "k \<le> j"
      using Suc.prems(1) assms(4) by (metis le_Suc_eq)
    then obtain j' where j': "scan_down cmp a j pivot = Some j'" "k \<le> j'" "j' \<le> j"
        "\<not> cmp (a ! pivot) (a ! j')" "\<forall>l. j' < l \<and> l \<le> j \<longrightarrow> cmp (a ! pivot) (a ! l)"
      using Suc.IH Suc.prems(2) by auto
    have "scan_down cmp a (Suc j) pivot = Some j'"
      using True j'(1) Suc.prems(2) assms(3) by (subst scan_down.simps) simp
    moreover have "\<forall>l. j' < l \<and> l \<le> Suc j \<longrightarrow> cmp (a ! pivot) (a ! l)"
      using True j'(5) by (metis le_Suc_eq)
    ultimately show ?thesis
      using j' by (intro exI [of _ j']) simp
  next
    case False
    then show ?thesis
      using Suc.prems assms(3) by (subst scan_down.simps) auto
  qed
qed

context strict_weak_ordering
begin

lemma move_median_to_first_sentinels:
  assumes "f < x" "f < y" "f < z" "x < stop" "y < stop" "z < stop" "x \<noteq> y" "x \<noteq> z" "y \<noteq> z"
    and "stop \<le> length a"
  shows "\<exists>b. move_median_to_first cmp a f x y z = Some b \<and> rearranges a b f stop \<and>
    (\<exists>k. f < k \<and> k < stop \<and> \<not> cmp (b ! k) (b ! f)) \<and> (\<exists>k. f < k \<and> k < stop \<and> \<not> cmp (b ! f) (b ! k))"
proof -
  have len: "f < length a" "x < length a" "y < length a" "z < length a" and f: "f < stop"
    using assms by linarith+
  have result: ?thesis
    if "m < stop" "f < m" "move_median_to_first cmp a f x y z = iter_swap a f m"
      "u \<noteq> m" "f < u" "u < stop" "\<not> cmp (a ! u) (a ! m)" "w \<noteq> m" "f < w" "w < stop" "\<not> cmp (a ! m) (a ! w)"
    for m u w
  proof -
    let ?b = "a[f := a ! m, m := a ! f]"
    have "?b ! f = a ! m" "?b ! u = a ! u" "?b ! w = a ! w"
      using that len assms(10) by simp_all
    moreover have "iter_swap a f m = Some ?b"
      using that(1) len(1) assms(10) by (intro iter_swap_Some) auto
    moreover have "rearranges a ?b f stop"
      using that(1,2) f assms(10) by (intro rearranges_swap) auto
    ultimately show ?thesis
      using that by (intro exI [of _ ?b]) (auto intro: exI [of _ u] exI [of _ w])
  qed
  consider "cmp (a ! x) (a ! y)" "cmp (a ! y) (a ! z)"
    | "cmp (a ! x) (a ! y)" "\<not> cmp (a ! y) (a ! z)" "cmp (a ! x) (a ! z)"
    | "cmp (a ! x) (a ! y)" "\<not> cmp (a ! y) (a ! z)" "\<not> cmp (a ! x) (a ! z)"
    | "\<not> cmp (a ! x) (a ! y)" "cmp (a ! x) (a ! z)"
    | "\<not> cmp (a ! x) (a ! y)" "\<not> cmp (a ! x) (a ! z)" "cmp (a ! y) (a ! z)"
    | "\<not> cmp (a ! x) (a ! y)" "\<not> cmp (a ! x) (a ! z)" "\<not> cmp (a ! y) (a ! z)"
    by blast
  then show ?thesis
  proof cases
    case 1
    then show ?thesis
      by (intro result [of y z x]) (use assms len cmp_asym in \<open>simp_all add: move_median_to_first_def\<close>)
  next
    case 2
    then show ?thesis
      by (intro result [of z y x]) (use assms len cmp_asym in \<open>simp_all add: move_median_to_first_def\<close>)
  next
    case 3
    then show ?thesis
      by (intro result [of x y z]) (use assms len cmp_asym in \<open>simp_all add: move_median_to_first_def\<close>)
  next
    case 4
    then show ?thesis
      by (intro result [of x z y]) (use assms len cmp_asym in \<open>simp_all add: move_median_to_first_def\<close>)
  next
    case 5
    then show ?thesis
      by (intro result [of z x y]) (use assms len cmp_asym in \<open>simp_all add: move_median_to_first_def\<close>)
  next
    case 6
    then show ?thesis
      by (intro result [of y x z]) (use assms len cmp_asym in \<open>simp_all add: move_median_to_first_def\<close>)
  qed
qed

text \<open>
  The partition loop: what is left of \<open>i\<close> is not greater than the pivot, what is right of \<open>j\<close> is not
  smaller, and each scan finds an element that stops it.
\<close>

lemma unguarded_partition_splits:
  assumes "f < i" and "i \<le> j" and "j \<le> stop" and "stop \<le> length a"
    and "\<And>k. f < k \<Longrightarrow> k < i \<Longrightarrow> \<not> cmp (a ! f) (a ! k)"
    and "\<And>k. j \<le> k \<Longrightarrow> k < stop \<Longrightarrow> \<not> cmp (a ! k) (a ! f)"
    and "i \<le> u" "u < stop" "\<not> cmp (a ! u) (a ! f)" and "f < w" "w < j" "\<not> cmp (a ! f) (a ! w)"
  shows "\<exists>b c. unguarded_partition cmp a i j f = Some (b, c) \<and> f < c \<and> c < stop \<and>
    rearranges a b (Suc f) stop \<and> (\<forall>k. f < k \<and> k < c \<longrightarrow> \<not> cmp (a ! f) (b ! k)) \<and>
    (\<forall>k. c \<le> k \<and> k < stop \<longrightarrow> \<not> cmp (b ! k) (a ! f))"
  using assms
proof (induction j arbitrary: a i u w rule: less_induct)
  case (less j)
  obtain l where l: "j = Suc l"
    using less.prems(11) by (cases j) auto
  have len: "f < length a" "u < length a" "l < length a"
    using less.prems l by linarith+
  obtain i' where i': "scan_up cmp a i f = Some i'" "i \<le> i'" "i' \<le> u" "\<not> cmp (a ! i') (a ! f)"
      "\<forall>k. i \<le> k \<and> k < i' \<longrightarrow> cmp (a ! k) (a ! f)"
    using scan_up_finds [of i u a f cmp] less.prems(7,9) len by blast
  obtain j' where j': "scan_down cmp a l f = Some j'" "w \<le> j'" "j' \<le> l" "\<not> cmp (a ! f) (a ! j')"
      "\<forall>k. j' < k \<and> k \<le> l \<longrightarrow> cmp (a ! f) (a ! k)"
    using scan_down_finds [of w l a f cmp] less.prems(11,12) l len by auto
  have left: "\<not> cmp (a ! f) (a ! k)" if "f < k" "k < i'" for k
    using less.prems(5) [of k] i'(5) cmp_asym that by (meson not_le)
  have right: "\<not> cmp (a ! k) (a ! f)" if "j' < k" "k < stop" for k
    using less.prems(6) [of k] j'(5) cmp_asym that l by (meson less_Suc_eq_le not_le)
  show ?case
  proof (cases "i' < j'")
    case False
    have "unguarded_partition cmp a i j f = Some (a, i')"
      using i'(1) j'(1) l False by (subst unguarded_partition.simps) simp
    moreover have "\<not> cmp (a ! k) (a ! f)" if "i' \<le> k" "k < stop" for k
      using right [of k] i'(4) that False by (cases "k = i'") auto
    ultimately show ?thesis
      using left i'(2,3) less.prems(1,8) by (intro exI [of _ a] exI [of _ i']) auto
  next
    case True
    let ?a = "a[i' := a ! j', j' := a ! i']"
    have b: "f < i'" "j' < stop" "j' < length a" "j' < j" "i' < length a"
      using i'(2) j'(3) less.prems(1,3,4) l True by linarith+
    have nth: "?a ! k = (if k = i' then a ! j' else if k = j' then a ! i' else a ! k)" for k
      using b True by (auto simp: nth_list_update)
    have "\<exists>b c. unguarded_partition cmp ?a (Suc i') j' f = Some (b, c) \<and> f < c \<and> c < stop \<and>
        rearranges ?a b (Suc f) stop \<and> (\<forall>k. f < k \<and> k < c \<longrightarrow> \<not> cmp (?a ! f) (b ! k)) \<and>
        (\<forall>k. c \<le> k \<and> k < stop \<longrightarrow> \<not> cmp (b ! k) (?a ! f))"
    proof (rule less.IH [OF b(4), where u = j' and w = i'])
      show "\<not> cmp (?a ! f) (?a ! k)" if "f < k" "k < Suc i'" for k
        using left [of k] j'(4) that b True nth by (cases "k = i'") auto
      show "\<not> cmp (?a ! k) (?a ! f)" if "j' \<le> k" "k < stop" for k
        using right [of k] i'(4) that b True nth by (cases "k = j'") auto
    qed (use b True less.prems(4) i'(4) j'(4) nth in auto)
    then obtain b' c where c: "unguarded_partition cmp ?a (Suc i') j' f = Some (b', c)" "f < c" "c < stop"
        "rearranges ?a b' (Suc f) stop" "\<forall>k. f < k \<and> k < c \<longrightarrow> \<not> cmp (a ! f) (b' ! k)"
        "\<forall>k. c \<le> k \<and> k < stop \<longrightarrow> \<not> cmp (b' ! k) (a ! f)"
      using b True by auto
    have "unguarded_partition cmp a i j f = Some (b', c)"
      using i'(1) j'(1) l True c(1) b iter_swap_Some [of i' a j']
      by (subst unguarded_partition.simps) simp
    moreover have "rearranges a b' (Suc f) stop"
      using rearranges_swap [of "Suc f" i' stop j' a] b True less.prems(4) c(4) rearranges_trans by auto
    ultimately show ?thesis
      using c by blast
  qed
qed

lemma unguarded_partition_pivot_splits:
  assumes "f + 3 < stop" and "stop \<le> length a"
  shows "\<exists>b c p. unguarded_partition_pivot cmp a f stop = Some (b, c) \<and> f < c \<and> c < stop \<and>
    rearranges a b f stop \<and> (\<forall>k. f \<le> k \<and> k < c \<longrightarrow> \<not> cmp p (b ! k)) \<and>
    (\<forall>k. c \<le> k \<and> k < stop \<longrightarrow> \<not> cmp (b ! k) p)"
proof -
  let ?mid = "f + (stop - f) div 2"
  have mid: "f + 1 < ?mid" "?mid < stop - 1"
    using assms(1) by linarith+
  obtain a1 u w where a1: "move_median_to_first cmp a f (f + 1) ?mid (stop - 1) = Some a1"
      "rearranges a a1 f stop" "f < u" "u < stop" "\<not> cmp (a1 ! u) (a1 ! f)"
      "f < w" "w < stop" "\<not> cmp (a1 ! f) (a1 ! w)"
    using move_median_to_first_sentinels [of f "f + 1" ?mid "stop - 1" stop a] mid assms by auto
  have "\<exists>b c. unguarded_partition cmp a1 (f + 1) stop f = Some (b, c) \<and> f < c \<and> c < stop \<and>
      rearranges a1 b (Suc f) stop \<and> (\<forall>k. f < k \<and> k < c \<longrightarrow> \<not> cmp (a1 ! f) (b ! k)) \<and>
      (\<forall>k. c \<le> k \<and> k < stop \<longrightarrow> \<not> cmp (b ! k) (a1 ! f))"
    by (rule unguarded_partition_splits [where u = u and w = w])
      (use a1 assms rearranges_length [OF a1(2)] in auto)
  then obtain b c where b: "unguarded_partition cmp a1 (f + 1) stop f = Some (b, c)" "f < c" "c < stop"
      "rearranges a1 b (Suc f) stop" "\<forall>k. f < k \<and> k < c \<longrightarrow> \<not> cmp (a1 ! f) (b ! k)"
      "\<forall>k. c \<le> k \<and> k < stop \<longrightarrow> \<not> cmp (b ! k) (a1 ! f)"
    by blast
  have "b ! f = a1 ! f"
    using rearranges_outside [OF b(4), of f] rearranges_length [OF a1(2)] assms by simp
  then have "\<forall>k. f \<le> k \<and> k < c \<longrightarrow> \<not> cmp (a1 ! f) (b ! k)"
    using b(5) by (metis cmp_irrefl le_neq_implies_less)
  moreover have "rearranges a b f stop"
    using rearranges_mono [OF b(4), of f stop] a1(2) rearranges_trans by simp
  moreover have "unguarded_partition_pivot cmp a f stop = Some (b, c)"
    using a1(1) b(1) by (simp add: unguarded_partition_pivot_def)
  ultimately show ?thesis
    using b(2,3,6) by blast
qed

section \<open>Selection and sorting\<close>

text \<open>The heap holds the smallest elements seen, its root the greatest of them.\<close>

lemma heap_select_loop_selects:
  assumes "heap_from cmp a f 0 (m - f)" and "f < m" and "m \<le> i" and "i \<le> stop" and "stop \<le> length a"
    and "\<And>k. m \<le> k \<Longrightarrow> k < i \<Longrightarrow> \<not> cmp (a ! k) (a ! f)"
  shows "\<exists>b. heap_select_loop cmp a f m stop i = Some b \<and> heap_from cmp b f 0 (m - f) \<and>
    rearranges a b f stop \<and> (\<forall>k. m \<le> k \<and> k < stop \<longrightarrow> \<not> cmp (b ! k) (b ! f))"
  using assms
proof (induction "stop - i" arbitrary: a i)
  case 0
  then show ?case
    by (simp add: heap_select_loop.simps [of cmp a])
next
  case (Suc n)
  then have i: "i < length a" "i < stop" "f < length a" and n: "n = stop - Suc i" by auto
  have fm: "f + (m - f) = m" "0 < m - f"
    using Suc.prems(2) by simp_all
  define step where "step = (if cmp (a ! i) (a ! f) then pop_heap_impl cmp a f m i else Some a)"
  have "\<exists>b. step = Some b \<and> heap_from cmp b f 0 (m - f) \<and> rearranges a b f stop \<and>
      (\<forall>k. m \<le> k \<and> k < Suc i \<longrightarrow> \<not> cmp (b ! k) (b ! f))"
  proof (cases "cmp (a ! i) (a ! f)")
    case True
    obtain b where b: "pop_heap_impl cmp a f m i = Some b" "heap_from cmp b f 0 (m - f)"
        "b ! i = a ! f" "rearranges a b f (Suc i)" "rearranges (a[i := a ! f, f := a ! i]) b f m"
      using pop_heap_impl_heap [OF Suc.prems(1) fm(2), of i] fm Suc.prems(3) i(1) by auto
    have "\<not> cmp (a ! f) (b ! f)"
    proof (rule rearranges_all [OF b(5), where P = "\<lambda>x. \<not> cmp (a ! f) x"])
      show "\<not> cmp (a ! f) (a[i := a ! f, f := a ! i] ! k)" if "f \<le> k" "k < m" for k
        using heap_root [OF Suc.prems(1), of "k - f"] that True cmp_asym Suc.prems(3) i
        by (cases "k = f") auto
    qed (use Suc.prems(2,3) i in auto)
    moreover have "\<not> cmp (b ! k) (a ! f)" if "m \<le> k" "k < Suc i" for k
    proof (cases "k = i")
      case False
      then have "b ! k = a ! k"
        using rearranges_outside [OF b(5), of k] that Suc.prems(2) i by simp
      then show ?thesis
        using Suc.prems(6) [of k] that False by simp
    qed (use b(3) in simp)
    ultimately have "\<not> cmp (b ! k) (b ! f)" if "m \<le> k" "k < Suc i" for k
      using cmp_le_trans that by blast
    moreover have "rearranges a b f stop"
      using rearranges_mono [OF b(4)] i(2) by simp
    ultimately show ?thesis
      using True b(1,2) by (simp add: step_def)
  next
    case False
    then show ?thesis
      using Suc.prems(1,6) by (auto simp: step_def less_Suc_eq)
  qed
  then obtain b where b: "step = Some b" "heap_from cmp b f 0 (m - f)" "rearranges a b f stop"
      "\<And>k. m \<le> k \<Longrightarrow> k < Suc i \<Longrightarrow> \<not> cmp (b ! k) (b ! f)"
    by blast
  have pre: "m \<le> Suc i" "Suc i \<le> stop" "stop \<le> length b"
    using Suc.prems(3,5) i(2) rearranges_length [OF b(3)] by simp_all
  obtain c where c: "heap_select_loop cmp b f m stop (Suc i) = Some c" "heap_from cmp c f 0 (m - f)"
      "rearranges b c f stop" "\<forall>k. m \<le> k \<and> k < stop \<longrightarrow> \<not> cmp (c ! k) (c ! f)"
    using Suc.hyps(1) [OF n b(2) Suc.prems(2) pre b(4)] by blast
  have "heap_select_loop cmp a f m stop i = Some c"
    using b(1) c(1) i by (subst heap_select_loop.simps) (simp add: step_def)
  then show ?case
    using c rearranges_trans [OF b(3) c(3)] by blast
qed

lemma heap_select_selects:
  assumes "f < m" and "m \<le> stop" and "stop \<le> length a"
  shows "\<exists>b. heap_select cmp a f m stop = Some b \<and> heap_from cmp b f 0 (m - f) \<and>
    rearranges a b f stop \<and> (\<forall>k. m \<le> k \<and> k < stop \<longrightarrow> \<not> cmp (b ! k) (b ! f))"
proof -
  obtain a1 where a1: "make_heap_impl cmp a f m = Some a1" "heap_from cmp a1 f 0 (m - f)"
      "rearranges a a1 f m"
    using make_heap_impl_heap [of f m a] assms by auto
  have "stop \<le> length a1"
    using assms rearranges_length [OF a1(3)] by simp
  then obtain b where b: "heap_select_loop cmp a1 f m stop m = Some b" "heap_from cmp b f 0 (m - f)"
      "rearranges a1 b f stop" "\<forall>k. m \<le> k \<and> k < stop \<longrightarrow> \<not> cmp (b ! k) (b ! f)"
    using heap_select_loop_selects [OF a1(2) assms(1) _ assms(2)] by auto
  have "rearranges a b f stop"
    using rearranges_mono [OF a1(3), of f stop] assms(2) b(3) rearranges_trans by simp
  then show ?thesis
    using a1(1) b by (simp add: heap_select_def)
qed

lemma partial_sort_impl_sorts:
  assumes "f < m" and "m \<le> stop" and "stop \<le> length a"
  shows "\<exists>b. partial_sort_impl cmp a f m stop = Some b \<and> sorted_range cmp b f m \<and>
    rearranges a b f stop \<and> (\<forall>j k. f \<le> j \<and> j < m \<and> m \<le> k \<and> k < stop \<longrightarrow> \<not> cmp (b ! k) (b ! j))"
proof -
  obtain a1 where a1: "heap_select cmp a f m stop = Some a1" "heap_from cmp a1 f 0 (m - f)"
      "rearranges a a1 f stop" "\<forall>k. m \<le> k \<and> k < stop \<longrightarrow> \<not> cmp (a1 ! k) (a1 ! f)"
    using heap_select_selects [OF assms] by blast
  have len: "m \<le> length a1" "stop \<le> length a1" "f + (m - f) = m"
    using assms rearranges_length [OF a1(3)] by simp_all
  obtain b where b: "sort_heap_impl cmp a1 f m = Some b" "sorted_range cmp b f m" "rearranges a1 b f m"
    using sort_heap_impl_sorts [OF a1(2)] len by auto
  have "\<not> cmp (b ! k) (b ! j)" if "f \<le> j" "j < m" "m \<le> k" "k < stop" for j k
  proof -
    have "\<not> cmp (a1 ! f) (b ! j)"
    proof (rule rearranges_all [OF b(3) len(1) _ that(1,2), where P = "\<lambda>x. \<not> cmp (a1 ! f) x"])
      show "\<not> cmp (a1 ! f) (a1 ! i)" if "f \<le> i" "i < m" for i
        using heap_root [OF a1(2), of "i - f"] that by simp
    qed
    moreover have "\<not> cmp (b ! k) (a1 ! f)"
      using rearranges_outside [OF b(3), of k] a1(4) that len(2) by simp
    ultimately show ?thesis
      using cmp_le_trans by blast
  qed
  moreover have "rearranges a b f stop"
    using rearranges_mono [OF b(3), of f stop] a1(3) assms(2) rearranges_trans by simp
  ultimately show ?thesis
    using a1(1) b by (auto simp: partial_sort_impl_def)
qed

lemma least_element:
  assumes "f < stop"
  shows "\<exists>m. f \<le> m \<and> m < stop \<and> (\<forall>i. f \<le> i \<and> i < stop \<longrightarrow> \<not> cmp (a ! i) (a ! m))"
  using assms
proof (induction stop)
  case (Suc stop)
  show ?case
  proof (cases "f = stop")
    case True
    then show ?thesis
      using cmp_irrefl by (metis le_antisym less_Suc_eq_le order_refl)
  next
    case False
    then obtain m where m: "f \<le> m" "m < stop" "\<forall>i. f \<le> i \<and> i < stop \<longrightarrow> \<not> cmp (a ! i) (a ! m)"
      using Suc by auto
    show ?thesis
    proof (cases "cmp (a ! stop) (a ! m)")
      case True
      have "\<not> cmp (a ! i) (a ! stop)" if "f \<le> i" "i < Suc stop" for i
        using m(3) that True cmp_trans by (cases "i = stop") auto
      then show ?thesis
        using Suc.prems by (intro exI [of _ stop]) auto
    next
      case False
      then show ?thesis
        using m by (intro exI [of _ m]) (auto simp: less_Suc_eq)
    qed
  qed
qed simp

text \<open>
  After the introsort loop a least element of the range is among its first 16, so that the
  unguarded part of the final insertion sort has something to stop at.
\<close>

lemma introsort_loop_least:
  assumes "f < stop" and "stop \<le> length a"
  shows "\<exists>b m. introsort_loop cmp a f stop d = Some b \<and> rearranges a b f stop \<and>
    f \<le> m \<and> m < f + S_threshold \<and> m < stop \<and> (\<forall>i. f \<le> i \<and> i < stop \<longrightarrow> \<not> cmp (b ! i) (b ! m))"
  using assms
proof (induction d arbitrary: a f stop)
  case 0
  show ?case
  proof (cases "stop - f > S_threshold")
    case True
    obtain b where b: "partial_sort_impl cmp a f stop stop = Some b" "sorted_range cmp b f stop"
        "rearranges a b f stop"
      using partial_sort_impl_sorts [of f stop stop a] 0 by auto
    have "\<not> cmp (b ! i) (b ! f)" if "f \<le> i" "i < stop" for i
      using b(2) [unfolded sorted_range_def, rule_format, of f i] that by (cases "i = f") auto
    then show ?thesis
      using b True 0 by (intro exI [of _ b] exI [of _ f])
        (simp add: introsort_loop.simps [of cmp a] S_threshold_def)
  next
    case False
    then show ?thesis
      using least_element [OF 0(1), of a] by (auto simp: introsort_loop.simps [of cmp a])
  qed
next
  case (Suc d)
  show ?case
  proof (cases "stop - f > S_threshold")
    case True
    then have size: "f + 3 < stop"
      by (simp add: S_threshold_def)
    obtain a1 c p where a1: "unguarded_partition_pivot cmp a f stop = Some (a1, c)" "f < c" "c < stop"
        "rearranges a a1 f stop" "\<And>k. f \<le> k \<Longrightarrow> k < c \<Longrightarrow> \<not> cmp p (a1 ! k)"
        "\<And>k. c \<le> k \<Longrightarrow> k < stop \<Longrightarrow> \<not> cmp (a1 ! k) p"
      using unguarded_partition_pivot_splits [OF size Suc.prems(2)] by blast
    have len1: "stop \<le> length a1"
      using Suc.prems(2) rearranges_length [OF a1(4)] by simp
    obtain a2 where a2: "introsort_loop cmp a1 c stop d = Some a2" "rearranges a1 a2 c stop"
      using Suc.IH [OF a1(3) len1] by blast
    have len2: "c \<le> length a2" "stop \<le> length a2"
      using len1 a1(3) rearranges_length [OF a2(2)] by simp_all
    obtain b m where b: "introsort_loop cmp a2 f c d = Some b" "rearranges a2 b f c" "f \<le> m"
        "m < f + S_threshold" "m < c" "\<And>i. f \<le> i \<Longrightarrow> i < c \<Longrightarrow> \<not> cmp (b ! i) (b ! m)"
      using Suc.IH [OF a1(2) len2(1)] by blast
    have "\<not> cmp p (a2 ! k)" if "f \<le> k" "k < c" for k
      using rearranges_outside [OF a2(2), of k] a1(5) [OF that] that len1 a1(3) by simp
    then have low: "\<not> cmp p (b ! m)"
      using rearranges_all [OF b(2) len2(1), where P = "\<lambda>x. \<not> cmp p x"] b(3,5) by blast
    have high: "\<not> cmp (b ! i) p" if "c \<le> i" "i < stop" for i
    proof -
      have "\<not> cmp (a2 ! i) p"
        using rearranges_all [OF a2(2) len1 _ that, where P = "\<lambda>x. \<not> cmp x p"] a1(6) by blast
      then show ?thesis
        using rearranges_outside [OF b(2), of i] that len2 by simp
    qed
    have "\<not> cmp (b ! i) (b ! m)" if "f \<le> i" "i < stop" for i
      using b(6) [of i] high [of i] low cmp_le_trans that by (cases "i < c") auto
    moreover have "introsort_loop cmp a f stop (Suc d) = Some b"
      using True a1(1) a2(1) b(1) by (subst introsort_loop.simps) simp
    moreover have "rearranges a b f stop"
      using a1(2,3,4) rearranges_mono [OF a2(2), of f stop] rearranges_mono [OF b(2), of f stop]
        rearranges_trans by (meson less_imp_le order_refl)
    ultimately show ?thesis
      using b(3-5) a1(3) by (intro exI [of _ b] exI [of _ m]) auto
  next
    case False
    then show ?thesis
      using least_element [OF Suc.prems(1), of a] by (auto simp: introsort_loop.simps [of cmp a])
  qed
qed

lemma sorted_first_least:
  assumes "sorted_range cmp b f r" and "rearranges a b f r" and "r \<le> length a" and "f \<le> m" and "m < r"
  shows "\<not> cmp (a ! m) (b ! f)"
proof -
  have "a ! m \<in> (!) b ` {f..<r}"
    using rearranges_image [OF assms(2)] assms(3-5) by auto
  then obtain k where "f \<le> k" "k < r" "b ! k = a ! m"
    by auto
  then show ?thesis
    using assms(1) [unfolded sorted_range_def, rule_format, of f k] by (cases "k = f") auto
qed

lemma final_insertion_sort_sorts:
  assumes "f < stop" and "stop \<le> length a" and "f \<le> m" and "m < f + S_threshold" and "m < stop"
    and "\<And>i. f \<le> i \<Longrightarrow> i < stop \<Longrightarrow> \<not> cmp (a ! i) (a ! m)"
  shows "\<exists>b. final_insertion_sort cmp a f stop = Some b \<and> sorted_range cmp b f stop \<and>
    rearranges a b f stop"
proof (cases "stop - f > S_threshold")
  case True
  let ?t = "f + S_threshold"
  have t: "f \<le> ?t" "?t \<le> stop" "?t \<le> length a" "f < ?t"
    using True assms(2) by (simp_all add: S_threshold_def)
  obtain a1 where a1: "insertion_sort cmp a f ?t = Some a1" "sorted_range cmp a1 f ?t"
      "rearranges a a1 f ?t"
    using insertion_sort_sorts [OF t(1,3)] by blast
  have rear: "rearranges a a1 f stop"
    using rearranges_mono [OF a1(3)] t(2) by simp
  have "\<not> cmp (a ! m) (a1 ! f)"
    using sorted_first_least [OF a1(2,3) t(3) assms(3,4)] .
  moreover have "\<not> cmp (a1 ! j) (a ! m)" if "f \<le> j" "j < stop" for j
    using rearranges_all [OF rear assms(2) _ that, where P = "\<lambda>x. \<not> cmp x (a ! m)"] assms(6) by blast
  ultimately have least: "\<not> cmp (a1 ! j) (a1 ! f)" if "f \<le> j" "j < stop" for j
    using cmp_le_trans that by blast
  obtain b where b: "unguarded_insertion_sort cmp a1 ?t stop = Some b" "sorted_range cmp b f stop"
      "rearranges a1 b f stop"
    using unguarded_insertion_sort_sorts [OF a1(2) t(4,2) _ least] assms(2)
      rearranges_length [OF rear] by auto
  then show ?thesis
    using True a1(1) rearranges_trans [OF rear b(3)] by (simp add: final_insertion_sort_def)
next
  case False
  then show ?thesis
    using insertion_sort_sorts [of f stop a] assms(1,2) by (simp add: final_insertion_sort_def)
qed

lemma sort_impl_sorts:
  assumes "f \<le> stop" and "stop \<le> length a"
  shows "\<exists>b. sort_impl cmp a f stop = Some b \<and> sorted_range cmp b f stop \<and> rearranges a b f stop"
proof (cases "f = stop")
  case False
  then have lt: "f < stop"
    using assms(1) by simp
  obtain a1 m where a1: "introsort_loop cmp a f stop (lg (stop - f) * 2) = Some a1" "rearranges a a1 f stop"
      "f \<le> m" "m < f + S_threshold" "m < stop" "\<And>i. f \<le> i \<Longrightarrow> i < stop \<Longrightarrow> \<not> cmp (a1 ! i) (a1 ! m)"
    using introsort_loop_least [OF lt assms(2)] by blast
  have len: "stop \<le> length a1"
    using assms(2) rearranges_length [OF a1(2)] by simp
  obtain b where b: "final_insertion_sort cmp a1 f stop = Some b" "sorted_range cmp b f stop"
      "rearranges a1 b f stop"
    using final_insertion_sort_sorts [OF lt len a1(3-6)] by blast
  then show ?thesis
    using False a1(1) rearranges_trans [OF a1(2) b(3)] by (simp add: sort_impl_def)
qed (simp add: sort_impl_def sorted_range_singleton)

text \<open>With an empty heap the selection only swaps.\<close>

lemma heap_select_loop_empty:
  assumes "f \<le> i" and "i \<le> stop" and "stop \<le> length a" and "f < stop"
  shows "\<exists>b. heap_select_loop cmp a f f stop i = Some b \<and> rearranges a b f stop"
  using assms
proof (induction "stop - i" arbitrary: a i)
  case 0
  then show ?case
    by (simp add: heap_select_loop.simps [of cmp a])
next
  case (Suc n)
  then have i: "i < length a" "f < length a" "i < stop" and n: "n = stop - Suc i" by auto
  define step where "step = (if cmp (a ! i) (a ! f) then pop_heap_impl cmp a f f i else Some a)"
  have "\<exists>b. step = Some b \<and> rearranges a b f stop"
  proof (cases "cmp (a ! i) (a ! f)")
    case True
    have "pop_heap_impl cmp a f f i = Some (a[i := a ! f, f := a ! i])"
      using i by (simp add: pop_heap_impl_def adjust_heap_impl_def adjust_heap_loop.simps [of cmp]
          push_heap_impl.simps [of cmp])
    then show ?thesis
      using True rearranges_swap [of f i stop f a] Suc.prems i by (simp add: step_def)
  qed (simp add: step_def)
  then obtain b where b: "step = Some b" "rearranges a b f stop"
    by blast
  have "\<exists>c. heap_select_loop cmp b f f stop (Suc i) = Some c \<and> rearranges b c f stop"
    using Suc.hyps(1) [OF n, of b] Suc.prems i rearranges_length [OF b(2)] by simp
  then obtain c where c: "heap_select_loop cmp b f f stop (Suc i) = Some c" "rearranges b c f stop"
    by blast
  have "heap_select_loop cmp a f f stop i = Some c"
    using b(1) c(1) i by (subst heap_select_loop.simps) (simp add: step_def)
  then show ?case
    using rearranges_trans [OF b(2) c(2)] by blast
qed

lemma partial_sort_impl_empty:
  assumes "f \<le> stop" and "stop \<le> length a"
  shows "\<exists>b. partial_sort_impl cmp a f f stop = Some b \<and> rearranges a b f stop"
proof (cases "f = stop")
  case True
  then show ?thesis
    by (simp add: partial_sort_impl_def heap_select_def make_heap_impl_def sort_heap_impl.simps [of cmp]
        heap_select_loop.simps [of cmp])
next
  case False
  then obtain b where "heap_select_loop cmp a f f stop f = Some b" "rearranges a b f stop"
    using heap_select_loop_empty [of f f stop a] assms by auto
  then show ?thesis
    by (simp add: partial_sort_impl_def heap_select_def make_heap_impl_def sort_heap_impl.simps [of cmp])
qed

text \<open>The element at position \<open>n\<close> is in its place: none before is greater, none after is smaller.\<close>

lemma introselect_places:
  assumes "f \<le> n" and "n < stop" and "stop \<le> length a"
  shows "\<exists>b. introselect cmp a f n stop d = Some b \<and> rearranges a b f stop \<and>
    (\<forall>i. f \<le> i \<and> i \<le> n \<longrightarrow> \<not> cmp (b ! n) (b ! i)) \<and> (\<forall>j. n \<le> j \<and> j < stop \<longrightarrow> \<not> cmp (b ! j) (b ! n))"
  using assms
proof (induction d arbitrary: a f stop)
  case 0
  show ?case
  proof (cases "stop - f > 3")
    case True
    have m: "f < n + 1" "n + 1 \<le> stop"
      using 0 by simp_all
    obtain b where b: "heap_select cmp a f (n + 1) stop = Some b" "heap_from cmp b f 0 (n + 1 - f)"
        "rearranges a b f stop" "\<And>k. n + 1 \<le> k \<Longrightarrow> k < stop \<Longrightarrow> \<not> cmp (b ! k) (b ! f)"
      using heap_select_selects [OF m 0(3)] by blast
    let ?c = "b[f := b ! n, n := b ! f]"
    have len: "stop \<le> length b"
      using 0(3) rearranges_length [OF b(3)] by simp
    have "\<not> cmp (b ! f) (b ! i)" if "f \<le> i" "i \<le> n" for i
      using heap_root [OF b(2), of "i - f"] that by simp
    then have "\<not> cmp (?c ! n) (?c ! i)" if "f \<le> i" "i \<le> n" for i
      using that 0 len by (cases "i = n"; cases "i = f") (auto simp: nth_list_update)
    moreover have "\<not> cmp (?c ! j) (?c ! n)" if "n \<le> j" "j < stop" for j
      using that 0 len b(4) [of j] by (cases "j = n") auto
    moreover have "rearranges a ?c f stop"
      using rearranges_trans [OF b(3)] rearranges_swap [of f f stop n b] 0 len by simp
    moreover have "introselect cmp a f n stop 0 = Some ?c"
      using True b(1) 0 len by (subst introselect.simps) (simp add: iter_swap_def)
    ultimately show ?thesis
      by blast
  next
    case False
    obtain b where b: "insertion_sort cmp a f stop = Some b" "sorted_range cmp b f stop"
        "rearranges a b f stop"
      using insertion_sort_sorts [of f stop a] 0 by auto
    then show ?thesis
      using False 0 by (subst introselect.simps) (auto simp: sorted_range_def le_less)
  qed
next
  case (Suc d)
  show ?case
  proof (cases "stop - f > 3")
    case True
    then have size: "f + 3 < stop"
      by simp
    obtain a1 c p where a1: "unguarded_partition_pivot cmp a f stop = Some (a1, c)" "f < c" "c < stop"
        "rearranges a a1 f stop" "\<And>k. f \<le> k \<Longrightarrow> k < c \<Longrightarrow> \<not> cmp p (a1 ! k)"
        "\<And>k. c \<le> k \<Longrightarrow> k < stop \<Longrightarrow> \<not> cmp (a1 ! k) p"
      using unguarded_partition_pivot_splits [OF size Suc.prems(3)] by blast
    have len: "stop \<le> length a1" "c \<le> length a1"
      using Suc.prems(3) a1(3) rearranges_length [OF a1(4)] by simp_all
    have unfold: "introselect cmp a f n stop (Suc d) =
        (if c \<le> n then introselect cmp a1 c n stop d else introselect cmp a1 f n c d)"
      using True a1(1) by (subst introselect.simps) simp
    show ?thesis
    proof (cases "c \<le> n")
      case True
      obtain b where b: "introselect cmp a1 c n stop d = Some b" "rearranges a1 b c stop"
          "\<And>i. c \<le> i \<Longrightarrow> i \<le> n \<Longrightarrow> \<not> cmp (b ! n) (b ! i)"
          "\<And>j. n \<le> j \<Longrightarrow> j < stop \<Longrightarrow> \<not> cmp (b ! j) (b ! n)"
        using Suc.IH [OF True Suc.prems(2) len(1)] by blast
      have "\<not> cmp (b ! n) p"
        using rearranges_all [OF b(2) len(1) _ True Suc.prems(2), where P = "\<lambda>x. \<not> cmp x p"] a1(6) by blast
      moreover have "\<not> cmp p (b ! i)" if "f \<le> i" "i < c" for i
        using rearranges_outside [OF b(2), of i] a1(5) [OF that] that len by simp
      ultimately have "\<not> cmp (b ! n) (b ! i)" if "f \<le> i" "i \<le> n" for i
        using that b(3) cmp_le_trans by (cases "i < c") (blast, simp)
      moreover have "rearranges a b f stop"
        using a1(2,4) rearranges_mono [OF b(2), of f stop] rearranges_trans by simp
      ultimately show ?thesis
        using True b(1,4) unfold by simp
    next
      case False
      then have "n < c"
        by simp
      obtain b where b: "introselect cmp a1 f n c d = Some b" "rearranges a1 b f c"
          "\<And>i. f \<le> i \<Longrightarrow> i \<le> n \<Longrightarrow> \<not> cmp (b ! n) (b ! i)"
          "\<And>j. n \<le> j \<Longrightarrow> j < c \<Longrightarrow> \<not> cmp (b ! j) (b ! n)"
        using Suc.IH [OF Suc.prems(1) \<open>n < c\<close> len(2)] by blast
      have "\<not> cmp p (b ! n)"
        using rearranges_all [OF b(2) len(2) _ Suc.prems(1) \<open>n < c\<close>, where P = "\<lambda>x. \<not> cmp p x"] a1(5)
        by blast
      moreover have "\<not> cmp (b ! j) p" if "c \<le> j" "j < stop" for j
        using rearranges_outside [OF b(2), of j] a1(6) [OF that] that len by simp
      ultimately have "\<not> cmp (b ! j) (b ! n)" if "n \<le> j" "j < stop" for j
        using that b(4) cmp_le_trans by (cases "j < c") (simp, metis not_less)
      moreover have "rearranges a b f stop"
        using a1(3,4) rearranges_mono [OF b(2), of f stop] rearranges_trans by simp
      ultimately show ?thesis
        using False b(1,3) unfold by simp
    qed
  next
    case False
    obtain b where b: "insertion_sort cmp a f stop = Some b" "sorted_range cmp b f stop"
        "rearranges a b f stop"
      using insertion_sort_sorts [of f stop a] Suc.prems by auto
    then show ?thesis
      using False Suc.prems by (subst introselect.simps) (auto simp: sorted_range_def le_less)
  qed
qed

end

section \<open>Properties\<close>

text \<open>
  C3. \<open>std::sort\<close> sorts any range of any array, for every comparison that is a
  strict weak ordering: introsort and the final insertion sort terminate, read and write only
  inside the range although their inner loops have no bound check, and leave the same elements with
  none smaller than an earlier one.
\<close>

theorem sort_range_sorts:
  assumes "strict_weak_ordering cmp" and "first \<le> stop" and "stop \<le> length a"
  shows "\<exists>b. sort_range cmp a first stop = Some b \<and> sorted_range cmp b first stop \<and>
    rearranges a b first stop"
  using strict_weak_ordering.sort_impl_sorts [OF assms] by (simp add: sort_range_def)

theorem sort_range_sorts_witness:
  "\<exists>b. sort_range iter_less_iter [3, 1, 4, 1, 5 :: int] 1 4 = Some b \<and>
    sorted_range iter_less_iter b 1 4 \<and> rearranges [3, 1, 4, 1, 5] b 1 4"
  using sort_range_sorts [OF less.strict_weak_ordering_axioms, of 1 4 "[3, 1, 4, 1, 5 :: int]"] by simp

text \<open>
  Without a comparison \<open>std::sort\<close> computes on a whole array the sorted
  list of its elements.
\<close>

theorem sort_range_less_is_sort: "sort_range_less a 0 (length a) = Some (sort a)"
proof -
  obtain b where b: "sort_impl iter_less_iter a 0 (length a) = Some b"
      "sorted_range iter_less_iter b 0 (length a)" "rearranges a b 0 (length a)"
    using less.sort_impl_sorts [of 0 "length a" a] by auto
  have "sorted b"
    using b(2,3) by (auto simp: sorted_iff_nth_mono_less sorted_range_def iter_less_iter_def rearranges_def
        not_less)
  then have "b = sort a"
    using b(3) by (metis properties_for_sort rearranges_def)
  then show ?thesis
    using b(1) by (simp add: sort_range_less_def)
qed

text \<open>
  C38. \<open>std::partial_sort\<close> puts the smallest elements of the range in front, in
  order: the front is sorted, no element behind it is smaller than one of it, and the elements are
  the same, also when the front is empty or the whole range.
\<close>

theorem partial_sort_selects:
  assumes "strict_weak_ordering cmp" and "first \<le> middle" and "middle \<le> stop" and "stop \<le> length a"
  shows "\<exists>b. partial_sort cmp a first middle stop = Some b \<and> sorted_range cmp b first middle \<and>
    rearranges a b first stop \<and>
    (\<forall>j k. first \<le> j \<and> j < middle \<and> middle \<le> k \<and> k < stop \<longrightarrow> \<not> cmp (b ! k) (b ! j))"
proof (cases "first = middle")
  case True
  then show ?thesis
    using strict_weak_ordering.partial_sort_impl_empty [OF assms(1), of first stop a] assms(3,4)
      sorted_range_singleton [of middle middle cmp] by (auto simp: partial_sort_def)
next
  case False
  then show ?thesis
    using strict_weak_ordering.partial_sort_impl_sorts [OF assms(1) _ assms(3,4), of first] assms(2)
    by (simp add: partial_sort_def)
qed

theorem partial_sort_selects_witness:
  "\<exists>b. partial_sort iter_less_iter [3, 1, 4, 1, 5 :: int] 0 2 5 = Some b \<and>
    sorted_range iter_less_iter b 0 2 \<and> rearranges [3, 1, 4, 1, 5] b 0 5 \<and>
    (\<forall>j k. 0 \<le> j \<and> j < 2 \<and> 2 \<le> k \<and> k < 5 \<longrightarrow> \<not> iter_less_iter (b ! k) (b ! j))"
  using partial_sort_selects [OF less.strict_weak_ordering_axioms, of 0 2 5 "[3, 1, 4, 1, 5 :: int]"]
  by simp

text \<open>
  C11. \<open>std::nth_element\<close> leaves at the given position an element that none
  before exceeds and none after is smaller than, with the same elements in the range, so that no
  element from the position on is smaller than one before it.
\<close>

theorem nth_element_places:
  assumes "strict_weak_ordering cmp" and "first \<le> n" and "n < stop" and "stop \<le> length a"
  shows "\<exists>b. nth_element cmp a first n stop = Some b \<and> rearranges a b first stop \<and>
    (\<forall>i. first \<le> i \<and> i \<le> n \<longrightarrow> \<not> cmp (b ! n) (b ! i)) \<and>
    (\<forall>j. n \<le> j \<and> j < stop \<longrightarrow> \<not> cmp (b ! j) (b ! n))"
  using strict_weak_ordering.introselect_places [OF assms] assms(2,3) by (simp add: nth_element_def)

theorem nth_element_places_witness:
  "\<exists>b. nth_element iter_less_iter [3, 1, 4, 1, 5 :: int] 0 2 5 = Some b \<and> rearranges [3, 1, 4, 1, 5] b 0 5 \<and>
    (\<forall>i. 0 \<le> i \<and> i \<le> 2 \<longrightarrow> \<not> iter_less_iter (b ! 2) (b ! i)) \<and>
    (\<forall>j. 2 \<le> j \<and> j < 5 \<longrightarrow> \<not> iter_less_iter (b ! j) (b ! 2))"
  using nth_element_places [OF less.strict_weak_ordering_axioms, of 0 2 5 "[3, 1, 4, 1, 5 :: int]"]
  by simp

end
