(* ===== verification/Stl_Search.thy ===== *)
theory Stl_Search
  imports Stl_Base
begin

text \<open>
  The searching algorithms of \<open>stl_algo.h\<close> and \<open>stl_algobase.h\<close>: linear search with the unrolled loop
  for random access iterators, tests on ranges, counting and binary search. The overloads without a comparison end in \<open>_less\<close>, those without a
  binary predicate in \<open>_equal\<close>.
\<close>

section \<open>Linear search\<close>

text \<open>\<open>__find_if\<close> for input iterators.\<close>

function find_if_input :: "('a \<Rightarrow> bool) \<Rightarrow> 'a list \<Rightarrow> nat \<Rightarrow> nat \<Rightarrow> nat option" where
  "find_if_input p a first stop =
     (if first = stop then Some first
      else (case buf_get a first of None \<Rightarrow> None
          | Some x \<Rightarrow> if \<not> p x then find_if_input p a (first + 1) stop else Some first))"
  by pat_completeness auto
termination
  by (relation "measure (\<lambda>(p, a, first, stop). length a - first)")
    (auto simp: buf_get_def split: if_splits)

text \<open>\<open>__find_if\<close> for random access iterators: one probe, what the switch does, the unrolled loop.\<close>

definition find_probe :: "('a \<Rightarrow> bool) \<Rightarrow> 'a list \<Rightarrow> nat \<Rightarrow> (nat \<Rightarrow> nat option) \<Rightarrow> nat option" where
  "find_probe p a first continue = do {
     x \<leftarrow> buf_get a first;
     if p x then Some first else continue (first + 1) }"

definition find_if_switch :: "('a \<Rightarrow> bool) \<Rightarrow> 'a list \<Rightarrow> nat \<Rightarrow> nat \<Rightarrow> nat option" where
  "find_if_switch p a first stop =
     (let case0 = (\<lambda>first. Some stop);
          case1 = (\<lambda>first. find_probe p a first case0);
          case2 = (\<lambda>first. find_probe p a first case1);
          case3 = (\<lambda>first. find_probe p a first case2)
      in if stop - first = 3 then case3 first
         else if stop - first = 2 then case2 first
         else if stop - first = 1 then case1 first
         else case0 first)"

fun find_if_trips :: "('a \<Rightarrow> bool) \<Rightarrow> 'a list \<Rightarrow> nat \<Rightarrow> nat \<Rightarrow> nat \<Rightarrow> nat option" where
  "find_if_trips p a first stop 0 = find_if_switch p a first stop"
| "find_if_trips p a first stop (Suc trip_count) =
     find_probe p a first (\<lambda>first.
     find_probe p a first (\<lambda>first.
     find_probe p a first (\<lambda>first.
     find_probe p a first (\<lambda>first.
     find_if_trips p a first stop trip_count))))"

definition find_if_impl :: "('a \<Rightarrow> bool) \<Rightarrow> 'a list \<Rightarrow> nat \<Rightarrow> nat \<Rightarrow> nat option" where
  "find_if_impl p a first stop = find_if_trips p a first stop ((stop - first) div 4)"

definition find_if_not_impl :: "('a \<Rightarrow> bool) \<Rightarrow> 'a list \<Rightarrow> nat \<Rightarrow> nat \<Rightarrow> nat option" where
  "find_if_not_impl p a first stop = find_if_impl (\<lambda>x. \<not> p x) a first stop"

definition find_value :: "'a list \<Rightarrow> nat \<Rightarrow> nat \<Rightarrow> 'a \<Rightarrow> nat option" where
  "find_value a first stop v = find_if_impl (\<lambda>x. x = v) a first stop"

definition find_if :: "('a \<Rightarrow> bool) \<Rightarrow> 'a list \<Rightarrow> nat \<Rightarrow> nat \<Rightarrow> nat option" where
  "find_if p a first stop = find_if_impl p a first stop"

definition find_if_not :: "('a \<Rightarrow> bool) \<Rightarrow> 'a list \<Rightarrow> nat \<Rightarrow> nat \<Rightarrow> nat option" where
  "find_if_not p a first stop = find_if_not_impl p a first stop"

definition all_of :: "('a \<Rightarrow> bool) \<Rightarrow> 'a list \<Rightarrow> nat \<Rightarrow> nat \<Rightarrow> bool option" where
  "all_of p a first stop = map_option (\<lambda>i. stop = i) (find_if_not p a first stop)"

definition none_of :: "('a \<Rightarrow> bool) \<Rightarrow> 'a list \<Rightarrow> nat \<Rightarrow> nat \<Rightarrow> bool option" where
  "none_of p a first stop = map_option (\<lambda>i. stop = i) (find_if p a first stop)"

definition any_of :: "('a \<Rightarrow> bool) \<Rightarrow> 'a list \<Rightarrow> nat \<Rightarrow> nat \<Rightarrow> bool option" where
  "any_of p a first stop = map_option Not (none_of p a first stop)"

definition is_partitioned :: "('a \<Rightarrow> bool) \<Rightarrow> 'a list \<Rightarrow> nat \<Rightarrow> nat \<Rightarrow> bool option" where
  "is_partitioned p a first stop = do {
     first \<leftarrow> find_if_not p a first stop;
     if first = stop then Some True else none_of p a (first + 1) stop }"

function count_if_loop :: "('a \<Rightarrow> bool) \<Rightarrow> 'a list \<Rightarrow> nat \<Rightarrow> nat \<Rightarrow> nat \<Rightarrow> nat option" where
  "count_if_loop p a first stop n =
     (if first = stop then Some n
      else (case buf_get a first of None \<Rightarrow> None
          | Some x \<Rightarrow> count_if_loop p a (first + 1) stop (if p x then n + 1 else n)))"
  by pat_completeness auto
termination
  by (relation "measure (\<lambda>(p, a, first, stop, n). length a - first)")
    (auto simp: buf_get_def split: if_splits)

definition count_if_impl :: "('a \<Rightarrow> bool) \<Rightarrow> 'a list \<Rightarrow> nat \<Rightarrow> nat \<Rightarrow> nat option" where
  "count_if_impl p a first stop = count_if_loop p a first stop 0"

definition count_value :: "'a list \<Rightarrow> nat \<Rightarrow> nat \<Rightarrow> 'a \<Rightarrow> nat option" where
  "count_value a first stop v = count_if_impl (\<lambda>x. x = v) a first stop"

definition count_if :: "('a \<Rightarrow> bool) \<Rightarrow> 'a list \<Rightarrow> nat \<Rightarrow> nat \<Rightarrow> nat option" where
  "count_if p a first stop = count_if_impl p a first stop"

function adjacent_find_loop :: "('a \<Rightarrow> 'a \<Rightarrow> bool) \<Rightarrow> 'a list \<Rightarrow> nat \<Rightarrow> nat \<Rightarrow> nat \<Rightarrow> nat option" where
  "adjacent_find_loop bp a first nxt stop =
     (if nxt + 1 = stop then Some stop
      else (case buf_get a first of None \<Rightarrow> None
          | Some x \<Rightarrow> (case buf_get a (nxt + 1) of None \<Rightarrow> None
              | Some y \<Rightarrow> if bp x y then Some first
                  else adjacent_find_loop bp a (nxt + 1) (nxt + 1) stop)))"
  by pat_completeness auto
termination
  by (relation "measure (\<lambda>(bp, a, first, nxt, stop). length a - nxt)")
    (auto simp: buf_get_def split: if_splits)

definition adjacent_find_impl :: "('a \<Rightarrow> 'a \<Rightarrow> bool) \<Rightarrow> 'a list \<Rightarrow> nat \<Rightarrow> nat \<Rightarrow> nat option" where
  "adjacent_find_impl bp a first stop =
     (if first = stop then Some stop else adjacent_find_loop bp a first first stop)"

definition adjacent_find_equal :: "'a list \<Rightarrow> nat \<Rightarrow> nat \<Rightarrow> nat option" where
  "adjacent_find_equal a first stop = adjacent_find_impl (=) a first stop"

definition adjacent_find :: "('a \<Rightarrow> 'a \<Rightarrow> bool) \<Rightarrow> 'a list \<Rightarrow> nat \<Rightarrow> nat \<Rightarrow> nat option" where
  "adjacent_find bp a first stop = adjacent_find_impl bp a first stop"

section \<open>Binary search\<close>

function partition_point_loop :: "('a \<Rightarrow> bool) \<Rightarrow> 'a list \<Rightarrow> nat \<Rightarrow> nat \<Rightarrow> nat option" where
  "partition_point_loop p a first len =
     (if 0 < len then do {
        let half = len div 2;
        let middle = first + half;
        x \<leftarrow> buf_get a middle;
        if p x then partition_point_loop p a (middle + 1) (len - half - 1)
        else partition_point_loop p a first half }
      else Some first)"
  by pat_completeness auto
termination
  by (relation "measure (\<lambda>(p, a, first, len). len)") auto

definition partition_point :: "('a \<Rightarrow> bool) \<Rightarrow> 'a list \<Rightarrow> nat \<Rightarrow> nat \<Rightarrow> nat option" where
  "partition_point p a first stop = partition_point_loop p a first (stop - first)"

function lower_bound_loop :: "('a \<Rightarrow> 'v \<Rightarrow> bool) \<Rightarrow> 'a list \<Rightarrow> nat \<Rightarrow> nat \<Rightarrow> 'v \<Rightarrow> nat option" where
  "lower_bound_loop cmp a first len v =
     (if 0 < len then do {
        let half = len div 2;
        let middle = first + half;
        x \<leftarrow> buf_get a middle;
        if cmp x v then lower_bound_loop cmp a (middle + 1) (len - half - 1) v
        else lower_bound_loop cmp a first half v }
      else Some first)"
  by pat_completeness auto
termination
  by (relation "measure (\<lambda>(cmp, a, first, len, v). len)") auto

definition lower_bound_impl :: "('a \<Rightarrow> 'v \<Rightarrow> bool) \<Rightarrow> 'a list \<Rightarrow> nat \<Rightarrow> nat \<Rightarrow> 'v \<Rightarrow> nat option" where
  "lower_bound_impl cmp a first stop v = lower_bound_loop cmp a first (stop - first) v"

definition lower_bound :: "('a \<Rightarrow> 'v \<Rightarrow> bool) \<Rightarrow> 'a list \<Rightarrow> nat \<Rightarrow> nat \<Rightarrow> 'v \<Rightarrow> nat option" where
  "lower_bound cmp a first stop v = lower_bound_impl cmp a first stop v"

definition lower_bound_less :: "'a :: linorder list \<Rightarrow> nat \<Rightarrow> nat \<Rightarrow> 'a \<Rightarrow> nat option" where
  "lower_bound_less a first stop v = lower_bound_impl iter_less_iter a first stop v"

function upper_bound_loop :: "('v \<Rightarrow> 'a \<Rightarrow> bool) \<Rightarrow> 'a list \<Rightarrow> nat \<Rightarrow> nat \<Rightarrow> 'v \<Rightarrow> nat option" where
  "upper_bound_loop cmp a first len v =
     (if 0 < len then do {
        let half = len div 2;
        let middle = first + half;
        x \<leftarrow> buf_get a middle;
        if cmp v x then upper_bound_loop cmp a first half v
        else upper_bound_loop cmp a (middle + 1) (len - half - 1) v }
      else Some first)"
  by pat_completeness auto
termination
  by (relation "measure (\<lambda>(cmp, a, first, len, v). len)") auto

definition upper_bound_impl :: "('v \<Rightarrow> 'a \<Rightarrow> bool) \<Rightarrow> 'a list \<Rightarrow> nat \<Rightarrow> nat \<Rightarrow> 'v \<Rightarrow> nat option" where
  "upper_bound_impl cmp a first stop v = upper_bound_loop cmp a first (stop - first) v"

definition upper_bound :: "('v \<Rightarrow> 'a \<Rightarrow> bool) \<Rightarrow> 'a list \<Rightarrow> nat \<Rightarrow> nat \<Rightarrow> 'v \<Rightarrow> nat option" where
  "upper_bound cmp a first stop v = upper_bound_impl cmp a first stop v"

definition upper_bound_less :: "'a :: linorder list \<Rightarrow> nat \<Rightarrow> nat \<Rightarrow> 'a \<Rightarrow> nat option" where
  "upper_bound_less a first stop v = upper_bound_impl iter_less_iter a first stop v"

function equal_range_loop ::
    "('a \<Rightarrow> 'v \<Rightarrow> bool) \<Rightarrow> ('v \<Rightarrow> 'a \<Rightarrow> bool) \<Rightarrow> 'a list \<Rightarrow> nat \<Rightarrow> nat \<Rightarrow> 'v \<Rightarrow> (nat \<times> nat) option" where
  "equal_range_loop cmp_it_val cmp_val_it a first len v =
     (if 0 < len then do {
        let half = len div 2;
        let middle = first + half;
        x \<leftarrow> buf_get a middle;
        if cmp_it_val x v then equal_range_loop cmp_it_val cmp_val_it a (middle + 1) (len - half - 1) v
        else if cmp_val_it v x then equal_range_loop cmp_it_val cmp_val_it a first half v
        else do {
          left \<leftarrow> lower_bound_impl cmp_it_val a first middle v;
          right \<leftarrow> upper_bound_impl cmp_val_it a (middle + 1) (first + len) v;
          Some (left, right) } }
      else Some (first, first))"
  by pat_completeness auto
termination
  by (relation "measure (\<lambda>(cmp_it_val, cmp_val_it, a, first, len, v). len)") auto

definition equal_range_impl ::
    "('a \<Rightarrow> 'v \<Rightarrow> bool) \<Rightarrow> ('v \<Rightarrow> 'a \<Rightarrow> bool) \<Rightarrow> 'a list \<Rightarrow> nat \<Rightarrow> nat \<Rightarrow> 'v \<Rightarrow> (nat \<times> nat) option" where
  "equal_range_impl cmp_it_val cmp_val_it a first stop v =
     equal_range_loop cmp_it_val cmp_val_it a first (stop - first) v"

definition equal_range :: "('a \<Rightarrow> 'a \<Rightarrow> bool) \<Rightarrow> 'a list \<Rightarrow> nat \<Rightarrow> nat \<Rightarrow> 'a \<Rightarrow> (nat \<times> nat) option" where
  "equal_range cmp a first stop v = equal_range_impl cmp cmp a first stop v"

definition equal_range_less :: "'a :: linorder list \<Rightarrow> nat \<Rightarrow> nat \<Rightarrow> 'a \<Rightarrow> (nat \<times> nat) option" where
  "equal_range_less a first stop v = equal_range_impl iter_less_iter iter_less_iter a first stop v"

definition binary_search :: "('a \<Rightarrow> 'a \<Rightarrow> bool) \<Rightarrow> 'a list \<Rightarrow> nat \<Rightarrow> nat \<Rightarrow> 'a \<Rightarrow> bool option" where
  "binary_search cmp a first stop v = do {
     i \<leftarrow> lower_bound_impl cmp a first stop v;
     if i \<noteq> stop then do { x \<leftarrow> buf_get a i; Some (\<not> cmp v x) } else Some False }"

definition binary_search_less :: "'a :: linorder list \<Rightarrow> nat \<Rightarrow> nat \<Rightarrow> 'a \<Rightarrow> bool option" where
  "binary_search_less a first stop v = do {
     i \<leftarrow> lower_bound_impl iter_less_iter a first stop v;
     if i \<noteq> stop then do { x \<leftarrow> buf_get a i; Some (\<not> v < x) } else Some False }"

declare find_if_input.simps [simp del] count_if_loop.simps [simp del] adjacent_find_loop.simps [simp del]
  partition_point_loop.simps [simp del] lower_bound_loop.simps [simp del]
  upper_bound_loop.simps [simp del] equal_range_loop.simps [simp del]

section \<open>First positions\<close>

text \<open>\<open>i\<close> is the first position of the range with \<open>p\<close>, or its end.\<close>

definition first_with :: "(nat \<Rightarrow> bool) \<Rightarrow> nat \<Rightarrow> nat \<Rightarrow> nat \<Rightarrow> bool" where
  "first_with p first stop i \<longleftrightarrow> first \<le> i \<and> i \<le> stop \<and> (\<forall>j. first \<le> j \<and> j < i \<longrightarrow> \<not> p j) \<and>
     (i < stop \<longrightarrow> p i)"

lemma first_with_empty [simp]: "first_with p f f f"
  by (auto simp: first_with_def)

lemma first_with_unique: "first_with p f r i \<Longrightarrow> first_with p f r j \<Longrightarrow> i = j"
  unfolding first_with_def by (metis le_less linorder_neqE_nat order.strict_trans2)

lemma first_with_step: "\<not> p f \<Longrightarrow> first_with p (Suc f) r i \<Longrightarrow> first_with p f r i"
  unfolding first_with_def by (metis Suc_leD Suc_leI le_neq_implies_less)

lemma first_with_below:
  assumes "first_with p f m i" and "p m" and "m < r"
  shows "first_with p f r i"
  using assms by (cases "i = m") (auto simp: first_with_def)

lemma first_with_above:
  assumes "first_with p m r i" and "\<And>j. f \<le> j \<Longrightarrow> j < m \<Longrightarrow> \<not> p j" and "f \<le> m"
  shows "first_with p f r i"
  using assms unfolding first_with_def by (metis not_le_imp_less order_trans)

lemma find_if_input_first:
  assumes "f \<le> r" and "r \<le> length a"
  shows "\<exists>i. find_if_input p a f r = Some i \<and> first_with (\<lambda>i. p (a ! i)) f r i"
  using assms
proof (induction "r - f" arbitrary: f)
  case 0
  then show ?case
    by (simp add: find_if_input.simps [of p a])
next
  case (Suc n)
  then have f: "f < r" "f < length a" and n: "n = r - Suc f"
    by auto
  show ?case
  proof (cases "p (a ! f)")
    case True
    then show ?thesis
      using f by (subst find_if_input.simps) (auto simp: first_with_def)
  next
    case False
    then show ?thesis
      using Suc.hyps(1) [OF n] Suc.prems f
      by (subst find_if_input.simps) (auto intro: first_with_step)
  qed
qed

lemma find_probe_input:
  assumes "f < r" and "r \<le> length a" and "k (Suc f) = find_if_input p a (Suc f) r"
  shows "find_probe p a f k = find_if_input p a f r"
  using assms by (subst find_if_input.simps) (simp add: find_probe_def)

lemma find_if_trips_input:
  assumes "r - f = 4 * n + m" and "m < 4" and "f \<le> r" and "r \<le> length a"
  shows "find_if_trips p a f r n = find_if_input p a f r"
  using assms
proof (induction n arbitrary: f)
  case 0
  then have r: "r = f + m"
    by simp
  have e: "find_if_input p a r r = Some r"
    by (simp add: find_if_input.simps [of p a])
  consider "m = 0" | "m = 1" | "m = 2" | "m = 3"
    using 0(2) by linarith
  then show ?case
    by cases (use 0(4) r e in \<open>simp_all add: find_if_switch_def Let_def find_probe_input numeral_2_eq_2
        numeral_3_eq_3\<close>)
next
  case (Suc n)
  then have "find_if_trips p a (f + 4) r n = find_if_input p a (f + 4) r"
    by auto
  then show ?case
    using Suc.prems by (simp add: find_probe_input numeral_eq_Suc)
qed

text \<open>The unrolled loop is the plain one.\<close>

lemma find_if_impl_input:
  assumes "f \<le> r" and "r \<le> length a"
  shows "find_if_impl p a f r = find_if_input p a f r"
  using find_if_trips_input [of r f "(r - f) div 4" "(r - f) mod 4"] assms
  by (simp add: find_if_impl_def)

lemma find_if_impl_first:
  assumes "f \<le> r" and "r \<le> length a"
  shows "\<exists>i. find_if_impl p a f r = Some i \<and> first_with (\<lambda>i. p (a ! i)) f r i"
  using find_if_input_first [OF assms] find_if_impl_input [OF assms] by simp

section \<open>Partitioned ranges\<close>

definition partitioned :: "('a \<Rightarrow> bool) \<Rightarrow> 'a list \<Rightarrow> nat \<Rightarrow> nat \<Rightarrow> bool" where
  "partitioned p a f r \<longleftrightarrow> (\<forall>i j. f \<le> i \<and> i \<le> j \<and> j < r \<and> p (a ! j) \<longrightarrow> p (a ! i))"

lemma partitioned_sub: "partitioned p a f r \<Longrightarrow> f \<le> f' \<Longrightarrow> r' \<le> r \<Longrightarrow> partitioned p a f' r'"
  unfolding partitioned_def by (meson order_trans less_le_trans)

lemma partition_point_loop_first:
  assumes "partitioned p a f (f + n)" and "f + n \<le> length a"
  shows "\<exists>i. partition_point_loop p a f n = Some i \<and> first_with (\<lambda>i. \<not> p (a ! i)) f (f + n) i"
  using assms
proof (induction n arbitrary: f rule: less_induct)
  case (less n)
  show ?case
  proof (cases "0 < n")
    case True
    define h where "h = n div 2"
    have h: "h < n" "f + h < length a" "f + h + 1 + (n - h - 1) = f + n" "f + h \<le> f + n"
      using True less.prems(2) by (auto simp: h_def)
    note unfold = partition_point_loop.simps [of p a f n, folded h_def]
    show ?thesis
    proof (cases "p (a ! (f + h))")
      case p: True
      have below: "p (a ! i)" if "f \<le> i" "i \<le> f + h" for i
        using less.prems(1) [unfolded partitioned_def, rule_format, of i "f + h"] p that h(1) by simp
      have "partitioned p a (f + h + 1) (f + n)"
        using partitioned_sub [OF less.prems(1)] by simp
      then obtain i where i: "partition_point_loop p a (f + h + 1) (n - h - 1) = Some i"
          "first_with (\<lambda>i. \<not> p (a ! i)) (f + h + 1) (f + n) i"
        using less.IH [of "n - h - 1" "f + h + 1"] less.prems(2) h by auto
      have "first_with (\<lambda>i. \<not> p (a ! i)) f (f + n) i"
        using first_with_above [OF i(2), of f] below by simp
      then show ?thesis
        using True p i(1) h(2) unfold by simp
    next
      case p: False
      have "partitioned p a f (f + h)"
        using partitioned_sub [OF less.prems(1)] h(1) by simp
      then obtain i where i: "partition_point_loop p a f h = Some i"
          "first_with (\<lambda>i. \<not> p (a ! i)) f (f + h) i"
        using less.IH [OF h(1), of f] h(2) by auto
      then show ?thesis
        using first_with_below [OF i(2), of "f + n"] True p h unfold by simp
    qed
  next
    case False
    then show ?thesis
      by (simp add: partition_point_loop.simps [of p a])
  qed
qed

lemma lower_bound_partition:
  "lower_bound_loop cmp a f n v = partition_point_loop (\<lambda>x. cmp x v) a f n"
proof (induction n arbitrary: f rule: less_induct)
  case (less n)
  show ?case
  proof (cases "0 < n")
    case True
    then have "n div 2 < n" "n - n div 2 - 1 < n"
      by auto
    note ih = less [OF this(1), of f] less [OF this(2), of "f + n div 2 + 1"]
    show ?thesis
      unfolding lower_bound_loop.simps [of cmp a f n] partition_point_loop.simps [of "\<lambda>x. cmp x v" a f n]
        Let_def ih by (auto intro!: Option.bind_cong)
  qed (simp add: lower_bound_loop.simps [of cmp a f 0] partition_point_loop.simps [of _ a f 0])
qed

lemma upper_bound_partition:
  "upper_bound_loop cmp a f n v = partition_point_loop (\<lambda>x. \<not> cmp v x) a f n"
proof (induction n arbitrary: f rule: less_induct)
  case (less n)
  show ?case
  proof (cases "0 < n")
    case True
    then have "n div 2 < n" "n - n div 2 - 1 < n"
      by auto
    note ih = less [OF this(1), of f] less [OF this(2), of "f + n div 2 + 1"]
    show ?thesis
      unfolding upper_bound_loop.simps [of cmp a f n] partition_point_loop.simps [of "\<lambda>x. \<not> cmp v x" a f n]
        Let_def ih by (auto intro!: Option.bind_cong)
  qed (simp add: upper_bound_loop.simps [of cmp a f 0] partition_point_loop.simps [of _ a f 0])
qed

lemma bounds_first:
  assumes "strict_weak_ordering cmp" and "sorted_range cmp a f (f + n)" and "f + n \<le> length a"
  shows "\<exists>l. lower_bound_loop cmp a f n v = Some l \<and> first_with (\<lambda>i. \<not> cmp (a ! i) v) f (f + n) l"
    and "\<exists>u. upper_bound_loop cmp a f n v = Some u \<and> first_with (\<lambda>i. cmp v (a ! i)) f (f + n) u"
proof -
  have "\<not> cmp (a ! j) (a ! i)" if "f \<le> i" "i \<le> j" "j < f + n" for i j
    using assms(2) that strict_weak_ordering.cmp_irrefl [OF assms(1)] unfolding sorted_range_def
    by (cases "i = j") auto
  then have "partitioned (\<lambda>x. cmp x v) a f (f + n)" "partitioned (\<lambda>x. \<not> cmp v x) a f (f + n)"
    unfolding partitioned_def
    using strict_weak_ordering.cmp_split [OF assms(1)] by blast+
  then show "\<exists>l. lower_bound_loop cmp a f n v = Some l \<and> first_with (\<lambda>i. \<not> cmp (a ! i) v) f (f + n) l"
    and "\<exists>u. upper_bound_loop cmp a f n v = Some u \<and> first_with (\<lambda>i. cmp v (a ! i)) f (f + n) u"
    using partition_point_loop_first [OF _ assms(3)] by (fastforce simp: lower_bound_partition
        upper_bound_partition)+
qed

lemma sorted_range_sub: "sorted_range cmp a f r \<Longrightarrow> f \<le> f' \<Longrightarrow> r' \<le> r \<Longrightarrow> sorted_range cmp a f' r'"
  by (auto simp: sorted_range_def)

lemma equal_range_loop_bounds:
  assumes "strict_weak_ordering cmp" and "sorted_range cmp a f (f + n)" and "f + n \<le> length a"
  shows "\<exists>l u. equal_range_loop cmp cmp a f n v = Some (l, u) \<and>
    first_with (\<lambda>i. \<not> cmp (a ! i) v) f (f + n) l \<and> first_with (\<lambda>i. cmp v (a ! i)) f (f + n) u"
  using assms(2,3)
proof (induction n arbitrary: f rule: less_induct)
  case (less n)
  note swo = strict_weak_ordering.cmp_asym [OF assms(1)] strict_weak_ordering.cmp_split [OF assms(1)]
  show ?case
  proof (cases "0 < n")
    case True
    define h where "h = n div 2"
    define m where "m = f + h"
    have h: "h < n" "m < length a" "m + 1 + (n - h - 1) = f + n" "m < f + n" "f \<le> m"
      using True less.prems(2) by (auto simp: h_def m_def)
    have ord: "\<not> cmp (a ! j) (a ! i)" if "f \<le> i" "i \<le> j" "j < f + n" for i j
      using less.prems(1) that swo(1) [of "a ! i" "a ! i"] unfolding sorted_range_def
      by (cases "i = j") auto
    note unfold = equal_range_loop.simps [of cmp cmp a f n, folded h_def]
    consider "cmp (a ! m) v" | "\<not> cmp (a ! m) v" "cmp v (a ! m)" | "\<not> cmp (a ! m) v" "\<not> cmp v (a ! m)"
      by blast
    then show ?thesis
    proof cases
      case 1
      have "sorted_range cmp a (m + 1) (f + n)"
        using sorted_range_sub [OF less.prems(1)] h by simp
      then obtain l u where lu: "equal_range_loop cmp cmp a (m + 1) (n - h - 1) v = Some (l, u)"
          "first_with (\<lambda>i. \<not> cmp (a ! i) v) (m + 1) (f + n) l"
          "first_with (\<lambda>i. cmp v (a ! i)) (m + 1) (f + n) u"
        using less.IH [of "n - h - 1" "m + 1"] less.prems(2) True h by auto
      have "cmp (a ! j) v \<and> \<not> cmp v (a ! j)" if "f \<le> j" "j < m + 1" for j
        using 1 ord [of j m] that h swo by (metis Suc_eq_plus1 less_Suc_eq_le)
      then show ?thesis
        using lu(1) first_with_above [OF lu(2), of f] first_with_above [OF lu(3), of f] 1 True h unfold
        by (auto simp: m_def)
    next
      case 2
      have "sorted_range cmp a f (f + h)"
        using sorted_range_sub [OF less.prems(1)] h by simp
      then obtain l u where lu: "equal_range_loop cmp cmp a f h v = Some (l, u)"
          "first_with (\<lambda>i. \<not> cmp (a ! i) v) f m l" "first_with (\<lambda>i. cmp v (a ! i)) f m u"
        using less.IH [of h f] less.prems(2) True h by (auto simp: m_def)
      then show ?thesis
        using first_with_below [OF lu(2) _ h(4)] first_with_below [OF lu(3) _ h(4)] 2 True h unfold
        by (auto simp: m_def)
    next
      case 3
      have "sorted_range cmp a f (f + h)" "sorted_range cmp a (m + 1) (m + 1 + (n - h - 1))"
        using sorted_range_sub [OF less.prems(1)] h by (auto simp: m_def)
      then obtain l u where l: "lower_bound_loop cmp a f h v = Some l"
          "first_with (\<lambda>i. \<not> cmp (a ! i) v) f m l"
        and u: "upper_bound_loop cmp a (m + 1) (n - h - 1) v = Some u"
          "first_with (\<lambda>i. cmp v (a ! i)) (m + 1) (f + n) u"
        using bounds_first(1) [OF assms(1), of a f h v] h
          bounds_first(2) [OF assms(1), of a "m + 1" "n - h - 1" v] less.prems(2)
        by (auto simp: m_def)
      have "\<not> cmp v (a ! j)" if "f \<le> j" "j < m + 1" for j
        using 3 ord [of j m] that h swo by (metis Suc_eq_plus1 less_Suc_eq_le)
      moreover have "f + n - (m + 1) = n - h - 1" "m - f = h"
        by (simp_all add: m_def)
      ultimately show ?thesis
        using l u first_with_below [OF l(2) _ h(4)] first_with_above [OF u(2), of f] 3 True h unfold
        by (simp add: lower_bound_impl_def upper_bound_impl_def m_def)
    qed
  next
    case False
    then show ?thesis
      by (simp add: equal_range_loop.simps [of cmp cmp a])
  qed
qed

section \<open>Properties\<close>

text \<open>
  The unrolled loop of \<open>std::find_if\<close> reads exactly what the plain loop reads
  and returns what it returns: the first position of the range whose element satisfies the
  predicate, or the end of the range.
\<close>

theorem find_if_unrolled:
  assumes "first \<le> stop" and "stop \<le> length a"
  shows "find_if p a first stop = find_if_input p a first stop \<and>
    (\<exists>i. find_if p a first stop = Some i \<and> first_with (\<lambda>i. p (a ! i)) first stop i)"
  using find_if_impl_input [OF assms] find_if_input_first [OF assms] by (simp add: find_if_def)

theorem find_if_unrolled_witness:
  "find_if even [1, 3, 5, 7, 9, 2 :: int] 0 6 = find_if_input even [1, 3, 5, 7, 9, 2 :: int] 0 6 \<and>
    (\<exists>i. find_if even [1, 3, 5, 7, 9, 2 :: int] 0 6 = Some i \<and>
      first_with (\<lambda>i. even ([1, 3, 5, 7, 9, 2 :: int] ! i)) 0 6 i)"
  by (rule find_if_unrolled) simp_all

text \<open>
  C9. On a sorted range \<open>std::equal_range\<close> returns the results of
  \<open>std::lower_bound\<close> and \<open>std::upper_bound\<close>, and the elements between them are exactly those of the
  range that are equivalent to the value.
\<close>

theorem equal_range_is_bounds:
  assumes "strict_weak_ordering cmp" and "sorted_range cmp a first stop" and "first \<le> stop"
    and "stop \<le> length a"
  shows "\<exists>l u. equal_range cmp a first stop v = Some (l, u) \<and>
    lower_bound cmp a first stop v = Some l \<and> upper_bound cmp a first stop v = Some u \<and>
    first \<le> l \<and> l \<le> u \<and> u \<le> stop \<and>
    (\<forall>i. first \<le> i \<and> i < stop \<longrightarrow> (l \<le> i \<and> i < u \<longleftrightarrow> \<not> cmp (a ! i) v \<and> \<not> cmp v (a ! i)))"
proof -
  have n: "first + (stop - first) = stop"
    using assms(3) by simp
  obtain l u where lu: "equal_range_loop cmp cmp a first (stop - first) v = Some (l, u)"
      "first_with (\<lambda>i. \<not> cmp (a ! i) v) first stop l" "first_with (\<lambda>i. cmp v (a ! i)) first stop u"
    using equal_range_loop_bounds [OF assms(1), of a first "stop - first" v] assms(2,4) n by auto
  have "lower_bound cmp a first stop v = Some l" "upper_bound cmp a first stop v = Some u"
    using bounds_first [OF assms(1), of a first "stop - first" v] assms(2,4) n lu(2,3)
      first_with_unique by (fastforce simp: lower_bound_def lower_bound_impl_def upper_bound_def
        upper_bound_impl_def)+
  moreover have ord: "\<not> cmp (a ! j) (a ! i)" if "first \<le> i" "i \<le> j" "j < stop" for i j
    using assms(2) that strict_weak_ordering.cmp_irrefl [OF assms(1)] unfolding sorted_range_def
    by (cases "i = j") auto
  have split: "cmp x y \<or> cmp y z" if "cmp x z" for x y z
    using strict_weak_ordering.cmp_split [OF assms(1) that] .
  have low: "\<not> cmp (a ! i) v" if "l \<le> i" "i < stop" for i
    using lu(2) that ord [of l i] split unfolding first_with_def
    by (metis le_less_trans)
  have high: "cmp v (a ! i)" if "u \<le> i" "i < stop" for i
    using lu(3) that ord [of u i] split unfolding first_with_def
    by (metis le_less_trans)
  have "l \<le> u"
  proof (rule ccontr)
    assume "\<not> l \<le> u"
    then have "cmp (a ! u) v" "cmp v (a ! u)"
      using lu(2,3) by (auto simp: first_with_def)
    then show False
      using strict_weak_ordering.cmp_asym [OF assms(1)] by blast
  qed
  moreover have "l \<le> i \<and> i < u \<longleftrightarrow> \<not> cmp (a ! i) v \<and> \<not> cmp v (a ! i)" if "first \<le> i" "i < stop" for i
    using low [of i] high [of i] lu(2,3) that unfolding first_with_def by (meson not_less)
  ultimately show ?thesis
    using lu by (auto simp: equal_range_def equal_range_impl_def first_with_def)
qed

theorem equal_range_is_bounds_witness:
  "\<exists>l u. equal_range iter_less_iter [1, 3, 3, 5 :: int] 0 4 3 = Some (l, u) \<and>
    lower_bound iter_less_iter [1, 3, 3, 5 :: int] 0 4 3 = Some l \<and>
    upper_bound iter_less_iter [1, 3, 3, 5 :: int] 0 4 3 = Some u \<and> 0 \<le> l \<and> l \<le> u \<and> u \<le> 4 \<and>
    (\<forall>i. 0 \<le> i \<and> i < 4 \<longrightarrow> (l \<le> i \<and> i < u \<longleftrightarrow>
      \<not> iter_less_iter ([1, 3, 3, 5 :: int] ! i) 3 \<and> \<not> iter_less_iter 3 ([1, 3, 3, 5 :: int] ! i)))"
proof -
  have "sorted_range iter_less_iter [1, 3, 3, 5 :: int] 0 4"
    by (auto simp: sorted_range_def iter_less_iter_def less_Suc_eq numeral_eq_Suc)
  from equal_range_is_bounds [OF less.strict_weak_ordering_axioms this, of 3] show ?thesis by simp
qed

text \<open>
  On a sorted range \<open>std::binary_search\<close> decides whether the range has an
  element equivalent to the value.
\<close>

theorem binary_search_decides:
  assumes "strict_weak_ordering cmp" and "sorted_range cmp a first stop" and "first \<le> stop"
    and "stop \<le> length a"
  shows "binary_search cmp a first stop v =
    Some (\<exists>i. first \<le> i \<and> i < stop \<and> \<not> cmp (a ! i) v \<and> \<not> cmp v (a ! i))"
proof -
  have n: "first + (stop - first) = stop"
    using assms(3) by simp
  obtain l where l: "lower_bound_loop cmp a first (stop - first) v = Some l"
      "first_with (\<lambda>i. \<not> cmp (a ! i) v) first stop l"
    using bounds_first(1) [OF assms(1), of a first "stop - first" v] assms(2,4) n by auto
  have ord: "\<not> cmp (a ! j) (a ! i)" if "first \<le> i" "i \<le> j" "j < stop" for i j
    using assms(2) that strict_weak_ordering.cmp_irrefl [OF assms(1)] unfolding sorted_range_def
    by (cases "i = j") auto
  have "(\<exists>i. first \<le> i \<and> i < stop \<and> \<not> cmp (a ! i) v \<and> \<not> cmp v (a ! i)) \<longleftrightarrow> l \<noteq> stop \<and> \<not> cmp v (a ! l)"
  proof
    assume "\<exists>i. first \<le> i \<and> i < stop \<and> \<not> cmp (a ! i) v \<and> \<not> cmp v (a ! i)"
    then obtain i where i: "first \<le> i" "i < stop" "\<not> cmp (a ! i) v" "\<not> cmp v (a ! i)" by blast
    then have "l \<le> i"
      using l(2) by (meson first_with_def not_less)
    then show "l \<noteq> stop \<and> \<not> cmp v (a ! l)"
      using ord [of l i] i l(2) strict_weak_ordering.cmp_split [OF assms(1), of v "a ! l" "a ! i"]
      by (auto simp: first_with_def)
  next
    assume "l \<noteq> stop \<and> \<not> cmp v (a ! l)"
    then show "\<exists>i. first \<le> i \<and> i < stop \<and> \<not> cmp (a ! i) v \<and> \<not> cmp v (a ! i)"
      using l(2) by (auto simp: first_with_def le_less)
  qed
  then show ?thesis
    using l assms(4) by (auto simp: binary_search_def lower_bound_impl_def first_with_def le_less)
qed

theorem binary_search_decides_witness:
  "binary_search iter_less_iter [1, 3, 3, 5 :: int] 0 4 4 =
    Some (\<exists>i. 0 \<le> i \<and> i < 4 \<and> \<not> iter_less_iter ([1, 3, 3, 5 :: int] ! i) 4 \<and>
      \<not> iter_less_iter 4 ([1, 3, 3, 5 :: int] ! i))"
proof -
  have "sorted_range iter_less_iter [1, 3, 3, 5 :: int] 0 4"
    by (auto simp: sorted_range_def iter_less_iter_def less_Suc_eq numeral_eq_Suc)
  from binary_search_decides [OF less.strict_weak_ordering_axioms this, of 4] show ?thesis by simp
qed

end
