(* ===== verification/Stl_Match.thy ===== *)
theory Stl_Match
  imports Stl_Search
begin

text \<open>
  Subsequences and runs: \<open>std::search\<close>, and \<open>std::search_n\<close> with its two loops, the backtracking one
  for random access iterators and the one for forward iterators. The pattern of a search is a range
  of a second array. The count of \<open>search_n\<close> is an unbounded integer: the conversion of the caller's
  \<open>_Integer\<close> to the difference type is taken to keep its value.
\<close>

section \<open>Subsequences\<close>

text \<open>
  The inner loop of \<open>__search\<close>: \<open>Inl\<close> a position that is returned, \<open>Inr\<close> when the elements differ.
\<close>

function search_compare ::
    "('a \<Rightarrow> 'b \<Rightarrow> bool) \<Rightarrow> 'a list \<Rightarrow> 'b list \<Rightarrow> nat \<Rightarrow> nat \<Rightarrow> nat \<Rightarrow> nat \<Rightarrow> nat \<Rightarrow> (nat + unit) option" where
  "search_compare bp a b current p first1 last1 last2 =
     (case buf_get a current of None \<Rightarrow> None
      | Some x \<Rightarrow> (case buf_get b p of None \<Rightarrow> None
          | Some y \<Rightarrow>
              if bp x y then
                (if p + 1 = last2 then Some (Inl first1)
                 else if current + 1 = last1 then Some (Inl last1)
                 else search_compare bp a b (current + 1) (p + 1) first1 last1 last2)
              else Some (Inr ())))"
  by pat_completeness auto
termination
  by (relation "measure (\<lambda>(bp, a, b, current, p, first1, last1, last2). length a - current)")
    (auto simp: buf_get_def split: if_splits)

lemma find_probe_cases:
  assumes "find_probe p a f k = Some i"
  shows "i = f \<or> k (f + 1) = Some i"
  using assms by (auto simp: find_probe_def bind_eq_Some_conv split: if_splits)

lemma find_if_trips_range:
  assumes "find_if_trips p a f r n = Some i" and "4 * n \<le> r - f"
  shows "i = r \<or> f \<le> i \<and> i < r"
  using assms
proof (induction n arbitrary: f)
  case 0
  then show ?case
    by (auto simp: find_if_switch_def Let_def split: if_splits dest!: find_probe_cases)
next
  case (Suc n)
  have "i = f \<or> i = f + 1 \<or> i = f + 2 \<or> i = f + 3 \<or> find_if_trips p a (f + 4) r n = Some i"
    using Suc.prems(1) by (auto dest!: find_probe_cases simp: numeral_eq_Suc)
  moreover have "4 * n \<le> r - (f + 4)"
    using Suc.prems(2) by simp
  ultimately show ?case
    using Suc.IH [of "f + 4"] Suc.prems(2) by auto
qed

lemma find_if_impl_range: "find_if_impl p a f r = Some i \<Longrightarrow> i = r \<or> f \<le> i \<and> i < r"
  by (auto simp: find_if_impl_def dest: find_if_trips_range)

function search_loop ::
    "('a \<Rightarrow> 'b \<Rightarrow> bool) \<Rightarrow> 'a list \<Rightarrow> 'b list \<Rightarrow> nat \<Rightarrow> nat \<Rightarrow> nat \<Rightarrow> nat \<Rightarrow> nat option" where
  "search_loop bp a b first1 last1 first2 last2 =
     (case buf_get b first2 of None \<Rightarrow> None
      | Some y \<Rightarrow> (case find_if_impl (\<lambda>x. bp x y) a first1 last1 of None \<Rightarrow> None
          | Some i \<Rightarrow>
              if i = last1 then Some last1
              else if i + 1 = last1 then Some last1
              else (case search_compare bp a b (i + 1) (first2 + 1) i last1 last2 of None \<Rightarrow> None
                  | Some (Inl r) \<Rightarrow> Some r
                  | Some (Inr _) \<Rightarrow> search_loop bp a b (i + 1) last1 first2 last2)))"
  by pat_completeness auto
termination
  by (relation "measure (\<lambda>(bp, a, b, first1, last1, first2, last2). last1 - first1)")
    (auto dest!: find_if_impl_range)

definition search_impl ::
    "('a \<Rightarrow> 'b \<Rightarrow> bool) \<Rightarrow> 'a list \<Rightarrow> 'b list \<Rightarrow> nat \<Rightarrow> nat \<Rightarrow> nat \<Rightarrow> nat \<Rightarrow> nat option" where
  "search_impl bp a b first1 last1 first2 last2 =
     (if first1 = last1 \<or> first2 = last2 then Some first1
      else if first2 + 1 = last2 then do {
        y \<leftarrow> buf_get b first2;
        find_if_impl (\<lambda>x. bp x y) a first1 last1 }
      else search_loop bp a b first1 last1 first2 last2)"

definition search :: "('a \<Rightarrow> 'b \<Rightarrow> bool) \<Rightarrow> 'a list \<Rightarrow> 'b list \<Rightarrow> nat \<Rightarrow> nat \<Rightarrow> nat \<Rightarrow> nat \<Rightarrow> nat option" where
  "search bp a b first1 last1 first2 last2 = search_impl bp a b first1 last1 first2 last2"

definition search_equal :: "'a list \<Rightarrow> 'a list \<Rightarrow> nat \<Rightarrow> nat \<Rightarrow> nat \<Rightarrow> nat \<Rightarrow> nat option" where
  "search_equal a b first1 last1 first2 last2 = search_impl (=) a b first1 last1 first2 last2"

section \<open>Runs\<close>

text \<open>The inner loop of \<open>__search_n_aux\<close>: \<open>Inl\<close> when the run is complete, \<open>Inr\<close> where it breaks.\<close>

fun back_track :: "('a \<Rightarrow> bool) \<Rightarrow> 'a list \<Rightarrow> nat \<Rightarrow> nat \<Rightarrow> (unit + nat) option" where
  "back_track p a 0 remainder = None"
| "back_track p a (Suc back) remainder = do {
     x \<leftarrow> buf_get a back;
     if p x then (if remainder = 1 then Some (Inl ()) else back_track p a back (remainder - 1))
     else Some (Inr back) }"

text \<open>
  The loop of \<open>__search_n_aux\<close>. It does not end for a count of zero, which \<open>__search_n\<close> excludes;
  for a positive count the remainder is positive and the distances are not negative.
\<close>

partial_function (option) search_n_loop ::
    "('a \<Rightarrow> bool) \<Rightarrow> 'a list \<Rightarrow> nat \<Rightarrow> nat \<Rightarrow> nat \<Rightarrow> nat \<Rightarrow> nat \<Rightarrow> nat option" where
  "search_n_loop p a first stop tail_size remainder cnt =
     (if remainder \<le> tail_size then
        Option.bind (back_track p a (first + remainder) remainder) (\<lambda>t. case t of
            Inl _ \<Rightarrow> Some (first + remainder - cnt)
          | Inr back \<Rightarrow> search_n_loop p a (first + remainder) stop (tail_size - remainder)
              (cnt + 1 - (first + remainder - back)) cnt)
      else Some stop)"

definition search_n_aux :: "('a \<Rightarrow> bool) \<Rightarrow> 'a list \<Rightarrow> nat \<Rightarrow> nat \<Rightarrow> nat \<Rightarrow> nat option" where
  "search_n_aux p a first stop cnt = search_n_loop p a first stop (stop - first) cnt cnt"

text \<open>The overload for forward iterators: the inner loop counts down along a run, the outer finds the next.\<close>

function search_n_run :: "('a \<Rightarrow> bool) \<Rightarrow> 'a list \<Rightarrow> nat \<Rightarrow> nat \<Rightarrow> nat \<Rightarrow> (nat \<times> nat) option" where
  "search_n_run p a i stop n =
     (if i = stop \<or> n = 1 then Some (i, n)
      else (case buf_get a i of None \<Rightarrow> None
        | Some x \<Rightarrow> if p x then search_n_run p a (i + 1) stop (n - 1) else Some (i, n)))"
  by pat_completeness auto
termination
  by (relation "measure (\<lambda>(p, a, i, stop, n). length a - i)") (auto simp: buf_get_def split: if_splits)

lemma search_n_run_forward: "search_n_run p a i stop n = Some (j, k) \<Longrightarrow> i \<le> j"
proof (induction p a i stop n rule: search_n_run.induct)
  case (1 p a i stop n)
  then show ?case
    by (subst (asm) (2) search_n_run.simps) (fastforce split: if_splits option.splits)
qed

function search_n_forward_loop :: "('a \<Rightarrow> bool) \<Rightarrow> 'a list \<Rightarrow> nat \<Rightarrow> nat \<Rightarrow> nat \<Rightarrow> nat option" where
  "search_n_forward_loop p a first stop cnt =
     (if first = stop then Some stop
      else (case search_n_run p a (first + 1) stop cnt of None \<Rightarrow> None
        | Some (i, n) \<Rightarrow>
            if n = 1 then Some first
            else if i = stop then Some stop
            else (case find_if_impl p a (i + 1) stop of None \<Rightarrow> None
              | Some f \<Rightarrow> search_n_forward_loop p a f stop cnt)))"
  by pat_completeness auto
termination
  by (relation "measure (\<lambda>(p, a, first, stop, cnt). if first = stop then 0 else Suc (stop - first))")
    (auto simp del: search_n_run.simps dest!: search_n_run_forward find_if_impl_range)



definition search_n_impl :: "('a \<Rightarrow> bool) \<Rightarrow> 'a list \<Rightarrow> nat \<Rightarrow> nat \<Rightarrow> int \<Rightarrow> nat option" where
  "search_n_impl p a first stop cnt =
     (if cnt \<le> 0 then Some first
      else if cnt = 1 then find_if_impl p a first stop
      else search_n_aux p a first stop (nat cnt))"

definition search_n_equal :: "'a list \<Rightarrow> nat \<Rightarrow> nat \<Rightarrow> int \<Rightarrow> 'a \<Rightarrow> nat option" where
  "search_n_equal a first stop cnt v = search_n_impl (\<lambda>x. x = v) a first stop cnt"



declare search_compare.simps [simp del] search_loop.simps [simp del]
  search_n_run.simps [simp del] search_n_forward_loop.simps [simp del]

section \<open>The first occurrence\<close>

text \<open>The elements from \<open>i\<close> on match the pattern.\<close>

definition occurs :: "('a \<Rightarrow> 'b \<Rightarrow> bool) \<Rightarrow> 'a list \<Rightarrow> 'b list \<Rightarrow> nat \<Rightarrow> nat \<Rightarrow> nat \<Rightarrow> nat \<Rightarrow> bool" where
  "occurs bp a b last1 first2 last2 i \<longleftrightarrow> i + (last2 - first2) \<le> last1 \<and>
     (\<forall>k < last2 - first2. bp (a ! (i + k)) (b ! (first2 + k)))"

lemma search_compare_result:
  assumes "current < last1" and "last1 \<le> length a" and "p < last2" and "last2 \<le> length b"
    and "first2 \<le> p" and "current = first1 + (p - first2)"
    and "\<And>k. k < p - first2 \<Longrightarrow> bp (a ! (first1 + k)) (b ! (first2 + k))"
  shows "search_compare bp a b current p first1 last1 last2 = Some (Inl first1) \<and>
      occurs bp a b last1 first2 last2 first1 \<or>
    search_compare bp a b current p first1 last1 last2 = Some (Inl last1) \<and>
      last1 < first1 + (last2 - first2) \<or>
    search_compare bp a b current p first1 last1 last2 = Some (Inr ()) \<and>
      \<not> occurs bp a b last1 first2 last2 first1"
  using assms
proof (induction "last2 - p" arbitrary: current p)
  case (Suc n)
  then have n: "n = last2 - Suc p" and bounds: "current < length a" "p < length b"
    by auto
  note unfold = search_compare.simps [of bp a b current p]
  show ?case
  proof (cases "bp (a ! current) (b ! p)")
    case True
    then have match: "bp (a ! (first1 + k)) (b ! (first2 + k))" if "k < Suc p - first2" for k
      using that Suc.prems(5-7) by (cases "k = p - first2") auto
    consider "p + 1 = last2" | "p + 1 \<noteq> last2" "current + 1 = last1" | "p + 1 \<noteq> last2" "current + 1 \<noteq> last1"
      by blast
    then show ?thesis
    proof cases
      case 1
      then have "occurs bp a b last1 first2 last2 first1"
        using match Suc.prems(1,5,6) unfolding occurs_def by auto
      then show ?thesis
        using True 1 bounds unfold by simp
    next
      case 2
      then show ?thesis
        using True Suc.prems(3,5,6) bounds unfold by auto
    next
      case 3
      then show ?thesis
        using True Suc.hyps(1) [OF n _ _ _ _ _ _ match] Suc.prems bounds unfold
        by (simp add: Suc_diff_le)
    qed
  next
    case False
    then have "\<not> occurs bp a b last1 first2 last2 first1"
      using Suc.prems(3,5,6) unfolding occurs_def
      by (metis diff_less_mono le_add_diff_inverse)
    then show ?thesis
      using False bounds unfold by simp
  qed
qed simp

lemma search_loop_first:
  assumes "first1 \<le> last1" and "last1 \<le> length a" and "first2 + 1 < last2" and "last2 \<le> length b"
  shows "\<exists>i. search_loop bp a b first1 last1 first2 last2 = Some i \<and>
    first_with (occurs bp a b last1 first2 last2) first1 last1 i"
  using assms(1)
proof (induction "last1 - first1" arbitrary: first1 rule: less_induct)
  case less
  define y where "y = b ! first2"
  have y: "buf_get b first2 = Some y"
    using assms(3,4) by (simp add: y_def)
  obtain i where i: "find_if_impl (\<lambda>x. bp x y) a first1 last1 = Some i"
      "first_with (\<lambda>i. bp (a ! i) y) first1 last1 i"
    using find_if_impl_first [OF less.prems assms(2)] by blast
  note unfold = search_loop.simps [of bp a b first1]
  have skip: "\<not> occurs bp a b last1 first2 last2 j" if "first1 \<le> j" "j < i" for j
    using i(2) that assms(3) unfolding first_with_def occurs_def y_def
    by (metis add.right_neutral diff_is_0_eq not_le not_gr_zero add_lessD1)
  have short: "\<not> occurs bp a b last1 first2 last2 j" if "last1 < j + (last2 - first2)" for j
    using that by (simp add: occurs_def)
  have "i \<le> last1" "first1 \<le> i"
    using i(2) by (auto simp: first_with_def)
  then consider "i = last1" | "i + 1 = last1" | "i + 1 < last1"
    by linarith
  then show ?case
  proof cases
    case 1
    then have "first_with (occurs bp a b last1 first2 last2) first1 last1 last1"
      using skip \<open>first1 \<le> i\<close> by (auto simp: first_with_def)
    then show ?thesis
      using 1 y i(1) unfold by simp
  next
    case 2
    then have "last1 < i + (last2 - first2)"
      using assms(3) by linarith
    then have "\<not> occurs bp a b last1 first2 last2 i"
      by (rule short)
    then have "first_with (occurs bp a b last1 first2 last2) first1 last1 last1"
      using 2 skip \<open>first1 \<le> i\<close> by (auto simp: first_with_def less_Suc_eq)
    then show ?thesis
      using 2 y i(1) unfold by simp
  next
    case 3
    have "bp (a ! i) y"
      using i(2) 3 by (simp add: first_with_def)
    then have compare: "bp (a ! (i + k)) (b ! (first2 + k))" if "k < first2 + 1 - first2" for k
      using that by (simp add: y_def)
    let ?c = "search_compare bp a b (i + 1) (first2 + 1) i last1 last2"
    consider "?c = Some (Inl i)" "occurs bp a b last1 first2 last2 i"
      | "?c = Some (Inl last1)" "last1 < i + (last2 - first2)"
      | "?c = Some (Inr ())" "\<not> occurs bp a b last1 first2 last2 i"
      using search_compare_result [of "i + 1" last1 a "first2 + 1" last2 b first2 i bp] 3 assms(2-4) compare
      by auto
    then show ?thesis
    proof cases
      case c: 1
      then have "first_with (occurs bp a b last1 first2 last2) first1 last1 i"
        using skip 3 \<open>first1 \<le> i\<close> by (auto simp: first_with_def)
      then show ?thesis
        using c 3 y i(1) unfold by simp
    next
      case c: 2
      have "\<not> occurs bp a b last1 first2 last2 j" if "first1 \<le> j" "j < last1" for j
        using skip [of j] short [of j] c(2) that by (cases "j < i") auto
      then have "first_with (occurs bp a b last1 first2 last2) first1 last1 last1"
        using less.prems by (auto simp: first_with_def)
      then show ?thesis
        using c 3 y i(1) unfold by simp
    next
      case c: 3
      have "last1 - (i + 1) < last1 - first1"
        using 3 \<open>first1 \<le> i\<close> by simp
      then obtain r where r: "search_loop bp a b (i + 1) last1 first2 last2 = Some r"
          "first_with (occurs bp a b last1 first2 last2) (i + 1) last1 r"
        using less.hyps [of "i + 1"] 3 \<open>first1 \<le> i\<close> by auto
      have "first_with (occurs bp a b last1 first2 last2) first1 last1 r"
        using first_with_above [OF r(2), of first1] skip c(2) \<open>first1 \<le> i\<close>
        by (metis Suc_eq_plus1 le_SucI less_SucE)
      then show ?thesis
        using c(1) 3 y i(1) r(1) unfold by simp
    qed
  qed
qed

section \<open>The first run\<close>









section \<open>Properties\<close>

text \<open>
  C19. \<open>std::search\<close> returns the first position of the range where the whole
  pattern matches inside the range, and the end of the range if there is none; it reads nothing
  outside the two ranges. The last possible position, where the pattern ends with the range, counts.
\<close>

theorem search_first_occurrence:
  assumes "first1 \<le> last1" and "last1 \<le> length a" and "first2 \<le> last2" and "last2 \<le> length b"
  shows "\<exists>i. search bp a b first1 last1 first2 last2 = Some i \<and>
    first_with (occurs bp a b last1 first2 last2) first1 last1 i"
proof -
  consider "first1 = last1" | "first1 < last1" "first2 = last2" | "first1 < last1" "first2 + 1 = last2"
    | "first1 < last1" "first2 + 1 < last2"
    using assms(1,3) by linarith
  then show ?thesis
  proof cases
    case 2
    then show ?thesis
      by (auto simp: search_def search_impl_def first_with_def occurs_def)
  next
    case 3
    have "occurs bp a b last1 first2 last2 i \<longleftrightarrow> i < last1 \<and> bp (a ! i) (b ! first2)" for i
      using 3(2) by (auto simp: occurs_def)
    moreover obtain i where "find_if_impl (\<lambda>x. bp x (b ! first2)) a first1 last1 = Some i"
        "first_with (\<lambda>i. bp (a ! i) (b ! first2)) first1 last1 i"
      using find_if_impl_first [OF assms(1,2)] by blast
    ultimately show ?thesis
      using 3 assms(4) by (auto simp: search_def search_impl_def first_with_def)
  next
    case 4
    then show ?thesis
      using search_loop_first [OF assms(1,2) 4(2) assms(4)] by (simp add: search_def search_impl_def)
  qed (simp add: search_def search_impl_def)
qed

theorem search_first_occurrence_witness:
  "\<exists>i. search (=) [1, 2, 1, 2, 3 :: int] [1, 2, 3] 0 5 0 3 = Some i \<and>
    first_with (occurs (=) [1, 2, 1, 2, 3 :: int] [1, 2, 3] 5 0 3) 0 5 i"
  by (rule search_first_occurrence) simp_all



end
