(* ===== verification/Stl_Extrema.thy ===== *)
theory Stl_Extrema
  imports Stl_Base
begin

text \<open>
  Order tests and extreme elements of \<open>stl_algo.h\<close>: \<open>is_sorted\<close>, \<open>is_sorted_until\<close>, \<open>min_element\<close>,
  \<open>max_element\<close>, \<open>minmax_element\<close> with its pairwise loop, and \<open>minmax\<close>.
\<close>

section \<open>Definitions\<close>

function is_sorted_until_loop :: "('a \<Rightarrow> 'a \<Rightarrow> bool) \<Rightarrow> 'a list \<Rightarrow> nat \<Rightarrow> nat \<Rightarrow> nat \<Rightarrow> nat option" where
  "is_sorted_until_loop cmp a first nxt stop =
     (if nxt = stop then Some nxt
      else (case buf_get a nxt of None \<Rightarrow> None
          | Some y \<Rightarrow> (case buf_get a first of None \<Rightarrow> None
              | Some x \<Rightarrow> if cmp y x then Some nxt else is_sorted_until_loop cmp a nxt (nxt + 1) stop)))"
  by pat_completeness auto
termination
  by (relation "measure (\<lambda>(cmp, a, first, nxt, stop). length a - nxt)")
    (auto simp: buf_get_def split: if_splits)

definition is_sorted_until_impl :: "('a \<Rightarrow> 'a \<Rightarrow> bool) \<Rightarrow> 'a list \<Rightarrow> nat \<Rightarrow> nat \<Rightarrow> nat option" where
  "is_sorted_until_impl cmp a first stop =
     (if first = stop then Some stop else is_sorted_until_loop cmp a first (first + 1) stop)"

definition is_sorted_until :: "('a \<Rightarrow> 'a \<Rightarrow> bool) \<Rightarrow> 'a list \<Rightarrow> nat \<Rightarrow> nat \<Rightarrow> nat option" where
  "is_sorted_until cmp a first stop = is_sorted_until_impl cmp a first stop"

definition is_sorted_until_less :: "'a :: linorder list \<Rightarrow> nat \<Rightarrow> nat \<Rightarrow> nat option" where
  "is_sorted_until_less a first stop = is_sorted_until_impl iter_less_iter a first stop"

definition is_sorted :: "('a \<Rightarrow> 'a \<Rightarrow> bool) \<Rightarrow> 'a list \<Rightarrow> nat \<Rightarrow> nat \<Rightarrow> bool option" where
  "is_sorted cmp a first stop = map_option (\<lambda>i. i = stop) (is_sorted_until cmp a first stop)"

definition is_sorted_less :: "'a :: linorder list \<Rightarrow> nat \<Rightarrow> nat \<Rightarrow> bool option" where
  "is_sorted_less a first stop = map_option (\<lambda>i. i = stop) (is_sorted_until_less a first stop)"

definition minmax :: "('a \<Rightarrow> 'a \<Rightarrow> bool) \<Rightarrow> 'a \<Rightarrow> 'a \<Rightarrow> 'a \<times> 'a" where
  "minmax cmp a b = (if cmp b a then (b, a) else (a, b))"

definition minmax_less :: "'a :: linorder \<Rightarrow> 'a \<Rightarrow> 'a \<times> 'a" where
  "minmax_less a b = (if b < a then (b, a) else (a, b))"

function min_element_loop :: "('a \<Rightarrow> 'a \<Rightarrow> bool) \<Rightarrow> 'a list \<Rightarrow> nat \<Rightarrow> nat \<Rightarrow> nat \<Rightarrow> nat option" where
  "min_element_loop cmp a first stop result =
     (if first + 1 = stop then Some result
      else (case buf_get a (first + 1) of None \<Rightarrow> None
          | Some x \<Rightarrow> (case buf_get a result of None \<Rightarrow> None
              | Some y \<Rightarrow> min_element_loop cmp a (first + 1) stop (if cmp x y then first + 1 else result))))"
  by pat_completeness auto
termination
  by (relation "measure (\<lambda>(cmp, a, first, stop, result). length a - first)")
    (auto simp: buf_get_def split: if_splits)

definition min_element_impl :: "('a \<Rightarrow> 'a \<Rightarrow> bool) \<Rightarrow> 'a list \<Rightarrow> nat \<Rightarrow> nat \<Rightarrow> nat option" where
  "min_element_impl cmp a first stop =
     (if first = stop then Some first else min_element_loop cmp a first stop first)"

definition min_element :: "('a \<Rightarrow> 'a \<Rightarrow> bool) \<Rightarrow> 'a list \<Rightarrow> nat \<Rightarrow> nat \<Rightarrow> nat option" where
  "min_element cmp a first stop = min_element_impl cmp a first stop"

definition min_element_less :: "'a :: linorder list \<Rightarrow> nat \<Rightarrow> nat \<Rightarrow> nat option" where
  "min_element_less a first stop = min_element_impl iter_less_iter a first stop"

function max_element_loop :: "('a \<Rightarrow> 'a \<Rightarrow> bool) \<Rightarrow> 'a list \<Rightarrow> nat \<Rightarrow> nat \<Rightarrow> nat \<Rightarrow> nat option" where
  "max_element_loop cmp a first stop result =
     (if first + 1 = stop then Some result
      else (case buf_get a result of None \<Rightarrow> None
          | Some y \<Rightarrow> (case buf_get a (first + 1) of None \<Rightarrow> None
              | Some x \<Rightarrow> max_element_loop cmp a (first + 1) stop (if cmp y x then first + 1 else result))))"
  by pat_completeness auto
termination
  by (relation "measure (\<lambda>(cmp, a, first, stop, result). length a - first)")
    (auto simp: buf_get_def split: if_splits)

definition max_element_impl :: "('a \<Rightarrow> 'a \<Rightarrow> bool) \<Rightarrow> 'a list \<Rightarrow> nat \<Rightarrow> nat \<Rightarrow> nat option" where
  "max_element_impl cmp a first stop =
     (if first = stop then Some first else max_element_loop cmp a first stop first)"

definition max_element :: "('a \<Rightarrow> 'a \<Rightarrow> bool) \<Rightarrow> 'a list \<Rightarrow> nat \<Rightarrow> nat \<Rightarrow> nat option" where
  "max_element cmp a first stop = max_element_impl cmp a first stop"

definition max_element_less :: "'a :: linorder list \<Rightarrow> nat \<Rightarrow> nat \<Rightarrow> nat option" where
  "max_element_less a first stop = max_element_impl iter_less_iter a first stop"

text \<open>The loop of \<open>__minmax_element\<close>, which takes the elements in pairs.\<close>

function minmax_element_loop ::
    "('a \<Rightarrow> 'a \<Rightarrow> bool) \<Rightarrow> 'a list \<Rightarrow> nat \<Rightarrow> nat \<Rightarrow> nat \<Rightarrow> nat \<Rightarrow> (nat \<times> nat) option" where
  "minmax_element_loop cmp a first stop mn mx =
     (if first = stop then Some (mn, mx)
      else (case (buf_get a first, buf_get a mn, buf_get a mx) of
          (Some x, Some lo, Some hi) \<Rightarrow>
            if first + 1 = stop then
              (if cmp x lo then Some (first, mx)
               else if \<not> cmp x hi then Some (mn, first)
               else Some (mn, mx))
            else (case buf_get a (first + 1) of None \<Rightarrow> None
                | Some y \<Rightarrow>
                    if cmp y x then
                      minmax_element_loop cmp a (first + 2) stop
                        (if cmp y lo then first + 1 else mn) (if \<not> cmp x hi then first else mx)
                    else
                      minmax_element_loop cmp a (first + 2) stop
                        (if cmp x lo then first else mn) (if \<not> cmp y hi then first + 1 else mx))
        | _ \<Rightarrow> None))"
  by pat_completeness auto
termination
  by (relation "measure (\<lambda>(cmp, a, first, stop, mn, mx). length a - first)")
    (auto simp: buf_get_def split: if_splits)

definition minmax_element_impl :: "('a \<Rightarrow> 'a \<Rightarrow> bool) \<Rightarrow> 'a list \<Rightarrow> nat \<Rightarrow> nat \<Rightarrow> (nat \<times> nat) option" where
  "minmax_element_impl cmp a first stop =
     (if first = stop \<or> first + 1 = stop then Some (first, first)
      else do {
        y \<leftarrow> buf_get a (first + 1);
        x \<leftarrow> buf_get a first;
        if cmp y x then minmax_element_loop cmp a (first + 2) stop (first + 1) first
        else minmax_element_loop cmp a (first + 2) stop first (first + 1) })"

definition minmax_element :: "('a \<Rightarrow> 'a \<Rightarrow> bool) \<Rightarrow> 'a list \<Rightarrow> nat \<Rightarrow> nat \<Rightarrow> (nat \<times> nat) option" where
  "minmax_element cmp a first stop = minmax_element_impl cmp a first stop"

definition minmax_element_less :: "'a :: linorder list \<Rightarrow> nat \<Rightarrow> nat \<Rightarrow> (nat \<times> nat) option" where
  "minmax_element_less a first stop = minmax_element_impl iter_less_iter a first stop"

declare is_sorted_until_loop.simps [simp del] min_element_loop.simps [simp del]
  max_element_loop.simps [simp del] minmax_element_loop.simps [simp del]

section \<open>Extreme positions\<close>

definition first_min :: "('a \<Rightarrow> 'a \<Rightarrow> bool) \<Rightarrow> 'a list \<Rightarrow> nat \<Rightarrow> nat \<Rightarrow> nat \<Rightarrow> bool" where
  "first_min cmp a f r m \<longleftrightarrow> f \<le> m \<and> m < r \<and> (\<forall>i. f \<le> i \<and> i < r \<longrightarrow> \<not> cmp (a ! i) (a ! m)) \<and>
     (\<forall>i. f \<le> i \<and> i < m \<longrightarrow> cmp (a ! m) (a ! i))"

definition first_max :: "('a \<Rightarrow> 'a \<Rightarrow> bool) \<Rightarrow> 'a list \<Rightarrow> nat \<Rightarrow> nat \<Rightarrow> nat \<Rightarrow> bool" where
  "first_max cmp a f r m \<longleftrightarrow> f \<le> m \<and> m < r \<and> (\<forall>i. f \<le> i \<and> i < r \<longrightarrow> \<not> cmp (a ! m) (a ! i)) \<and>
     (\<forall>i. f \<le> i \<and> i < m \<longrightarrow> cmp (a ! i) (a ! m))"

definition last_max :: "('a \<Rightarrow> 'a \<Rightarrow> bool) \<Rightarrow> 'a list \<Rightarrow> nat \<Rightarrow> nat \<Rightarrow> nat \<Rightarrow> bool" where
  "last_max cmp a f r m \<longleftrightarrow> f \<le> m \<and> m < r \<and> (\<forall>i. f \<le> i \<and> i < r \<longrightarrow> \<not> cmp (a ! m) (a ! i)) \<and>
     (\<forall>i. m < i \<and> i < r \<longrightarrow> cmp (a ! i) (a ! m))"

context strict_weak_ordering
begin

lemma extremes_single:
  "first_min cmp a f (Suc f) f" "first_max cmp a f (Suc f) f" "last_max cmp a f (Suc f) f"
  by (auto simp: first_min_def first_max_def last_max_def less_Suc_eq)

text \<open>One more element.\<close>

lemma first_min_Suc:
  assumes "first_min cmp a f r m"
  shows "first_min cmp a f (Suc r) (if cmp (a ! r) (a ! m) then r else m)"
proof (cases "cmp (a ! r) (a ! m)")
  case True
  have "cmp (a ! r) (a ! i)" if "f \<le> i" "i < r" for i
    using assms that True cmp_split [of "a ! r" "a ! m" "a ! i"] by (auto simp: first_min_def)
  then show ?thesis
    using assms True cmp_asym by (auto simp: first_min_def less_Suc_eq)
next
  case False
  then show ?thesis
    using assms by (auto simp: first_min_def less_Suc_eq)
qed

lemma first_max_Suc:
  assumes "first_max cmp a f r m"
  shows "first_max cmp a f (Suc r) (if cmp (a ! m) (a ! r) then r else m)"
proof (cases "cmp (a ! m) (a ! r)")
  case True
  have "cmp (a ! i) (a ! r)" if "f \<le> i" "i < r" for i
    using assms that True cmp_split [of "a ! m" "a ! r" "a ! i"] by (auto simp: first_max_def)
  then show ?thesis
    using assms True cmp_asym by (auto simp: first_max_def less_Suc_eq)
next
  case False
  then show ?thesis
    using assms by (auto simp: first_max_def less_Suc_eq)
qed

lemma last_max_Suc:
  assumes "last_max cmp a f r m"
  shows "last_max cmp a f (Suc r) (if \<not> cmp (a ! r) (a ! m) then r else m)"
proof (cases "cmp (a ! r) (a ! m)")
  case True
  then show ?thesis
    using assms cmp_asym by (auto simp: last_max_def less_Suc_eq)
next
  case False
  have "\<not> cmp (a ! r) (a ! i)" if "f \<le> i" "i < r" for i
    using assms that False cmp_split [of "a ! r" "a ! i" "a ! m"] by (auto simp: last_max_def)
  then show ?thesis
    using assms False by (auto simp: last_max_def less_Suc_eq)
qed

lemma min_element_loop_first:
  assumes "first_min cmp a f (Suc i) m" and "Suc i \<le> stop" and "stop \<le> length a"
  shows "\<exists>r. min_element_loop cmp a i stop m = Some r \<and> first_min cmp a f stop r"
  using assms
proof (induction "stop - i" arbitrary: i m)
  case (Suc n)
  show ?case
  proof (cases "Suc i = stop")
    case True
    then show ?thesis
      using Suc.prems(1) by (simp add: min_element_loop.simps [of cmp a])
  next
    case False
    have n: "n = stop - Suc i" and b: "Suc i < length a" "m < length a"
      using Suc.hyps(2) Suc.prems False by (auto simp: first_min_def)
    show ?thesis
      using Suc.hyps(1) [OF n first_min_Suc [OF Suc.prems(1)]] False Suc.prems b
      by (cases "cmp (a ! Suc i) (a ! m)") (simp_all add: min_element_loop.simps [of cmp a i])
  qed
qed simp

lemma max_element_loop_first:
  assumes "first_max cmp a f (Suc i) m" and "Suc i \<le> stop" and "stop \<le> length a"
  shows "\<exists>r. max_element_loop cmp a i stop m = Some r \<and> first_max cmp a f stop r"
  using assms
proof (induction "stop - i" arbitrary: i m)
  case (Suc n)
  show ?case
  proof (cases "Suc i = stop")
    case True
    then show ?thesis
      using Suc.prems(1) by (simp add: max_element_loop.simps [of cmp a])
  next
    case False
    have n: "n = stop - Suc i" and b: "Suc i < length a" "m < length a"
      using Suc.hyps(2) Suc.prems False by (auto simp: first_max_def)
    show ?thesis
      using Suc.hyps(1) [OF n first_max_Suc [OF Suc.prems(1)]] False Suc.prems b
      by (cases "cmp (a ! m) (a ! Suc i)") (simp_all add: max_element_loop.simps [of cmp a i])
  qed
qed simp

text \<open>A pair of elements, compared with each other first.\<close>

lemma first_min_pair:
  assumes "first_min cmp a f r m"
  shows "first_min cmp a f (r + 2)
    (if cmp (a ! (r + 1)) (a ! r) then (if cmp (a ! (r + 1)) (a ! m) then r + 1 else m)
     else (if cmp (a ! r) (a ! m) then r else m))"
    (is "first_min cmp a f _ ?n")
proof -
  let ?m = "if cmp (a ! r) (a ! m) then r else m"
  have "first_min cmp a f (r + 2) (if cmp (a ! (r + 1)) (a ! ?m) then r + 1 else ?m)"
    using first_min_Suc [OF first_min_Suc [OF assms]] by (auto split: if_splits)
  moreover have "(if cmp (a ! (r + 1)) (a ! ?m) then r + 1 else ?m) = ?n"
    using cmp_trans [of "a ! (r + 1)" "a ! r" "a ! m"] cmp_le_trans [of "a ! r" "a ! m" "a ! (r + 1)"] by auto
  ultimately show ?thesis by simp
qed

lemma last_max_pair:
  assumes "last_max cmp a f r m"
  shows "last_max cmp a f (r + 2)
    (if cmp (a ! (r + 1)) (a ! r) then (if \<not> cmp (a ! r) (a ! m) then r else m)
     else (if \<not> cmp (a ! (r + 1)) (a ! m) then r + 1 else m))"
    (is "last_max cmp a f _ ?n")
proof -
  let ?m = "if \<not> cmp (a ! r) (a ! m) then r else m"
  have "last_max cmp a f (r + 2) (if \<not> cmp (a ! (r + 1)) (a ! ?m) then r + 1 else ?m)"
    using last_max_Suc [OF last_max_Suc [OF assms]] by (auto split: if_splits)
  moreover have "(if \<not> cmp (a ! (r + 1)) (a ! ?m) then r + 1 else ?m) = ?n"
    using cmp_trans [of "a ! (r + 1)" "a ! r" "a ! m"] cmp_le_trans [of "a ! r" "a ! m" "a ! (r + 1)"] by auto
  ultimately show ?thesis by simp
qed

lemma minmax_element_loop_extremes:
  assumes "first_min cmp a f i m" and "last_max cmp a f i k" and "i \<le> stop" and "stop \<le> length a"
  shows "\<exists>m' k'. minmax_element_loop cmp a i stop m k = Some (m', k') \<and> first_min cmp a f stop m' \<and>
    last_max cmp a f stop k'"
  using assms
proof (induction "stop - i" arbitrary: i m k rule: less_induct)
  case less
  have b: "m < length a" "k < length a"
    using less.prems(1-4) by (auto simp: first_min_def last_max_def)
  consider "i = stop" | "i + 1 = stop" | "i + 1 < stop"
    using less.prems(3) by linarith
  then show ?case
  proof cases
    case 1
    then show ?thesis
      using less.prems by (simp add: minmax_element_loop.simps [of cmp a])
  next
    case 2
    have "cmp (a ! i) (a ! k)" if "cmp (a ! i) (a ! m)"
      using cmp_split [OF that, of "a ! k"] less.prems(1,2) by (auto simp: first_min_def last_max_def)
    then show ?thesis
      using first_min_Suc [OF less.prems(1)] last_max_Suc [OF less.prems(2)] 2 less.prems(4) b
      by (auto simp: minmax_element_loop.simps [of cmp a i])
  next
    case 3
    then have lt: "i < length a" "i + 1 < length a" "i + 2 \<le> stop" "stop - (i + 2) < stop - i"
      using less.prems(4) by auto
    note ih = less.hyps [OF lt(4) first_min_pair [OF less.prems(1)] last_max_pair [OF less.prems(2)]
        lt(3) less.prems(4)]
    show ?thesis
      using ih 3 lt b
      by (cases "cmp (a ! (i + 1)) (a ! i)")
        (simp_all add: minmax_element_loop.simps [of cmp a i] split del: if_split)
  qed
qed

lemma is_sorted_until_loop_longest:
  assumes "sorted_range cmp a f i" and "f < i" and "i \<le> stop" and "stop \<le> length a"
  shows "\<exists>r. is_sorted_until_loop cmp a (i - 1) i stop = Some r \<and> f \<le> r \<and> r \<le> stop \<and> sorted_range cmp a f r \<and>
    (r < stop \<longrightarrow> \<not> sorted_range cmp a f (Suc r))"
  using assms
proof (induction "stop - i" arbitrary: i)
  case 0
  then show ?case
    by (simp add: is_sorted_until_loop.simps [of cmp a])
next
  case (Suc n)
  then have i: "i < stop" "i < length a" "i - 1 < length a" and n: "n = stop - Suc i"
    by auto
  show ?case
  proof (cases "cmp (a ! i) (a ! (i - 1))")
    case True
    then have "\<not> sorted_range cmp a f (Suc i)"
      using Suc.prems(2) unfolding sorted_range_def
      by (metis One_nat_def Suc_pred diff_less lessI less_Suc_eq_le not_less_zero zero_less_Suc gr0I)
    then show ?thesis
      using True i Suc.prems by (simp add: is_sorted_until_loop.simps [of cmp a])
  next
    case False
    have "\<not> cmp (a ! i) (a ! j)" if "f \<le> j" "j < i" for j
    proof (cases "j = i - 1")
      case False
      then have "\<not> cmp (a ! (i - 1)) (a ! j)"
        using Suc.prems(1) that unfolding sorted_range_def by auto
      then show ?thesis
        using \<open>\<not> cmp (a ! i) (a ! (i - 1))\<close> cmp_le_trans by blast
    qed (use \<open>\<not> cmp (a ! i) (a ! (i - 1))\<close> in simp)
    then have "sorted_range cmp a f (Suc i)"
      using Suc.prems(1) by (auto simp: sorted_range_def less_Suc_eq)
    then show ?thesis
      using Suc.hyps(1) [OF n] Suc.prems i False
      by (subst is_sorted_until_loop.simps) simp
  qed
qed

end

section \<open>Properties\<close>

text \<open>
  C39. The pairwise loop of \<open>std::minmax_element\<close> finds the first smallest and
  the last greatest element of a nonempty range; the smallest is the one \<open>std::min_element\<close> finds,
  while \<open>std::max_element\<close> finds the first greatest.
\<close>

theorem minmax_element_extremes:
  assumes "strict_weak_ordering cmp" and "first < stop" and "stop \<le> length a"
  shows "\<exists>m k j. minmax_element cmp a first stop = Some (m, k) \<and> min_element cmp a first stop = Some m \<and>
    max_element cmp a first stop = Some j \<and> first_min cmp a first stop m \<and>
    last_max cmp a first stop k \<and> first_max cmp a first stop j"
proof -
  note swo = strict_weak_ordering.extremes_single [OF assms(1), of a first]
  have unique: "i = m" if "first_min cmp a first stop i" "first_min cmp a first stop m" for i m
    using that unfolding first_min_def by (metis linorder_neqE_nat)
  obtain i where i: "min_element_loop cmp a first stop first = Some i" "first_min cmp a first stop i"
    using strict_weak_ordering.min_element_loop_first [OF assms(1) swo(1), of stop] assms(2,3) by auto
  obtain j where j: "max_element_loop cmp a first stop first = Some j" "first_max cmp a first stop j"
    using strict_weak_ordering.max_element_loop_first [OF assms(1) swo(2), of stop] assms(2,3) by auto
  have "\<exists>m k. minmax_element_impl cmp a first stop = Some (m, k) \<and> first_min cmp a first stop m \<and>
      last_max cmp a first stop k"
  proof (cases "first + 1 = stop")
    case True
    then show ?thesis
      using swo by (auto simp: minmax_element_impl_def)
  next
    case False
    then have lt: "first + 2 \<le> stop" "first + 1 < length a" "first < length a"
      using assms(2,3) by auto
    have "first_min cmp a first (first + 2) (if cmp (a ! (first + 1)) (a ! first) then first + 1 else first)"
      and "last_max cmp a first (first + 2) (if \<not> cmp (a ! (first + 1)) (a ! first) then first + 1 else first)"
      using strict_weak_ordering.first_min_Suc [OF assms(1) swo(1)]
        strict_weak_ordering.last_max_Suc [OF assms(1) swo(3)] by (auto split: if_splits)
    from strict_weak_ordering.minmax_element_loop_extremes [OF assms(1) this lt(1) assms(3)]
    show ?thesis
      using False lt assms(2)
      by (cases "cmp (a ! (first + 1)) (a ! first)") (simp_all add: minmax_element_impl_def)
  qed
  then show ?thesis
    using i j unique assms(2)
    by (fastforce simp: minmax_element_def min_element_def min_element_impl_def max_element_def
        max_element_impl_def)
qed

theorem minmax_element_extremes_witness:
  "\<exists>m k j. minmax_element iter_less_iter [3, 1, 4, 1, 4 :: int] 0 5 = Some (m, k) \<and>
    min_element iter_less_iter [3, 1, 4, 1, 4 :: int] 0 5 = Some m \<and>
    max_element iter_less_iter [3, 1, 4, 1, 4 :: int] 0 5 = Some j \<and>
    first_min iter_less_iter [3, 1, 4, 1, 4 :: int] 0 5 m \<and>
    last_max iter_less_iter [3, 1, 4, 1, 4 :: int] 0 5 k \<and> first_max iter_less_iter [3, 1, 4, 1, 4 :: int] 0 5 j"
  by (rule minmax_element_extremes [OF less.strict_weak_ordering_axioms]) simp_all

text \<open>
  \<open>std::is_sorted_until\<close> returns the end of the longest sorted prefix of the
  range, and \<open>std::is_sorted\<close> decides whether the range is sorted, although only neighbours are
  compared.
\<close>

theorem is_sorted_decides:
  assumes "strict_weak_ordering cmp" and "first \<le> stop" and "stop \<le> length a"
  shows "is_sorted cmp a first stop = Some (sorted_range cmp a first stop) \<and>
    (\<exists>i. is_sorted_until cmp a first stop = Some i \<and> first \<le> i \<and> i \<le> stop \<and> sorted_range cmp a first i \<and>
      (i < stop \<longrightarrow> \<not> sorted_range cmp a first (Suc i)))"
proof (cases "first = stop")
  case True
  then show ?thesis
    by (simp add: is_sorted_def is_sorted_until_def is_sorted_until_impl_def sorted_range_singleton)
next
  case False
  then obtain i where i: "is_sorted_until_loop cmp a first (first + 1) stop = Some i" "first \<le> i" "i \<le> stop"
      "sorted_range cmp a first i" "i < stop \<longrightarrow> \<not> sorted_range cmp a first (Suc i)"
    using strict_weak_ordering.is_sorted_until_loop_longest [OF assms(1), of a first "Suc first" stop]
      sorted_range_singleton [of "Suc first" first cmp a] assms(2,3) by auto
  have "\<not> sorted_range cmp a first stop" if "i < stop"
    using i(5) that unfolding sorted_range_def by (meson Suc_leI less_le_trans)
  then show ?thesis
    using i False by (auto simp: is_sorted_def is_sorted_until_def is_sorted_until_impl_def le_less)
qed

theorem is_sorted_decides_witness:
  "is_sorted iter_less_iter [1, 2, 2, 0 :: int] 0 4 = Some (sorted_range iter_less_iter [1, 2, 2, 0 :: int] 0 4) \<and>
    (\<exists>i. is_sorted_until iter_less_iter [1, 2, 2, 0 :: int] 0 4 = Some i \<and> 0 \<le> i \<and> i \<le> 4 \<and>
      sorted_range iter_less_iter [1, 2, 2, 0 :: int] 0 i \<and>
      (i < 4 \<longrightarrow> \<not> sorted_range iter_less_iter [1, 2, 2, 0 :: int] 0 (Suc i)))"
  by (rule is_sorted_decides [OF less.strict_weak_ordering_axioms]) simp_all

end
