(* ===== verification/Stl_Rotate.thy ===== *)
theory Stl_Rotate
  imports Stl_Sort
begin

text \<open>
  Reversal and rotation of \<open>stl_algo.h\<close>, with the three implementations of \<open>__rotate\<close>, and the moves
  of ranges of \<open>stl_algobase.h\<close>. The lemmas speak of an array as the concatenation of its parts: what
  is before the range, the parts of the range, and what is behind it.
\<close>

section \<open>Definitions\<close>

text \<open>\<open>std::move\<close> (or \<open>std::copy\<close>) of \<open>n\<close> elements inside an array, and from one array to another.\<close>

fun move_n :: "'a list \<Rightarrow> nat \<Rightarrow> nat \<Rightarrow> nat \<Rightarrow> 'a list option" where
  "move_n a first result 0 = Some a"
| "move_n a first result (Suc n) = do {
     x \<leftarrow> buf_get a first;
     a \<leftarrow> buf_put a result x;
     move_n a (first + 1) (result + 1) n }"

fun move_across :: "'a list \<Rightarrow> nat \<Rightarrow> 'a list \<Rightarrow> nat \<Rightarrow> nat \<Rightarrow> 'a list option" where
  "move_across a first b result 0 = Some b"
| "move_across a first b result (Suc n) = do {
     x \<leftarrow> buf_get a first;
     b \<leftarrow> buf_put b result x;
     move_across a (first + 1) b (result + 1) n }"

function swap_ranges :: "'a list \<Rightarrow> nat \<Rightarrow> nat \<Rightarrow> nat \<Rightarrow> ('a list \<times> nat) option" where
  "swap_ranges a first1 last1 first2 =
     (if first1 < last1 then do {
        a \<leftarrow> iter_swap a first1 first2;
        swap_ranges a (first1 + 1) last1 (first2 + 1) }
      else Some (a, first2))"
  by pat_completeness auto
termination
  by (relation "measure (\<lambda>(a, first1, last1, first2). last1 - first1)") auto

function reverse_bidirectional :: "'a list \<Rightarrow> nat \<Rightarrow> nat \<Rightarrow> 'a list option" where
  "reverse_bidirectional a first stop =
     (if first = stop then Some a
      else (case stop of 0 \<Rightarrow> None
          | Suc l \<Rightarrow> if first = l then Some a
              else do {
                a \<leftarrow> iter_swap a first l;
                reverse_bidirectional a (first + 1) l }))"
  by pat_completeness auto
termination
  by (relation "measure (\<lambda>(a, first, stop). stop)") auto

function reverse_loop :: "'a list \<Rightarrow> nat \<Rightarrow> nat \<Rightarrow> 'a list option" where
  "reverse_loop a first l =
     (if first < l then do {
        a \<leftarrow> iter_swap a first l;
        reverse_loop a (first + 1) (l - 1) }
      else Some a)"
  by pat_completeness auto
termination
  by (relation "measure (\<lambda>(a, first, l). l)") auto

definition reverse_impl :: "'a list \<Rightarrow> nat \<Rightarrow> nat \<Rightarrow> 'a list option" where
  "reverse_impl a first stop = (if first = stop then Some a else reverse_loop a first (stop - 1))"

definition reverse :: "'a list \<Rightarrow> nat \<Rightarrow> nat \<Rightarrow> 'a list option" where
  "reverse a first stop = reverse_impl a first stop"

text \<open>\<open>reverse_copy\<close> writes through an output iterator: the result is the list of elements written.\<close>

function reverse_copy :: "'a list \<Rightarrow> nat \<Rightarrow> nat \<Rightarrow> 'a list option" where
  "reverse_copy a first stop =
     (if first = stop then Some []
      else (case stop of 0 \<Rightarrow> None
          | Suc l \<Rightarrow> do {
              x \<leftarrow> buf_get a l;
              ys \<leftarrow> reverse_copy a first l;
              Some (x # ys) }))"
  by pat_completeness auto
termination
  by (relation "measure (\<lambda>(a, first, stop). stop)") auto

text \<open>
  \<open>__rotate\<close> for forward iterators. The test after a swap is the same in its two loops but for the
  reset of the second iterator at the end of the range, which is where the first loop ends.
\<close>

function rotate_pass :: "'a list \<Rightarrow> nat \<Rightarrow> nat \<Rightarrow> nat \<Rightarrow> nat \<Rightarrow> ('a list \<times> nat \<times> nat) option" where
  "rotate_pass a first middle first2 stop =
     (case iter_swap a first first2 of None \<Rightarrow> None
      | Some a \<Rightarrow>
          let first = first + 1; first2 = first2 + 1; middle = (if first = middle then first2 else middle)
          in if first2 \<noteq> stop then rotate_pass a first middle first2 stop
             else Some (a, first, middle))"
  by pat_completeness auto
termination
  by (relation "measure (\<lambda>(a, first, middle, first2, stop). length a - first2)")
    (auto simp: iter_swap_def buf_get_def buf_put_def bind_eq_Some_conv split: if_splits)

function rotate_rest :: "'a list \<Rightarrow> nat \<Rightarrow> nat \<Rightarrow> nat \<Rightarrow> nat \<Rightarrow> 'a list option" where
  "rotate_rest a first middle first2 stop =
     (if first2 = stop then Some a
      else (case iter_swap a first first2 of None \<Rightarrow> None
          | Some a \<Rightarrow>
              let first = first + 1; first2 = first2 + 1
              in if first = middle then rotate_rest a first first2 first2 stop
                 else if first2 = stop then rotate_rest a first middle middle stop
                 else rotate_rest a first middle first2 stop))"
  by pat_completeness auto
termination
  by (relation "measure (\<lambda>(a, first, middle, first2, stop). length a - first)")
    (auto simp: iter_swap_def buf_get_def buf_put_def bind_eq_Some_conv split: if_splits)

definition rotate_forward :: "'a list \<Rightarrow> nat \<Rightarrow> nat \<Rightarrow> nat \<Rightarrow> ('a list \<times> nat) option" where
  "rotate_forward a first middle stop =
     (if first = middle then Some (a, stop)
      else if stop = middle then Some (a, first)
      else do {
        (a, first, middle) \<leftarrow> rotate_pass a first middle middle stop;
        let ret = first;
        a \<leftarrow> rotate_rest a first middle middle stop;
        Some (a, ret) })"

text \<open>\<open>__rotate\<close> for bidirectional iterators.\<close>

function rotate_exchange :: "'a list \<Rightarrow> nat \<Rightarrow> nat \<Rightarrow> nat \<Rightarrow> ('a list \<times> nat \<times> nat) option" where
  "rotate_exchange a first middle stop =
     (if first \<noteq> middle \<and> middle \<noteq> stop then
        (case stop of 0 \<Rightarrow> None
         | Suc l \<Rightarrow> do {
             a \<leftarrow> iter_swap a first l;
             rotate_exchange a (first + 1) middle l })
      else Some (a, first, stop))"
  by pat_completeness auto
termination
  by (relation "measure (\<lambda>(a, first, middle, stop). stop)") auto

definition rotate_bidirectional :: "'a list \<Rightarrow> nat \<Rightarrow> nat \<Rightarrow> nat \<Rightarrow> ('a list \<times> nat) option" where
  "rotate_bidirectional a first middle stop =
     (if first = middle then Some (a, stop)
      else if stop = middle then Some (a, first)
      else do {
        a \<leftarrow> reverse_bidirectional a first middle;
        a \<leftarrow> reverse_bidirectional a middle stop;
        (a, first, stop) \<leftarrow> rotate_exchange a first middle stop;
        if first = middle then do {
          a \<leftarrow> reverse_bidirectional a middle stop;
          Some (a, stop) }
        else do {
          a \<leftarrow> reverse_bidirectional a first middle;
          Some (a, first) } })"

text \<open>\<open>__rotate\<close> for random access iterators: the two inner loops, the outer loop, the function.\<close>

fun swap_up :: "'a list \<Rightarrow> nat \<Rightarrow> nat \<Rightarrow> nat \<Rightarrow> 'a list option" where
  "swap_up a p q 0 = Some a"
| "swap_up a p q (Suc n) = do {
     a \<leftarrow> iter_swap a p q;
     swap_up a (p + 1) (q + 1) n }"

fun swap_down :: "'a list \<Rightarrow> nat \<Rightarrow> nat \<Rightarrow> nat \<Rightarrow> 'a list option" where
  "swap_down a p q 0 = Some a"
| "swap_down a p q (Suc n) = do {
     a \<leftarrow> iter_swap a (p - 1) (q - 1);
     swap_down a (p - 1) (q - 1) n }"

function rotate_loop :: "bool \<Rightarrow> 'a list \<Rightarrow> nat \<Rightarrow> nat \<Rightarrow> nat \<Rightarrow> 'a list option" where
  "rotate_loop is_pod a p n k =
     (if k < n - k then
        (if is_pod \<and> k = 1 then do {
           t \<leftarrow> buf_get a p;
           a \<leftarrow> move_n a (p + 1) p (n - 1);
           buf_put a (p + n - 1) t }
         else do {
           a \<leftarrow> swap_up a p (p + k) (n - k);
           if k = 0 then None
           else if n mod k = 0 then Some a
           else rotate_loop is_pod a (p + (n - k)) k (k - n mod k) })
      else
        (let k = n - k in
         if is_pod \<and> k = 1 then do {
           t \<leftarrow> buf_get a (p + n - 1);
           a \<leftarrow> move_backward_n a (p + n - 1) (p + n) (n - 1);
           buf_put a p t }
         else do {
           a \<leftarrow> swap_down a (p + n - k) (p + n) (n - k);
           if k = 0 then None
           else if n mod k = 0 then Some a
           else rotate_loop is_pod a (p + n - k - (n - k)) k (n mod k) }))"
  by pat_completeness auto
termination
  by (relation "measure (\<lambda>(is_pod, a, p, n, k). n)") auto

definition rotate_random :: "bool \<Rightarrow> 'a list \<Rightarrow> nat \<Rightarrow> nat \<Rightarrow> nat \<Rightarrow> ('a list \<times> nat) option" where
  "rotate_random is_pod a first middle stop =
     (if first = middle then Some (a, stop)
      else if stop = middle then Some (a, first)
      else let n = stop - first; k = middle - first in
        if k = n - k then do {
          (a, _) \<leftarrow> swap_ranges a first middle middle;
          Some (a, middle) }
        else do {
          a \<leftarrow> rotate_loop is_pod a first n k;
          Some (a, first + (stop - middle)) })"

definition rotate_range :: "bool \<Rightarrow> 'a list \<Rightarrow> nat \<Rightarrow> nat \<Rightarrow> nat \<Rightarrow> ('a list \<times> nat) option" where
  "rotate_range is_pod a first middle stop = rotate_random is_pod a first middle stop"

declare swap_ranges.simps [simp del] reverse_bidirectional.simps [simp del] reverse_loop.simps [simp del]
  reverse_copy.simps [simp del] rotate_pass.simps [simp del] rotate_rest.simps [simp del]
  rotate_exchange.simps [simp del] rotate_loop.simps [simp del]

section \<open>Arrays as concatenations\<close>

lemma buf_get_append: "i = length p \<Longrightarrow> buf_get (p @ x # s) i = Some x"
  by (simp add: buf_get_def)

lemma buf_put_append: "i = length p \<Longrightarrow> buf_put (p @ x # s) i y = Some (p @ y # s)"
  by (simp add: buf_put_def)

lemma iter_swap_append:
  assumes "i = length p" and "j = length p + Suc (length m)"
  shows "iter_swap (p @ x # m @ y # s) i j = Some (p @ y # m @ x # s)"
  using assms buf_get_append [of j "p @ x # m" y s] buf_put_append [of j "p @ y # m" y s x]
  by (simp add: iter_swap_def buf_get_append buf_put_append)

lemma reverse_bidirectional_rev:
  assumes "f = length p" and "r = length p + length xs"
  shows "reverse_bidirectional (p @ xs @ s) f r = Some (p @ rev xs @ s)"
  using assms
proof (induction "length xs" arbitrary: p xs s f r rule: less_induct)
  case less
  show ?case
  proof (cases xs)
    case Nil
    then show ?thesis
      using less.prems by (simp add: reverse_bidirectional.simps)
  next
    case (Cons x ys)
    show ?thesis
    proof (cases ys rule: rev_cases)
      case Nil
      then show ?thesis
        using less.prems Cons by (simp add: reverse_bidirectional.simps)
    next
      case (snoc zs y)
      have "reverse_bidirectional ((p @ [y]) @ zs @ (x # s)) (Suc f) (Suc f + length zs) =
          Some ((p @ [y]) @ rev zs @ (x # s))"
        using less.hyps [of zs "Suc f" "p @ [y]" "Suc f + length zs" "x # s"] less.prems Cons snoc by simp
      then show ?thesis
        using less.prems Cons snoc
        by (subst reverse_bidirectional.simps) (simp add: iter_swap_append)
    qed
  qed
qed

lemma reverse_loop_rev:
  assumes "f = length p" and "xs \<noteq> []" and "l = length p + length xs - 1"
  shows "reverse_loop (p @ xs @ s) f l = Some (p @ rev xs @ s)"
  using assms
proof (induction "length xs" arbitrary: p xs s f l rule: less_induct)
  case less
  obtain x ys where xs: "xs = x # ys"
    using less.prems(2) by (cases xs) auto
  show ?case
  proof (cases ys rule: rev_cases)
    case Nil
    then show ?thesis
      using less.prems xs by (simp add: reverse_loop.simps)
  next
    case (snoc zs y)
    have "reverse_loop ((p @ [y]) @ zs @ (x # s)) (Suc f) (f + length zs) = Some ((p @ [y]) @ rev zs @ (x # s))"
    proof (cases "zs = []")
      case True
      then show ?thesis
        by (simp add: reverse_loop.simps)
    next
      case False
      then show ?thesis
        using less.hyps [of zs "Suc f" "p @ [y]" "f + length zs" "x # s"] less.prems xs snoc by simp
    qed
    then show ?thesis
      using less.prems xs snoc by (subst reverse_loop.simps) (simp add: iter_swap_append)
  qed
qed

lemma reverse_impl_rev:
  assumes "f = length p" and "r = length p + length xs"
  shows "reverse_impl (p @ xs @ s) f r = Some (p @ rev xs @ s)"
  using reverse_loop_rev [of f p xs "r - 1" s] assms by (cases "xs = []") (simp_all add: reverse_impl_def)

text \<open>Moves of blocks.\<close>

lemma move_n_down:
  assumes "f = length p + 1" and "r = length p" and "n = length xs"
  shows "move_n (p @ t # xs @ s) f r n = Some (p @ xs @ last (t # xs) # s)"
  using assms
proof (induction xs arbitrary: p t f r n)
  case (Cons x xs)
  have "buf_get (p @ t # (x # xs) @ s) f = Some x"
    using buf_get_append [of f "p @ [t]" x "xs @ s"] Cons.prems(1) by simp
  moreover have "buf_put (p @ t # (x # xs) @ s) r x = Some ((p @ [x]) @ x # xs @ s)"
    using Cons.prems(2) by (simp add: buf_put_append)
  moreover have "move_n ((p @ [x]) @ x # xs @ s) (f + 1) (r + 1) (length xs) =
      Some ((p @ [x]) @ xs @ last (x # xs) # s)"
    using Cons.IH [of "f + 1" "p @ [x]" "r + 1" "length xs" x] Cons.prems by simp
  ultimately show ?case
    using Cons.prems(3) by simp
qed simp

lemma move_backward_n_up:
  assumes "f = length p + length xs" and "r = length p + length xs + 1" and "n = length xs"
  shows "move_backward_n (p @ xs @ t # s) f r n = Some (p @ hd (xs @ [t]) # xs @ s)"
  using assms
proof (induction xs arbitrary: t s f r n rule: rev_induct)
  case (snoc x xs)
  have "buf_get (p @ (xs @ [x]) @ t # s) (f - 1) = Some x"
    using buf_get_append [of "f - 1" "p @ xs" x "t # s"] snoc.prems(1) by simp
  moreover have "buf_put (p @ (xs @ [x]) @ t # s) (r - 1) x = Some (p @ xs @ x # x # s)"
    using buf_put_append [of "r - 1" "p @ xs @ [x]" t s x] snoc.prems(2) by simp
  moreover have "move_backward_n (p @ xs @ x # x # s) (f - 1) (r - 1) (length xs) =
      Some (p @ hd (xs @ [x]) # xs @ x # s)"
    using snoc.IH [of "f - 1" "r - 1" "length xs" x "x # s"] snoc.prems by simp
  ultimately show ?case
    using snoc.prems(3) by (cases xs) simp_all
qed simp

lemma swap_up_rotate:
  assumes "i = length p" and "j = length p + length us" and "n = length vs" and "us \<noteq> []"
  shows "swap_up (p @ us @ vs @ s) i j n = Some (p @ vs @ rotate (length vs) us @ s)"
  using assms
proof (induction vs arbitrary: p us i j n)
  case (Cons v vs)
  obtain u us' where us: "us = u # us'"
    using Cons.prems(4) by (cases us) auto
  have "iter_swap (p @ us @ (v # vs) @ s) i j = Some (p @ v # us' @ u # vs @ s)"
    using iter_swap_append [of i p j us' u v "vs @ s"] Cons.prems(1,2) us by simp
  moreover have "swap_up ((p @ [v]) @ (us' @ [u]) @ vs @ s) (i + 1) (j + 1) (length vs) =
      Some ((p @ [v]) @ vs @ rotate (length vs) (us' @ [u]) @ s)"
    using Cons.IH [of "i + 1" "p @ [v]" "j + 1" "us' @ [u]" "length vs"] Cons.prems(1,2) us by simp
  ultimately show ?case
    using Cons.prems(3) us by (simp add: rotate1_rotate_swap)
qed simp

text \<open>Rotation to the right is what \<open>swap_down\<close> leaves; rotating it back to the left gives the block.\<close>

lemma swap_down_rotate:
  assumes "i = length p + length us" and "j = length p + length us + length vs" and "n = length us"
    and "vs \<noteq> []"
  shows "\<exists>ws. swap_down (p @ us @ vs @ s) i j n = Some (p @ ws @ us @ s) \<and> rotate (length us) ws = vs"
  using assms
proof (induction us arbitrary: vs s i j n rule: rev_induct)
  case (snoc u us)
  obtain vs' v where vs: "vs = vs' @ [v]"
    using snoc.prems(4) by (cases vs rule: rev_cases) auto
  have "iter_swap (p @ (us @ [u]) @ vs @ s) (i - 1) (j - 1) = Some (p @ us @ (v # vs') @ (u # s))"
    using iter_swap_append [of "i - 1" "p @ us" "j - 1" vs' u v s] snoc.prems(1,2) vs by simp
  moreover obtain ws where ws: "swap_down (p @ us @ (v # vs') @ (u # s)) (i - 1) (j - 1) (length us) =
      Some (p @ ws @ us @ (u # s))" "rotate (length us) ws = v # vs'"
    using snoc.IH [of "i - 1" "j - 1" "v # vs'" "length us" "u # s"] snoc.prems vs by auto
  moreover have "rotate (length (us @ [u])) ws = vs"
    using ws(2) vs by simp
  ultimately show ?case
    using snoc.prems(3) by (intro exI [of _ ws]) simp
qed simp

lemma rotate_complete: "r < length xs \<Longrightarrow> rotate (length xs - r) (rotate r xs) = xs"
  by (simp add: rotate_rotate)

lemma rotate_mod_length: "rotate (n mod length xs) xs = rotate n xs"
  by (simp add: rotate_conv_mod [symmetric])

lemma rotate_loop_rotates:
  assumes "i = length p" and "n = length us + length vs" and "k = length us" and "us \<noteq> []" and "vs \<noteq> []"
  shows "rotate_loop is_pod (p @ us @ vs @ s) i n k = Some (p @ vs @ us @ s)"
  using assms
proof (induction n arbitrary: p us vs s i k rule: less_induct)
  case (less n)
  show ?case
  proof (cases "k < n - k")
    case True
    show ?thesis
    proof (cases "is_pod \<and> k = 1")
      case pod: True
      then obtain u where u: "us = [u]"
        using less.prems(3) by (auto simp: length_Suc_conv)
      have "move_n (p @ u # vs @ s) (i + 1) i (n - 1) = Some (p @ vs @ last (u # vs) # s)"
        using move_n_down [of "i + 1" p i "n - 1" vs u s] less.prems(1,2) u by simp
      moreover have "buf_put (p @ vs @ last (u # vs) # s) (i + n - 1) u = Some (p @ vs @ u # s)"
        using buf_put_append [of "i + n - 1" "p @ vs" "last (u # vs)" s u] less.prems(1,2) u by simp
      ultimately show ?thesis
        using True pod u less.prems(1) by (subst rotate_loop.simps) (simp add: buf_get_append)
    next
      case nopod: False
      have swap: "swap_up (p @ us @ vs @ s) i (i + k) (n - k) = Some (p @ vs @ rotate (length vs) us @ s)"
        using swap_up_rotate [of i p "i + k" us "n - k" vs s] less.prems by simp
      define r where "r = n mod k"
      have r: "r = length vs mod length us" "r < k" "0 < k"
        using less.prems by (simp_all add: r_def)
      define ws where "ws = rotate (length vs) us"
      have ws: "ws = rotate r us" "length ws = k"
        using r(1) rotate_mod_length [of "length vs" us] less.prems(3) by (simp_all add: ws_def)
      show ?thesis
      proof (cases "r = 0")
        case True
        then show ?thesis
          using \<open>k < n - k\<close> nopod swap ws r less.prems by (subst rotate_loop.simps) (auto simp: r_def ws_def)
      next
        case False
        let ?us = "take (k - r) ws" and ?vs = "drop (k - r) ws"
        have "rotate_loop is_pod ((p @ vs) @ ?us @ ?vs @ s) (i + (n - k)) k (k - r) =
            Some ((p @ vs) @ ?vs @ ?us @ s)"
          using False r(2,3) ws(2) less.prems \<open>k < n - k\<close>
          by (intro less.IH) auto
        moreover have "?vs @ ?us = us"
        proof -
          have "?vs @ ?us = rotate (k - r) ws"
            using r ws(2) False by (simp add: rotate_drop_take)
          then show ?thesis
            using rotate_complete [of r us] r less.prems(3) ws(1) by simp
        qed
        moreover have "?us @ ?vs @ s = ws @ s" "?vs @ ?us @ s = (?vs @ ?us) @ s"
          by simp_all
        ultimately have "rotate_loop is_pod (p @ vs @ ws @ s) (i + (n - k)) k (k - r) = Some (p @ vs @ us @ s)"
          by (simp only: append_assoc)
        then show ?thesis
          using \<open>k < n - k\<close> nopod swap False r(2) by (subst rotate_loop.simps) (auto simp: r_def ws_def)
      qed
    qed
  next
    case False
    define l where "l = n - k"
    have l: "l = length vs" "0 < l" "n - l = length us" "n = length us + l"
      using less.prems by (simp_all add: l_def)
    show ?thesis
    proof (cases "is_pod \<and> l = 1")
      case pod: True
      then obtain v where v: "vs = [v]"
        using l(1) by (auto simp: length_Suc_conv)
      have "move_backward_n (p @ us @ v # s) (i + n - 1) (i + n) (n - 1) = Some (p @ hd (us @ [v]) # us @ s)"
        using move_backward_n_up [of "i + n - 1" p us "i + n" "n - 1" v s] less.prems(1,2) v by simp
      moreover have "buf_get (p @ us @ v # s) (i + n - 1) = Some v"
        using buf_get_append [of "i + n - 1" "p @ us" v s] less.prems(1,2) v by simp
      ultimately show ?thesis
        using False pod v less.prems(1) l_def
        by (subst rotate_loop.simps) (simp add: buf_put_append Let_def)
    next
      case nopod: False
      obtain ws where swap: "swap_down (p @ us @ vs @ s) (i + n - l) (i + n) (n - l) = Some (p @ ws @ us @ s)"
          "rotate (length us) ws = vs"
        using swap_down_rotate [of "i + n - l" p us "i + n" vs "n - l" s] less.prems l by auto
      have ws: "length ws = l"
        using swap(2) l(1) by (metis length_rotate)
      define r where "r = n mod l"
      have r: "r = length us mod l" "r < l"
        using l by (simp_all add: r_def)
      have turned: "rotate r ws = vs"
        using swap(2) rotate_mod_length [of "length us" ws] r(1) ws by simp
      have "i + n - l - (n - l) = i"
        using l by simp
      then have step: "rotate_loop is_pod (p @ us @ vs @ s) i n k =
          (if r = 0 then Some (p @ ws @ us @ s) else rotate_loop is_pod (p @ ws @ us @ s) i l r)"
        using False nopod swap(1) l(2)
        by (subst rotate_loop.simps) (auto simp: Let_def r_def simp flip: l_def)
      show ?thesis
      proof (cases "r = 0")
        case True
        then show ?thesis
          using step turned by simp
      next
        case nonzero: False
        let ?us = "take r ws" and ?vs = "drop r ws"
        have "rotate_loop is_pod (p @ ?us @ ?vs @ (us @ s)) i l r = Some (p @ ?vs @ ?us @ (us @ s))"
        proof (rule less.IH)
          show "l < n"
            using l(4) less.prems(4) by simp
          show "l = length ?us + length ?vs" "r = length ?us" "?us \<noteq> []" "?vs \<noteq> []"
            using ws r(2) nonzero by auto
        qed (rule less.prems(1))
        moreover have "?vs @ ?us = vs"
          using turned r(2) ws rotate_drop_take [of r ws] by simp
        moreover have "?us @ ?vs @ us @ s = ws @ us @ s" "?vs @ ?us @ us @ s = (?vs @ ?us) @ us @ s"
          by simp_all
        ultimately show ?thesis
          unfolding step using nonzero by (simp only: if_False)
      qed
    qed
  qed
qed

lemma swap_ranges_swaps:
  assumes "f = length p" and "m = length p + length us" and "j = length p + length us + length ws"
    and "length vs = length us"
  shows "swap_ranges (p @ us @ ws @ vs @ s) f m j = Some (p @ vs @ ws @ us @ s, j + length us)"
  using assms
proof (induction us arbitrary: p vs ws f j)
  case Nil
  then show ?case
    by (simp add: swap_ranges.simps)
next
  case (Cons u us)
  obtain v vs' where vs: "vs = v # vs'"
    using Cons.prems(4) by (cases vs) auto
  have "iter_swap (p @ (u # us) @ ws @ vs @ s) f j = Some (p @ v # us @ ws @ u # vs' @ s)"
    using iter_swap_append [of f p j "us @ ws" u v "vs' @ s"] Cons.prems vs by simp
  moreover have "swap_ranges ((p @ [v]) @ us @ (ws @ [u]) @ vs' @ s) (f + 1) m (j + 1) =
      Some ((p @ [v]) @ vs' @ (ws @ [u]) @ us @ s, j + 1 + length us)"
    using Cons.IH [of "f + 1" "p @ [v]" "j + 1" "ws @ [u]" vs'] Cons.prems vs by simp
  ultimately show ?case
    using Cons.prems vs by (subst swap_ranges.simps) simp
qed

lemma rotate_random_rotates:
  assumes "f = length p" and "m = f + length us" and "r = m + length vs"
  shows "rotate_random is_pod (p @ us @ vs @ s) f m r = Some (p @ vs @ us @ s, f + length vs)"
proof -
  consider "us = []" | "us \<noteq> []" "vs = []" | "us \<noteq> []" "vs \<noteq> []" "length vs = length us"
    | "us \<noteq> []" "vs \<noteq> []" "length vs \<noteq> length us"
    by blast
  then show ?thesis
  proof cases
    case 3
    then show ?thesis
      using swap_ranges_swaps [of f p m us m "[]" vs s] assms by (simp add: rotate_random_def Let_def)
  next
    case 4
    then show ?thesis
      using rotate_loop_rotates [of f p "r - f" us vs "m - f" is_pod s] assms
      by (simp add: rotate_random_def Let_def)
  qed (simp_all add: assms rotate_random_def)
qed

section \<open>The other implementations of rotation\<close>

text \<open>
  Between the iterators of the forward implementation lie three parts; the last of them has to come
  first, then the middle, then the first.
\<close>

lemma rotate_rest_rotates:
  assumes "f = length p" and "m = f + length as" and "j = m + length bs" and "r = j + length cs"
    and "as \<noteq> []" and "cs = [] \<Longrightarrow> bs = []"
  shows "rotate_rest (p @ as @ bs @ cs @ s) f m j r = Some (p @ cs @ bs @ as @ s)"
  using assms
proof (induction "length (as @ bs @ cs)" arbitrary: p as bs cs f m j rule: less_induct)
  case less
  show ?case
  proof (cases cs)
    case Nil
    then show ?thesis
      using less.prems by (simp add: rotate_rest.simps)
  next
    case (Cons c cs')
    obtain a as' where as: "as = a # as'"
      using less.prems(5) by (cases as) auto
    let ?bs = "bs @ [a]"
    have swap: "iter_swap (p @ as @ bs @ cs @ s) f j = Some (p @ c # as' @ bs @ a # cs' @ s)"
      using iter_swap_append [of f p j "as' @ bs" a c "cs' @ s"] less.prems as Cons by simp
    have j: "j \<noteq> r"
      using less.prems(4) Cons by simp
    note unfold = rotate_rest.simps [of "p @ as @ bs @ cs @ s" f m j r]
    consider "as' = []" | "as' \<noteq> []" "cs' = []" | "as' \<noteq> []" "cs' \<noteq> []"
      by blast
    then show ?thesis
    proof cases
      case 1
      have "rotate_rest ((p @ [c]) @ ?bs @ [] @ cs' @ s) (f + 1) (j + 1) (j + 1) r =
          Some ((p @ [c]) @ cs' @ [] @ ?bs @ s)"
        using less.prems as Cons 1 by (intro less.hyps) simp_all
      then show ?thesis
        using 1 as Cons swap j less.prems unfold by simp
    next
      case 2
      have "rotate_rest ((p @ [c]) @ as' @ [] @ ?bs @ s) (f + 1) m m r =
          Some ((p @ [c]) @ ?bs @ [] @ as' @ s)"
        using less.prems as Cons 2 by (intro less.hyps) simp_all
      then show ?thesis
        using 2 as Cons swap j less.prems unfold by simp
    next
      case 3
      have "rotate_rest ((p @ [c]) @ as' @ ?bs @ cs' @ s) (f + 1) m (j + 1) r =
          Some ((p @ [c]) @ cs' @ ?bs @ as' @ s)"
        using less.prems as Cons 3 by (intro less.hyps) simp_all
      then show ?thesis
        using 3 as Cons swap j less.prems unfold by simp
    qed
  qed
qed

lemma rotate_pass_parts:
  assumes "f = length p" and "m = f + length as" and "j = m + length bs" and "r = j + length cs"
    and "as \<noteq> []" and "cs \<noteq> []"
  shows "\<exists>as' bs'. rotate_pass (p @ as @ bs @ cs @ s) f m j r =
      Some (p @ cs @ as' @ bs' @ s, f + length cs, f + length cs + length as') \<and>
    bs' @ as' = bs @ as \<and> as' \<noteq> []"
  using assms
proof (induction cs arbitrary: p as bs f m j)
  case (Cons c cs)
  obtain a as' where as: "as = a # as'"
    using Cons.prems(5) by (cases as) auto
  have swap: "iter_swap (p @ as @ bs @ (c # cs) @ s) f j = Some (p @ c # as' @ bs @ a # cs @ s)"
    using iter_swap_append [of f p j "as' @ bs" a c "cs @ s"] Cons.prems as by simp
  define as2 where "as2 = (if as' = [] then bs @ [a] else as')"
  define bs2 where "bs2 = (if as' = [] then [] else bs @ [a])"
  have parts: "as' @ bs @ a # cs @ s = as2 @ bs2 @ cs @ s" "bs2 @ as2 = bs @ as" "as2 \<noteq> []"
    and m: "(if f + 1 = m then j + 1 else m) = f + 1 + length as2"
    and j: "j + 1 = f + 1 + length as2 + length bs2"
    using Cons.prems as by (auto simp: as2_def bs2_def)
  have unfold: "rotate_pass (p @ as @ bs @ (c # cs) @ s) f m j r =
      (if j + 1 \<noteq> r then rotate_pass ((p @ [c]) @ as2 @ bs2 @ cs @ s) (f + 1) (f + 1 + length as2) (j + 1) r
       else Some ((p @ [c]) @ as2 @ bs2 @ cs @ s, f + 1, f + 1 + length as2))"
    unfolding rotate_pass.simps [of "p @ as @ bs @ (c # cs) @ s"] swap option.case Let_def m parts(1) by simp
  show ?case
  proof (cases "cs = []")
    case True
    then show ?thesis
      using unfold parts Cons.prems(4) by (intro exI [of _ as2] exI [of _ bs2]) simp
  next
    case False
    have "\<exists>as' bs'. rotate_pass ((p @ [c]) @ as2 @ bs2 @ cs @ s) (f + 1) (f + 1 + length as2) (j + 1) r =
        Some ((p @ [c]) @ cs @ as' @ bs' @ s, f + 1 + length cs, f + 1 + length cs + length as') \<and>
      bs' @ as' = bs2 @ as2 \<and> as' \<noteq> []"
      using Cons.prems parts(3) False j by (intro Cons.IH) simp_all
    then show ?thesis
      using unfold parts(2) False Cons.prems(4) by auto
  qed
qed simp

lemma rotate_forward_rotates:
  assumes "f = length p" and "m = f + length us" and "r = m + length vs"
  shows "rotate_forward (p @ us @ vs @ s) f m r = Some (p @ vs @ us @ s, f + length vs)"
proof (cases "us = [] \<or> vs = []")
  case True
  then show ?thesis
    using assms by (cases us) (auto simp: rotate_forward_def)
next
  case False
  then obtain as bs where pass: "rotate_pass (p @ us @ vs @ s) f m m r =
      Some (p @ vs @ as @ bs @ s, f + length vs, f + length vs + length as)" "bs @ as = us" "as \<noteq> []"
    using rotate_pass_parts [of f p m us m "[]" r vs s] assms by auto
  have r: "r = f + length vs + length as + length bs"
    using assms arg_cong [OF pass(2), of length] by simp
  have "rotate_rest ((p @ vs) @ as @ [] @ bs @ s) (f + length vs) (f + length vs + length as)
      (f + length vs + length as) r = Some ((p @ vs) @ bs @ [] @ as @ s)"
    using pass(3) r assms(1) by (intro rotate_rest_rotates) simp_all
  moreover have "bs @ as @ s = us @ s"
    using pass(2) by (metis append_assoc)
  ultimately show ?thesis
    using False pass(1) assms(2,3) by (simp add: rotate_forward_def)
qed

text \<open>The bidirectional implementation reverses the parts and then the whole.\<close>

lemma rotate_exchange_reverses:
  assumes "f = length p" and "m = f + length us" and "r = m + length vs"
  shows "do {
      (a, f, r) \<leftarrow> rotate_exchange (p @ us @ vs @ s) f m r;
      if f = m then do { a \<leftarrow> reverse_bidirectional a m r; Some (a, r) }
      else do { a \<leftarrow> reverse_bidirectional a f m; Some (a, f) } } =
    Some (p @ rev vs @ rev us @ s, f + length vs)"
  using assms
proof (induction us arbitrary: p vs s f r)
  case Nil
  then show ?case
    using reverse_bidirectional_rev [of f p r vs s] by (subst rotate_exchange.simps) simp
next
  case (Cons u us)
  show ?case
  proof (cases vs rule: rev_cases)
    case Nil
    then show ?thesis
      using reverse_bidirectional_rev [of f p m "u # us" s] Cons.prems
      by (subst rotate_exchange.simps) simp
  next
    case (snoc vs' v)
    have "iter_swap (p @ (u # us) @ vs @ s) f (r - 1) = Some (p @ v # us @ vs' @ u # s)"
      using iter_swap_append [of f p "r - 1" "us @ vs'" u v s] Cons.prems snoc by simp
    moreover obtain l where "r = Suc l"
      using Cons.prems(3) snoc by (cases r) auto
    ultimately show ?thesis
      using Cons.IH [of "f + 1" "p @ [v]" l vs' "u # s"] Cons.prems snoc
      by (subst rotate_exchange.simps) simp
  qed
qed

lemma rotate_bidirectional_rotates:
  assumes "f = length p" and "m = f + length us" and "r = m + length vs"
  shows "rotate_bidirectional (p @ us @ vs @ s) f m r = Some (p @ vs @ us @ s, f + length vs)"
proof (cases "us = [] \<or> vs = []")
  case True
  then show ?thesis
    using assms by (cases us) (auto simp: rotate_bidirectional_def)
next
  case False
  then have "f \<noteq> m" "r \<noteq> m"
    using assms by simp_all
  moreover have "reverse_bidirectional (p @ us @ vs @ s) f m = Some (p @ rev us @ vs @ s)"
    using reverse_bidirectional_rev [of f p m us "vs @ s"] assms by simp
  moreover have "reverse_bidirectional (p @ rev us @ vs @ s) m r = Some (p @ rev us @ rev vs @ s)"
    using reverse_bidirectional_rev [of m "p @ rev us" r vs s] assms by simp
  moreover note rotate_exchange_reverses [of f p m "rev us" r "rev vs" s, unfolded length_rev rev_rev_ident, OF assms]
  ultimately show ?thesis
    by (simp add: rotate_bidirectional_def)
qed

section \<open>Properties\<close>

lemma reverse_copy_rev:
  assumes "f = length p" and "r = f + length xs"
  shows "reverse_copy (p @ xs @ s) f r = Some (rev xs)"
  using assms
proof (induction xs arbitrary: r s rule: rev_induct)
  case (snoc x xs)
  then show ?case
    using buf_get_append [of "f + length xs" "p @ xs" x s] snoc.IH [of "f + length xs" "x # s"]
    by (subst reverse_copy.simps) simp
qed (simp add: reverse_copy.simps)

lemma split_slices:
  assumes "f \<le> m" and "m \<le> r" and "r \<le> length a"
  shows "a = take f a @ slice a f m @ slice a m r @ drop r a"
proof -
  have "drop m a = slice a m r @ drop r a"
    using assms append_take_drop_id [of "r - m" "drop m a"] by (simp add: slice_def)
  then show ?thesis
    using split_slice [of f m a] assms by simp
qed

text \<open>
  In place or into another range, by positions or by stepping iterators, the range
  comes out reversed, the rest of the array stays, and every access is in bounds.
\<close>

theorem reverse_range:
  assumes "first \<le> stop" and "stop \<le> length a"
  shows "reverse a first stop = Some (take first a @ rev (slice a first stop) @ drop stop a) \<and>
    reverse_bidirectional a first stop = reverse a first stop \<and>
    reverse_copy a first stop = Some (rev (slice a first stop))"
proof -
  define p xs s where "p = take first a" and "xs = slice a first stop" and "s = drop stop a"
  have a: "a = p @ xs @ s" and lens: "first = length p" "stop = length p + length xs" "stop = first + length xs"
    using split_slice [OF assms] assms by (simp_all add: p_def xs_def s_def)
  show ?thesis
    using reverse_impl_rev [OF lens(1,2), of s] reverse_bidirectional_rev [OF lens(1,2), of s]
      reverse_copy_rev [OF lens(1,3), of s]
    unfolding reverse_def a [symmetric] p_def [symmetric] xs_def [symmetric] s_def [symmetric] by simp
qed

theorem reverse_range_witness:
  "reverse [1, 2, 3, 4, 5 :: nat] 1 4 = Some [1, 4, 3, 2, 5] \<and>
   reverse_bidirectional [1, 2, 3, 4, 5 :: nat] 1 4 = Some [1, 4, 3, 2, 5] \<and>
   reverse_copy [1, 2, 3, 4, 5 :: nat] 1 4 = Some [4, 3, 2]"
  using reverse_range [of 1 4 "[1, 2, 3, 4, 5 :: nat]"] by (simp add: slice_def)

text \<open>
  C22: the three implementations of \<open>std::rotate\<close>, one per iterator category,
  exchange the two parts of the range, keep the order inside each, leave the rest of the array alone,
  and return the new position of the element that was first. The random access one does so with and
  without its special case for a shift by one, and no access is out of bounds.
\<close>

theorem rotate_implementations_agree:
  assumes "first \<le> middle" and "middle \<le> stop" and "stop \<le> length a"
  shows "rotate_range is_pod a first middle stop =
      Some (take first a @ slice a middle stop @ slice a first middle @ drop stop a, first + (stop - middle)) \<and>
    rotate_bidirectional a first middle stop = rotate_range is_pod a first middle stop \<and>
    rotate_forward a first middle stop = rotate_range is_pod a first middle stop"
proof -
  define p us vs s where "p = take first a" and "us = slice a first middle" and "vs = slice a middle stop"
    and "s = drop stop a"
  have a: "a = p @ us @ vs @ s"
    and lens: "first = length p" "middle = first + length us" "stop = middle + length vs"
    using split_slices [OF assms] assms by (simp_all add: p_def us_def vs_def s_def)
  show ?thesis
    using rotate_random_rotates [OF lens, of is_pod s] rotate_bidirectional_rotates [OF lens, of s]
      rotate_forward_rotates [OF lens, of s] lens(3)
    unfolding rotate_range_def a [symmetric] p_def [symmetric] us_def [symmetric] vs_def [symmetric]
      s_def [symmetric]
    by simp
qed

theorem rotate_implementations_agree_witness:
  "rotate_range True [0, 1, 2, 3, 4, 5, 6 :: nat] 1 3 6 = Some ([0, 3, 4, 5, 1, 2, 6], 4) \<and>
   rotate_bidirectional [0, 1, 2, 3, 4, 5, 6 :: nat] 1 3 6 = Some ([0, 3, 4, 5, 1, 2, 6], 4) \<and>
   rotate_forward [0, 1, 2, 3, 4, 5, 6 :: nat] 1 3 6 = Some ([0, 3, 4, 5, 1, 2, 6], 4)"
  using rotate_implementations_agree [of 1 3 6 "[0, 1, 2, 3, 4, 5, 6 :: nat]" True] by (simp add: slice_def)

end
