(* ===== verification/Stl_Set.thy ===== *)
theory Stl_Set
  imports Stl_Base
begin

text \<open>
  Merging and the set operations on sorted ranges of \<open>stl_algo.h\<close>. The input ranges are read through
  input iterators and the result written through an output iterator, so that a range is the list of
  the elements that are still to be read and the result the list of the elements written. The
  iterator a function returns is the end of what it wrote, its argument advanced by the length of
  that list, and is left out. The lemmas follow the groups of equivalent elements: which elements of a group reach the result, and
  in which order.
\<close>

section \<open>Definitions\<close>

fun merge_impl :: "('a \<Rightarrow> 'a \<Rightarrow> bool) \<Rightarrow> 'a list \<Rightarrow> 'a list \<Rightarrow> 'a list" where
  "merge_impl cmp (x # xs) (y # ys) =
     (if cmp y x then y # merge_impl cmp (x # xs) ys else x # merge_impl cmp xs (y # ys))"
| "merge_impl cmp xs ys = xs @ ys"

definition merge :: "('a \<Rightarrow> 'a \<Rightarrow> bool) \<Rightarrow> 'a list \<Rightarrow> 'a list \<Rightarrow> 'a list" where
  "merge cmp xs ys = merge_impl cmp xs ys"

definition merge_less :: "'a :: linorder list \<Rightarrow> 'a list \<Rightarrow> 'a list" where
  "merge_less xs ys = merge_impl iter_less_iter xs ys"

fun includes_impl :: "('a \<Rightarrow> 'a \<Rightarrow> bool) \<Rightarrow> 'a list \<Rightarrow> 'a list \<Rightarrow> bool" where
  "includes_impl cmp (x # xs) (y # ys) =
     (if cmp y x then False
      else if cmp x y then includes_impl cmp xs (y # ys)
      else includes_impl cmp xs ys)"
| "includes_impl cmp xs ys \<longleftrightarrow> ys = []"

definition includes_range :: "('a \<Rightarrow> 'a \<Rightarrow> bool) \<Rightarrow> 'a list \<Rightarrow> 'a list \<Rightarrow> bool" where
  "includes_range cmp xs ys \<longleftrightarrow> includes_impl cmp xs ys"

definition includes_range_less :: "'a :: linorder list \<Rightarrow> 'a list \<Rightarrow> bool" where
  "includes_range_less xs ys \<longleftrightarrow> includes_impl iter_less_iter xs ys"

fun set_union_impl :: "('a \<Rightarrow> 'a \<Rightarrow> bool) \<Rightarrow> 'a list \<Rightarrow> 'a list \<Rightarrow> 'a list" where
  "set_union_impl cmp (x # xs) (y # ys) =
     (if cmp x y then x # set_union_impl cmp xs (y # ys)
      else if cmp y x then y # set_union_impl cmp (x # xs) ys
      else x # set_union_impl cmp xs ys)"
| "set_union_impl cmp xs ys = xs @ ys"

definition set_union :: "('a \<Rightarrow> 'a \<Rightarrow> bool) \<Rightarrow> 'a list \<Rightarrow> 'a list \<Rightarrow> 'a list" where
  "set_union cmp xs ys = set_union_impl cmp xs ys"

definition set_union_less :: "'a :: linorder list \<Rightarrow> 'a list \<Rightarrow> 'a list" where
  "set_union_less xs ys = set_union_impl iter_less_iter xs ys"

fun set_intersection_impl :: "('a \<Rightarrow> 'a \<Rightarrow> bool) \<Rightarrow> 'a list \<Rightarrow> 'a list \<Rightarrow> 'a list" where
  "set_intersection_impl cmp (x # xs) (y # ys) =
     (if cmp x y then set_intersection_impl cmp xs (y # ys)
      else if cmp y x then set_intersection_impl cmp (x # xs) ys
      else x # set_intersection_impl cmp xs ys)"
| "set_intersection_impl cmp xs ys = []"

definition set_intersection :: "('a \<Rightarrow> 'a \<Rightarrow> bool) \<Rightarrow> 'a list \<Rightarrow> 'a list \<Rightarrow> 'a list" where
  "set_intersection cmp xs ys = set_intersection_impl cmp xs ys"

definition set_intersection_less :: "'a :: linorder list \<Rightarrow> 'a list \<Rightarrow> 'a list" where
  "set_intersection_less xs ys = set_intersection_impl iter_less_iter xs ys"

fun set_difference_impl :: "('a \<Rightarrow> 'a \<Rightarrow> bool) \<Rightarrow> 'a list \<Rightarrow> 'a list \<Rightarrow> 'a list" where
  "set_difference_impl cmp (x # xs) (y # ys) =
     (if cmp x y then x # set_difference_impl cmp xs (y # ys)
      else if cmp y x then set_difference_impl cmp (x # xs) ys
      else set_difference_impl cmp xs ys)"
| "set_difference_impl cmp xs ys = xs"

definition set_difference :: "('a \<Rightarrow> 'a \<Rightarrow> bool) \<Rightarrow> 'a list \<Rightarrow> 'a list \<Rightarrow> 'a list" where
  "set_difference cmp xs ys = set_difference_impl cmp xs ys"

definition set_difference_less :: "'a :: linorder list \<Rightarrow> 'a list \<Rightarrow> 'a list" where
  "set_difference_less xs ys = set_difference_impl iter_less_iter xs ys"

fun set_symmetric_difference_impl :: "('a \<Rightarrow> 'a \<Rightarrow> bool) \<Rightarrow> 'a list \<Rightarrow> 'a list \<Rightarrow> 'a list" where
  "set_symmetric_difference_impl cmp (x # xs) (y # ys) =
     (if cmp x y then x # set_symmetric_difference_impl cmp xs (y # ys)
      else if cmp y x then y # set_symmetric_difference_impl cmp (x # xs) ys
      else set_symmetric_difference_impl cmp xs ys)"
| "set_symmetric_difference_impl cmp xs ys = xs @ ys"

definition set_symmetric_difference :: "('a \<Rightarrow> 'a \<Rightarrow> bool) \<Rightarrow> 'a list \<Rightarrow> 'a list \<Rightarrow> 'a list" where
  "set_symmetric_difference cmp xs ys = set_symmetric_difference_impl cmp xs ys"

definition set_symmetric_difference_less :: "'a :: linorder list \<Rightarrow> 'a list \<Rightarrow> 'a list" where
  "set_symmetric_difference_less xs ys = set_symmetric_difference_impl iter_less_iter xs ys"

section \<open>Groups of equivalent elements\<close>

definition equivalent :: "('a \<Rightarrow> 'a \<Rightarrow> bool) \<Rightarrow> 'a \<Rightarrow> 'a \<Rightarrow> bool" where
  "equivalent cmp x y \<longleftrightarrow> \<not> cmp x y \<and> \<not> cmp y x"

abbreviation group :: "('a \<Rightarrow> 'a \<Rightarrow> bool) \<Rightarrow> 'a \<Rightarrow> 'a list \<Rightarrow> 'a list" where
  "group cmp v xs \<equiv> filter (equivalent cmp v) xs"

abbreviation sorted_seq :: "('a \<Rightarrow> 'a \<Rightarrow> bool) \<Rightarrow> 'a list \<Rightarrow> bool" where
  "sorted_seq cmp xs \<equiv> sorted_wrt (\<lambda>x y. \<not> cmp y x) xs"

text \<open>
  The four set operations walk the ranges in the same way and differ in what they write: the
  smaller element of the first range, the smaller element of the second, an element in both.
\<close>

fun set_walk :: "('a \<Rightarrow> 'a \<Rightarrow> bool) \<Rightarrow> bool \<Rightarrow> bool \<Rightarrow> bool \<Rightarrow> 'a list \<Rightarrow> 'a list \<Rightarrow> 'a list" where
  "set_walk cmp fst1 fst2 both (x # xs) (y # ys) =
     (if cmp x y then (if fst1 then [x] else []) @ set_walk cmp fst1 fst2 both xs (y # ys)
      else if cmp y x then (if fst2 then [y] else []) @ set_walk cmp fst1 fst2 both (x # xs) ys
      else (if both then [x] else []) @ set_walk cmp fst1 fst2 both xs ys)"
| "set_walk cmp fst1 fst2 both xs ys = (if fst1 then xs else []) @ (if fst2 then ys else [])"

lemma set_union_walk: "set_union_impl cmp xs ys = set_walk cmp True True True xs ys"
  by (induction cmp xs ys rule: set_union_impl.induct) auto

lemma set_intersection_walk: "set_intersection_impl cmp xs ys = set_walk cmp False False True xs ys"
  by (induction cmp xs ys rule: set_intersection_impl.induct) auto

lemma set_difference_walk: "set_difference_impl cmp xs ys = set_walk cmp True False False xs ys"
  by (induction cmp xs ys rule: set_difference_impl.induct) auto

lemma set_symmetric_difference_walk:
  "set_symmetric_difference_impl cmp xs ys = set_walk cmp True True False xs ys"
  by (induction cmp xs ys rule: set_symmetric_difference_impl.induct) auto

lemmas set_walks = set_union_walk set_intersection_walk set_difference_walk set_symmetric_difference_walk

lemma set_walk_subset: "set (set_walk cmp f g e xs ys) \<subseteq> set xs \<union> set ys"
  by (induction cmp f g e xs ys rule: set_walk.induct) auto

lemma set_merge: "set (merge_impl cmp xs ys) = set xs \<union> set ys"
  by (induction cmp xs ys rule: merge_impl.induct) auto

context strict_weak_ordering
begin

text \<open>A smaller element has no equivalent in a sorted sequence.\<close>

lemma group_absent:
  assumes "sorted_seq cmp (y # ys)" and "cmp x y" and "equivalent cmp v x"
  shows "group cmp v (y # ys) = []"
proof -
  have "\<not> equivalent cmp v z" if "z \<in> set (y # ys)" for z
  proof -
    have "\<not> cmp z y"
      using that assms(1) by auto
    then have "cmp x z"
      using cmp_split [OF assms(2), of z] by blast
    then show ?thesis
      using cmp_split [of x z v] assms(3) by (auto simp: equivalent_def)
  qed
  then show ?thesis
    by (simp add: filter_False)
qed

lemma equivalent_cong:
  assumes "\<not> cmp x y" and "\<not> cmp y x"
  shows "equivalent cmp v x \<longleftrightarrow> equivalent cmp v y"
  using assms cmp_le_trans unfolding equivalent_def by blast

lemma group_walk:
  assumes "sorted_seq cmp xs" and "sorted_seq cmp ys"
  shows "group cmp v (set_walk cmp f g e xs ys) =
    (if e then take (length (group cmp v ys)) (group cmp v xs) else []) @
    (if f then drop (length (group cmp v ys)) (group cmp v xs) else []) @
    (if g then drop (length (group cmp v xs)) (group cmp v ys) else [])"
  using assms
proof (induction "length xs + length ys" arbitrary: xs ys rule: less_induct)
  case less
  show ?case
  proof (cases "xs = [] \<or> ys = []")
    case False
    then obtain x xs' y ys' where eq: "xs = x # xs'" "ys = y # ys'"
      by (auto simp: neq_Nil_conv)
    have sorted: "sorted_seq cmp xs'" "sorted_seq cmp ys'"
      using less.prems eq by simp_all
    consider "cmp x y" | "\<not> cmp x y" "cmp y x" | "\<not> cmp x y" "\<not> cmp y x"
      by blast
    then show ?thesis
    proof cases
      case 1
      then show ?thesis
        using less.hyps [of xs' ys] group_absent [of y ys' x v] less.prems sorted eq
        by (cases "equivalent cmp v x") auto
    next
      case 2
      then show ?thesis
        using less.hyps [of xs ys'] group_absent [of x xs' y v] less.prems sorted eq
        by (cases "equivalent cmp v y") auto
    next
      case 3
      then show ?thesis
        using less.hyps [of xs' ys'] equivalent_cong [OF 3, of v] sorted eq by auto
    qed
  qed (cases xs; cases ys; auto)
qed

lemma walk_sorted:
  assumes "sorted_seq cmp xs" and "sorted_seq cmp ys"
  shows "sorted_seq cmp (set_walk cmp f g e xs ys)"
  using assms
proof (induction "length xs + length ys" arbitrary: xs ys rule: less_induct)
  case less
  show ?case
  proof (cases "xs = [] \<or> ys = []")
    case False
    then obtain x xs' y ys' where eq: "xs = x # xs'" "ys = y # ys'"
      by (auto simp: neq_Nil_conv)
    have sorted: "sorted_seq cmp xs'" "sorted_seq cmp ys'"
      using less.prems eq by simp_all
    have upper: "\<not> cmp z x" if "z \<in> set xs'" for z
      using less.prems(1) eq that by simp
    have upper': "\<not> cmp z y" if "z \<in> set ys'" for z
      using less.prems(2) eq that by simp
    have below: "\<not> cmp z x" if "z \<in> set xs' \<union> set ys'" "\<not> cmp y x" for z
      using that upper upper' cmp_le_trans by blast
    have below': "\<not> cmp z y" if "z \<in> set xs' \<union> set ys'" "\<not> cmp x y" for z
      using that upper upper' cmp_le_trans by blast
    have ih: "sorted_seq cmp (set_walk cmp f g e xs' ys)" "sorted_seq cmp (set_walk cmp f g e xs ys')"
        "sorted_seq cmp (set_walk cmp f g e xs' ys')"
      using less.hyps less.prems sorted eq by simp_all
    note sub = set_walk_subset [of cmp f g e xs' ys] set_walk_subset [of cmp f g e xs ys']
      set_walk_subset [of cmp f g e xs' ys']
    consider "cmp x y" | "\<not> cmp x y" "cmp y x" | "\<not> cmp x y" "\<not> cmp y x"
      by blast
    then show ?thesis
    proof cases
      case 1
      then have "\<not> cmp z x" if "z \<in> set (set_walk cmp f g e xs' ys)" for z
        using that sub(1) below cmp_asym eq by auto
      then show ?thesis
        using 1 ih(1) eq by (cases f) simp_all
    next
      case 2
      then have "\<not> cmp z y" if "z \<in> set (set_walk cmp f g e xs ys')" for z
        using that sub(2) below' cmp_asym eq by auto
      then show ?thesis
        using 2 ih(2) eq by (cases g) simp_all
    next
      case 3
      then have "\<not> cmp z x" if "z \<in> set (set_walk cmp f g e xs' ys')" for z
        using that sub(3) below by auto
      then show ?thesis
        using 3 ih(3) eq by (cases e) simp_all
    qed
  qed (use less.prems in \<open>cases xs; cases ys; auto\<close>)
qed

lemma group_merge:
  assumes "sorted_seq cmp xs" and "sorted_seq cmp ys"
  shows "group cmp v (merge_impl cmp xs ys) = group cmp v xs @ group cmp v ys"
  using assms
proof (induction "length xs + length ys" arbitrary: xs ys rule: less_induct)
  case less
  show ?case
  proof (cases "xs = [] \<or> ys = []")
    case False
    then obtain x xs' y ys' where eq: "xs = x # xs'" "ys = y # ys'"
      by (auto simp: neq_Nil_conv)
    show ?thesis
    proof (cases "cmp y x")
      case True
      then show ?thesis
        using less.hyps [of xs ys'] group_absent [of x xs' y v] less.prems eq
        by (cases "equivalent cmp v y") auto
    next
      case False
      then show ?thesis
        using less.hyps [of xs' ys] less.prems eq by auto
    qed
  qed (cases xs; cases ys; auto)
qed

lemma merge_sorted:
  assumes "sorted_seq cmp xs" and "sorted_seq cmp ys"
  shows "sorted_seq cmp (merge_impl cmp xs ys)"
  using assms
proof (induction "length xs + length ys" arbitrary: xs ys rule: less_induct)
  case less
  show ?case
  proof (cases "xs = [] \<or> ys = []")
    case False
    then obtain x xs' y ys' where eq: "xs = x # xs'" "ys = y # ys'"
      by (auto simp: neq_Nil_conv)
    have upper: "z \<in> set xs \<Longrightarrow> \<not> cmp z x" "z \<in> set ys \<Longrightarrow> \<not> cmp z y"
        "z \<in> set xs' \<Longrightarrow> \<not> cmp z x" "z \<in> set ys' \<Longrightarrow> \<not> cmp z y" for z
      using less.prems eq by auto
    have ih: "sorted_seq cmp (merge_impl cmp xs ys')" "sorted_seq cmp (merge_impl cmp xs' ys)"
      using less.hyps less.prems eq by simp_all
    show ?thesis
    proof (cases "cmp y x")
      case True
      then have "\<not> cmp z y" if "z \<in> set xs \<union> set ys'" for z
        using that upper [of z] cmp_asym [of y x] cmp_le_trans [of x y z] by auto
      then show ?thesis
        using True ih(1) eq by (simp add: set_merge)
    next
      case False
      then have "\<not> cmp z x" if "z \<in> set xs' \<union> set ys" for z
        using that upper [of z] cmp_le_trans [of y x z] by auto
      then show ?thesis
        using False ih(2) eq by (simp add: set_merge)
    qed
  qed (use less.prems in \<open>cases xs; cases ys; auto\<close>)
qed

text \<open>Sorted sequences with the same groups of equivalent elements are equal.\<close>

lemma sorted_groups_unique:
  assumes "sorted_seq cmp xs" and "sorted_seq cmp ys" and "\<And>v. group cmp v xs = group cmp v ys"
  shows "xs = ys"
  using assms
proof (induction xs arbitrary: ys)
  case Nil
  show ?case
    using Nil.prems(3) [of "hd ys"] by (cases ys) (auto simp: equivalent_def)
next
  case (Cons x xs)
  obtain y ys' where eq: "ys = y # ys'"
    using Cons.prems(3) [of x] by (cases ys) (auto simp: equivalent_def)
  have self: "equivalent cmp z z" for z
    by (simp add: equivalent_def)
  have "\<not> cmp x y"
  proof
    assume "cmp x y"
    then have "group cmp x ys = []"
      using group_absent [of y ys' x x] Cons.prems(2) eq self by simp
    then show False
      using Cons.prems(3) [of x] self by simp
  qed
  moreover have "\<not> cmp y x"
  proof
    assume "cmp y x"
    then have "group cmp y (x # xs) = []"
      using group_absent [of x xs y y] Cons.prems(1) self by simp
    then show False
      using Cons.prems(3) [of y] eq self by simp
  qed
  ultimately have same: "equivalent cmp v x \<longleftrightarrow> equivalent cmp v y" for v
    by (rule equivalent_cong)
  have "x = y"
    using Cons.prems(3) [of x] same [of x] eq by (simp add: equivalent_def)
  moreover have "group cmp v xs = group cmp v ys'" for v
    using Cons.prems(3) [of v] same [of v] eq by (cases "equivalent cmp v x") simp_all
  ultimately show ?case
    using Cons.IH [of ys'] Cons.prems(1,2) eq by simp
qed

lemma includes_groups:
  assumes "sorted_seq cmp xs" and "sorted_seq cmp ys"
  shows "includes_impl cmp xs ys \<longleftrightarrow> (\<forall>v. length (group cmp v ys) \<le> length (group cmp v xs))"
  using assms
proof (induction "length xs + length ys" arbitrary: xs ys rule: less_induct)
  case less
  have self: "equivalent cmp z z" for z
    by (simp add: equivalent_def)
  show ?case
  proof (cases "xs = [] \<or> ys = []")
    case False
    then obtain x xs' y ys' where eq: "xs = x # xs'" "ys = y # ys'"
      by (auto simp: neq_Nil_conv)
    consider "cmp y x" | "\<not> cmp y x" "cmp x y" | "\<not> cmp x y" "\<not> cmp y x"
      by blast
    then show ?thesis
    proof cases
      case 1
      then have "group cmp y xs = []" "group cmp y ys \<noteq> []"
        using group_absent [of x xs' y y] less.prems(1) eq self by simp_all
      then have "\<not> length (group cmp y ys) \<le> length (group cmp y xs)"
        by simp
      moreover have "\<not> includes_impl cmp xs ys"
        using 1 eq by simp
      ultimately show ?thesis
        by blast
    next
      case 2
      have "length (group cmp v ys) \<le> length (group cmp v xs) \<longleftrightarrow>
          length (group cmp v ys) \<le> length (group cmp v xs')" for v
        using group_absent [of y ys' x v] 2 less.prems(2) eq by (cases "equivalent cmp v x") simp_all
      then show ?thesis
        using less.hyps [of xs' ys] less.prems 2 eq by simp
    next
      case 3
      have "length (group cmp v ys) \<le> length (group cmp v xs) \<longleftrightarrow>
          length (group cmp v ys') \<le> length (group cmp v xs')" for v
        using equivalent_cong [OF 3, of v] eq by simp
      then show ?thesis
        using less.hyps [of xs' ys'] less.prems 3 eq by simp
    qed
  next
    case True
    then show ?thesis
      using self by (cases xs; cases ys) (auto intro!: exI [of _ "hd ys"])
  qed
qed

end

section \<open>Properties\<close>

text \<open>
  C16. \<open>std::merge\<close> of two sorted ranges is sorted and stable: of every group of
  equivalent elements, those of the first range come first, and both keep their order.
\<close>

theorem merge_stable:
  assumes "strict_weak_ordering cmp" and "sorted_seq cmp xs" and "sorted_seq cmp ys"
  shows "sorted_seq cmp (merge cmp xs ys) \<and>
    (\<forall>v. group cmp v (merge cmp xs ys) = group cmp v xs @ group cmp v ys)"
  using strict_weak_ordering.merge_sorted [OF assms] strict_weak_ordering.group_merge [OF assms]
  by (simp add: merge_def)

theorem merge_stable_witness:
  "sorted_seq iter_less_iter (merge iter_less_iter [1, 3 :: int] [2, 3]) \<and>
    (\<forall>v. group iter_less_iter v (merge iter_less_iter [1, 3 :: int] [2, 3]) =
      group iter_less_iter v [1, 3] @ group iter_less_iter v [2, 3])"
  by (rule merge_stable [OF less.strict_weak_ordering_axioms]) (simp_all add: iter_less_iter_def)

text \<open>
  C6. The set operations on sorted ranges are sorted and act on every group
  of equivalent elements as the C++ standard says, for \<open>m\<close> elements in the first and \<open>n\<close> in the second
  range: the union has the \<open>m\<close> of the first and the last of the second beyond \<open>m\<close>, the
  intersection the first \<open>n\<close> of the first, the difference the last of the first beyond \<open>n\<close>, the
  symmetric difference the surplus of either; \<open>std::includes\<close> decides whether \<open>n\<close> is at most \<open>m\<close> for
  every group.
\<close>

theorem set_operations_groups:
  assumes "strict_weak_ordering cmp" and "sorted_seq cmp xs" and "sorted_seq cmp ys"
  shows "sorted_seq cmp (set_union cmp xs ys) \<and> sorted_seq cmp (set_intersection cmp xs ys) \<and>
    sorted_seq cmp (set_difference cmp xs ys) \<and> sorted_seq cmp (set_symmetric_difference cmp xs ys) \<and>
    (\<forall>v. group cmp v (set_union cmp xs ys) =
        group cmp v xs @ drop (length (group cmp v xs)) (group cmp v ys) \<and>
      group cmp v (set_intersection cmp xs ys) = take (length (group cmp v ys)) (group cmp v xs) \<and>
      group cmp v (set_difference cmp xs ys) = drop (length (group cmp v ys)) (group cmp v xs) \<and>
      group cmp v (set_symmetric_difference cmp xs ys) =
        drop (length (group cmp v ys)) (group cmp v xs) @ drop (length (group cmp v xs)) (group cmp v ys)) \<and>
    (includes_range cmp xs ys \<longleftrightarrow> (\<forall>v. length (group cmp v ys) \<le> length (group cmp v xs)))"
  using strict_weak_ordering.group_walk [OF assms] strict_weak_ordering.walk_sorted [OF assms]
    strict_weak_ordering.includes_groups [OF assms]
  by (simp add: set_union_def set_intersection_def set_difference_def set_symmetric_difference_def
      includes_range_def set_walks)

theorem set_operations_groups_witness:
  "sorted_seq iter_less_iter (set_union iter_less_iter [1, 3 :: int] [2, 3]) \<and>
    group iter_less_iter 3 (set_union iter_less_iter [1, 3 :: int] [2, 3]) =
      group iter_less_iter 3 [1, 3] @ drop (length (group iter_less_iter 3 [1, 3 :: int])) (group iter_less_iter 3 [2, 3])"
proof -
  have "sorted_seq iter_less_iter [1, 3 :: int]" "sorted_seq iter_less_iter [2, 3 :: int]"
    by (simp_all add: iter_less_iter_def)
  from set_operations_groups [OF less.strict_weak_ordering_axioms this] show ?thesis
    by blast
qed

text \<open>
  C40. On totally ordered values the overloads without a comparison
  implement the operations on multisets: union with the greater multiplicity, intersection with
  the smaller, difference, symmetric difference, sum, and inclusion.
\<close>

theorem set_operations_multisets:
  assumes "sorted xs" and "sorted ys"
  shows "mset (set_union_less xs ys) = mset xs \<union># mset ys \<and>
    mset (set_intersection_less xs ys) = mset xs \<inter># mset ys \<and>
    mset (set_difference_less xs ys) = mset xs - mset ys \<and>
    mset (set_symmetric_difference_less xs ys) = (mset xs - mset ys) + (mset ys - mset xs) \<and>
    mset (merge_less xs ys) = mset xs + mset ys \<and>
    (includes_range_less xs ys \<longleftrightarrow> mset ys \<subseteq># mset xs)"
proof -
  let ?c = "iter_less_iter :: 'a \<Rightarrow> 'a \<Rightarrow> bool"
  have sorted: "sorted_seq ?c xs" "sorted_seq ?c ys"
    using assms by (simp_all add: iter_less_iter_def not_less)
  have "equivalent ?c v = (=) v" for v :: 'a
    by (auto simp: equivalent_def iter_less_iter_def fun_eq_iff)
  then have count: "count (mset zs) v = length (group ?c v zs)" for zs v
    by (induction zs) auto
  note facts = less.group_walk [OF sorted] less.group_merge [OF sorted] less.includes_groups [OF sorted]
    set_walks count
  show ?thesis
    unfolding set_union_less_def set_intersection_less_def set_difference_less_def
      set_symmetric_difference_less_def merge_less_def includes_range_less_def
    by (intro conjI multiset_eqI) (simp_all add: facts subseteq_mset_def)
qed

theorem set_operations_multisets_witness:
  "mset (set_union_less [1, 3 :: int] [3, 3]) = mset [1, 3] \<union># mset [3, 3]"
  using set_operations_multisets [of "[1, 3 :: int]" "[3, 3]"] by simp

end
