(* ===== verification/Stl_Stable.thy ===== *)
theory Stl_Stable
  imports Stl_Rotate Stl_Search Stl_Set
begin

text \<open>
  Stable sorting and merging in place of \<open>stl_algo.h\<close>, with the temporary buffer of \<open>stl_tempbuf.h\<close>:
  the adaptive implementations, which use a buffer of whatever size was available, and those that work
  without one. The buffer is a second array; operations that write to both return both.
\<close>

section \<open>Definitions\<close>

subsection \<open>Temporary buffers\<close>

text \<open>
  The number of elements of the buffer, 0 for none. \<open>alloc n\<close> says whether \<open>operator new\<close> has room for
  \<open>n\<close> elements, \<open>max_len\<close> is the largest number whose size in bytes is a \<open>ptrdiff_t\<close>. The elements of the
  buffer have values that are not defined; \<open>junk\<close> stands for them.
\<close>

fun temporary_buffer_loop :: "(nat \<Rightarrow> bool) \<Rightarrow> nat \<Rightarrow> nat" where
  "temporary_buffer_loop alloc len =
     (if 0 < len then if alloc len then len else temporary_buffer_loop alloc (len div 2) else 0)"

declare temporary_buffer_loop.simps [simp del]

definition get_temporary_buffer :: "(nat \<Rightarrow> bool) \<Rightarrow> nat \<Rightarrow> nat \<Rightarrow> nat" where
  "get_temporary_buffer alloc max_len len = temporary_buffer_loop alloc (if len > max_len then max_len else len)"

definition Temporary_buffer :: "(nat \<Rightarrow> bool) \<Rightarrow> nat \<Rightarrow> (nat \<Rightarrow> 'a) \<Rightarrow> nat \<Rightarrow> nat \<Rightarrow> 'a list" where
  "Temporary_buffer alloc max_len junk first stop =
     map junk [0..<get_temporary_buffer alloc max_len (stop - first)]"

subsection \<open>Merging with a buffer\<close>

text \<open>\<open>move_backward\<close> from one array to another.\<close>

fun move_backward_across :: "'a list \<Rightarrow> nat \<Rightarrow> 'a list \<Rightarrow> nat \<Rightarrow> nat \<Rightarrow> 'a list option" where
  "move_backward_across b stop a result 0 = Some a"
| "move_backward_across b stop a result (Suc n) = do {
     x \<leftarrow> buf_get b (stop - 1);
     a \<leftarrow> buf_put a (result - 1) x;
     move_backward_across b (stop - 1) a (result - 1) n }"

text \<open>The first range is in the buffer \<open>b\<close>, the second and the result in \<open>a\<close>.\<close>

function move_merge_adaptive ::
    "('a \<Rightarrow> 'a \<Rightarrow> bool) \<Rightarrow> 'a list \<Rightarrow> nat \<Rightarrow> nat \<Rightarrow> 'a list \<Rightarrow> nat \<Rightarrow> nat \<Rightarrow> nat \<Rightarrow> 'a list option" where
  "move_merge_adaptive cmp b first1 last1 a first2 last2 result =
     (if first1 < last1 \<and> first2 < last2 then do {
        y \<leftarrow> buf_get a first2;
        x \<leftarrow> buf_get b first1;
        if cmp y x then do {
          a \<leftarrow> buf_put a result y;
          move_merge_adaptive cmp b first1 last1 a (first2 + 1) last2 (result + 1) }
        else do {
          a \<leftarrow> buf_put a result x;
          move_merge_adaptive cmp b (first1 + 1) last1 a first2 last2 (result + 1) } }
      else if first1 \<noteq> last1 then move_across b first1 a result (last1 - first1)
      else Some a)"
  by pat_completeness auto
termination
  by (relation "measure (\<lambda>(cmp, b, first1, last1, a, first2, last2, result). (last1 - first1) + (last2 - first2))")
    auto

text \<open>The first range and the result are in \<open>a\<close>, the second range is in the buffer; all from the back.\<close>

fun move_merge_backward_loop ::
    "('a \<Rightarrow> 'a \<Rightarrow> bool) \<Rightarrow> 'a list \<Rightarrow> nat \<Rightarrow> nat \<Rightarrow> 'a list \<Rightarrow> nat \<Rightarrow> nat \<Rightarrow> nat \<Rightarrow> 'a list option" where
  "move_merge_backward_loop cmp a first1 last1 b first2 last2 0 = None"
| "move_merge_backward_loop cmp a first1 last1 b first2 last2 (Suc result) = do {
     y \<leftarrow> buf_get b last2;
     x \<leftarrow> buf_get a last1;
     if cmp y x then do {
       a \<leftarrow> buf_put a result x;
       if first1 = last1 then move_backward_across b (last2 + 1) a result (last2 + 1 - first2)
       else move_merge_backward_loop cmp a first1 (last1 - 1) b first2 last2 result }
     else do {
       a \<leftarrow> buf_put a result y;
       if first2 = last2 then Some a
       else move_merge_backward_loop cmp a first1 last1 b first2 (last2 - 1) result } }"

definition move_merge_adaptive_backward ::
    "('a \<Rightarrow> 'a \<Rightarrow> bool) \<Rightarrow> 'a list \<Rightarrow> nat \<Rightarrow> nat \<Rightarrow> 'a list \<Rightarrow> nat \<Rightarrow> nat \<Rightarrow> nat \<Rightarrow> 'a list option" where
  "move_merge_adaptive_backward cmp a first1 last1 b first2 last2 result =
     (if first1 = last1 then move_backward_across b last2 a result (last2 - first2)
      else if first2 = last2 then Some a
      else move_merge_backward_loop cmp a first1 (last1 - 1) b first2 (last2 - 1) result)"

definition rotate_adaptive :: "bool \<Rightarrow> 'a list \<Rightarrow> nat \<Rightarrow> nat \<Rightarrow> nat \<Rightarrow> nat \<Rightarrow> nat \<Rightarrow> 'a list \<Rightarrow> nat \<Rightarrow>
    ('a list \<times> 'a list \<times> nat) option" where
  "rotate_adaptive is_pod a first middle stop len1 len2 b buffer_size =
     (if len1 > len2 \<and> len2 \<le> buffer_size then
        (if len2 \<noteq> 0 then do {
           b \<leftarrow> move_across a middle b 0 (stop - middle);
           a \<leftarrow> move_backward_n a middle stop (middle - first);
           a \<leftarrow> move_across b 0 a first (stop - middle);
           Some (a, b, first + (stop - middle)) }
         else Some (a, b, first))
      else if len1 \<le> buffer_size then
        (if len1 \<noteq> 0 then do {
           b \<leftarrow> move_across a first b 0 (middle - first);
           a \<leftarrow> move_n a middle first (stop - middle);
           a \<leftarrow> move_backward_across b (middle - first) a stop (middle - first);
           Some (a, b, stop - (middle - first)) }
         else Some (a, b, stop))
      else do {
        (a, _) \<leftarrow> rotate_range is_pod a first middle stop;
        Some (a, b, first + (stop - middle)) })"

text \<open>
  Where the two ranges are cut in two, in \<open>__merge_adaptive\<close> and in \<open>__merge_without_buffer\<close>: the cuts
  and the lengths of the first parts.
\<close>

definition merge_cuts ::
    "('a \<Rightarrow> 'a \<Rightarrow> bool) \<Rightarrow> 'a list \<Rightarrow> nat \<Rightarrow> nat \<Rightarrow> nat \<Rightarrow> nat \<Rightarrow> nat \<Rightarrow> (nat \<times> nat \<times> nat \<times> nat) option" where
  "merge_cuts cmp a first middle stop len1 len2 =
     (if len1 > len2 then do {
        let len11 = len1 div 2;
        let first_cut = first + len11;
        x \<leftarrow> buf_get a first_cut;
        second_cut \<leftarrow> lower_bound_impl cmp a middle stop x;
        Some (first_cut, second_cut, len11, second_cut - middle) }
      else do {
        let len22 = len2 div 2;
        let second_cut = middle + len22;
        y \<leftarrow> buf_get a second_cut;
        first_cut \<leftarrow> upper_bound_impl cmp a first middle y;
        Some (first_cut, second_cut, first_cut - first, len22) })"

partial_function (option) merge_adaptive :: "bool \<Rightarrow> ('a \<Rightarrow> 'a \<Rightarrow> bool) \<Rightarrow> 'a list \<Rightarrow> nat \<Rightarrow> nat \<Rightarrow> nat \<Rightarrow>
    nat \<Rightarrow> nat \<Rightarrow> 'a list \<Rightarrow> nat \<Rightarrow> ('a list \<times> 'a list) option" where
  "merge_adaptive is_pod cmp a first middle stop len1 len2 b buffer_size =
     (if len1 \<le> len2 \<and> len1 \<le> buffer_size then do {
        b \<leftarrow> move_across a first b 0 (middle - first);
        a \<leftarrow> move_merge_adaptive cmp b 0 (middle - first) a middle stop first;
        Some (a, b) }
      else if len2 \<le> buffer_size then do {
        b \<leftarrow> move_across a middle b 0 (stop - middle);
        a \<leftarrow> move_merge_adaptive_backward cmp a first middle b 0 (stop - middle) stop;
        Some (a, b) }
      else do {
        (first_cut, second_cut, len11, len22) \<leftarrow> merge_cuts cmp a first middle stop len1 len2;
        (a, b, new_middle) \<leftarrow> rotate_adaptive is_pod a first_cut middle second_cut (len1 - len11) len22 b buffer_size;
        (a, b) \<leftarrow> merge_adaptive is_pod cmp a first first_cut new_middle len11 len22 b buffer_size;
        merge_adaptive is_pod cmp a new_middle second_cut stop (len1 - len11) (len2 - len22) b buffer_size })"

subsection \<open>Merging without a buffer\<close>

partial_function (option) merge_without_buffer :: "bool \<Rightarrow> ('a \<Rightarrow> 'a \<Rightarrow> bool) \<Rightarrow> 'a list \<Rightarrow> nat \<Rightarrow> nat \<Rightarrow> nat \<Rightarrow>
    nat \<Rightarrow> nat \<Rightarrow> 'a list option" where
  "merge_without_buffer is_pod cmp a first middle stop len1 len2 =
     (if len1 = 0 \<or> len2 = 0 then Some a
      else if len1 + len2 = 2 then do {
        y \<leftarrow> buf_get a middle;
        x \<leftarrow> buf_get a first;
        if cmp y x then iter_swap a first middle else Some a }
      else do {
        (first_cut, second_cut, len11, len22) \<leftarrow> merge_cuts cmp a first middle stop len1 len2;
        (a, _) \<leftarrow> rotate_range is_pod a first_cut middle second_cut;
        let new_middle = first_cut + (second_cut - middle);
        a \<leftarrow> merge_without_buffer is_pod cmp a first first_cut new_middle len11 len22;
        merge_without_buffer is_pod cmp a new_middle second_cut stop (len1 - len11) (len2 - len22) })"

definition inplace_merge_impl :: "(nat \<Rightarrow> bool) \<Rightarrow> nat \<Rightarrow> (nat \<Rightarrow> 'a) \<Rightarrow> bool \<Rightarrow> ('a \<Rightarrow> 'a \<Rightarrow> bool) \<Rightarrow>
    'a list \<Rightarrow> nat \<Rightarrow> nat \<Rightarrow> nat \<Rightarrow> 'a list option" where
  "inplace_merge_impl alloc max_len junk is_pod cmp a first middle stop =
     (if first = middle \<or> middle = stop then Some a
      else let len1 = middle - first; len2 = stop - middle; buf = Temporary_buffer alloc max_len junk first stop in
        if buf = [] then merge_without_buffer is_pod cmp a first middle stop len1 len2
        else do {
          (a, _) \<leftarrow> merge_adaptive is_pod cmp a first middle stop len1 len2 buf (length buf);
          Some a })"

definition inplace_merge :: "(nat \<Rightarrow> bool) \<Rightarrow> nat \<Rightarrow> (nat \<Rightarrow> 'a) \<Rightarrow> bool \<Rightarrow> ('a \<Rightarrow> 'a \<Rightarrow> bool) \<Rightarrow>
    'a list \<Rightarrow> nat \<Rightarrow> nat \<Rightarrow> nat \<Rightarrow> 'a list option" where
  "inplace_merge alloc max_len junk is_pod cmp a first middle stop =
     inplace_merge_impl alloc max_len junk is_pod cmp a first middle stop"

definition inplace_merge_less :: "(nat \<Rightarrow> bool) \<Rightarrow> nat \<Rightarrow> (nat \<Rightarrow> 'a :: linorder) \<Rightarrow> bool \<Rightarrow>
    'a list \<Rightarrow> nat \<Rightarrow> nat \<Rightarrow> nat \<Rightarrow> 'a list option" where
  "inplace_merge_less alloc max_len junk is_pod a first middle stop =
     inplace_merge_impl alloc max_len junk is_pod iter_less_iter a first middle stop"

subsection \<open>Merge sort\<close>

text \<open>From the array \<open>a\<close> to the array \<open>b\<close>.\<close>

function move_merge :: "('a \<Rightarrow> 'a \<Rightarrow> bool) \<Rightarrow> 'a list \<Rightarrow> nat \<Rightarrow> nat \<Rightarrow> nat \<Rightarrow> nat \<Rightarrow> 'a list \<Rightarrow> nat \<Rightarrow>
    ('a list \<times> nat) option" where
  "move_merge cmp a first1 last1 first2 last2 b result =
     (if first1 < last1 \<and> first2 < last2 then do {
        y \<leftarrow> buf_get a first2;
        x \<leftarrow> buf_get a first1;
        if cmp y x then do {
          b \<leftarrow> buf_put b result y;
          move_merge cmp a first1 last1 (first2 + 1) last2 b (result + 1) }
        else do {
          b \<leftarrow> buf_put b result x;
          move_merge cmp a (first1 + 1) last1 first2 last2 b (result + 1) } }
      else do {
        b \<leftarrow> move_across a first1 b result (last1 - first1);
        let result = result + (last1 - first1);
        b \<leftarrow> move_across a first2 b result (last2 - first2);
        Some (b, result + (last2 - first2)) })"
  by pat_completeness auto
termination
  by (relation "measure (\<lambda>(cmp, a, first1, last1, first2, last2, b, result). (last1 - first1) + (last2 - first2))")
    auto

partial_function (option) merge_sort_loop ::
    "('a \<Rightarrow> 'a \<Rightarrow> bool) \<Rightarrow> 'a list \<Rightarrow> nat \<Rightarrow> nat \<Rightarrow> 'a list \<Rightarrow> nat \<Rightarrow> nat \<Rightarrow> 'a list option" where
  "merge_sort_loop cmp a first stop b result step_size =
     (let two_step = 2 * step_size in
      if stop - first \<ge> two_step then do {
        (b, result) \<leftarrow> move_merge cmp a first (first + step_size) (first + step_size) (first + two_step) b result;
        merge_sort_loop cmp a (first + two_step) stop b result step_size }
      else do {
        let step_size = min (stop - first) step_size;
        (b, _) \<leftarrow> move_merge cmp a first (first + step_size) (first + step_size) stop b result;
        Some b })"

partial_function (option) chunk_insertion_sort ::
    "('a \<Rightarrow> 'a \<Rightarrow> bool) \<Rightarrow> 'a list \<Rightarrow> nat \<Rightarrow> nat \<Rightarrow> nat \<Rightarrow> 'a list option" where
  "chunk_insertion_sort cmp a first stop chunk_size =
     (if stop - first \<ge> chunk_size then do {
        a \<leftarrow> insertion_sort cmp a first (first + chunk_size);
        chunk_insertion_sort cmp a (first + chunk_size) stop chunk_size }
      else insertion_sort cmp a first stop)"

definition S_chunk_size :: nat where
  "S_chunk_size = 7"

partial_function (option) merge_sort_steps :: "('a \<Rightarrow> 'a \<Rightarrow> bool) \<Rightarrow> 'a list \<Rightarrow> nat \<Rightarrow> nat \<Rightarrow> 'a list \<Rightarrow> nat \<Rightarrow>
    ('a list \<times> 'a list) option" where
  "merge_sort_steps cmp a first stop b step_size =
     (if step_size < stop - first then do {
        b \<leftarrow> merge_sort_loop cmp a first stop b 0 step_size;
        let step_size = step_size * 2;
        a \<leftarrow> merge_sort_loop cmp b 0 (stop - first) a first step_size;
        let step_size = step_size * 2;
        merge_sort_steps cmp a first stop b step_size }
      else Some (a, b))"

definition merge_sort_with_buffer :: "('a \<Rightarrow> 'a \<Rightarrow> bool) \<Rightarrow> 'a list \<Rightarrow> nat \<Rightarrow> nat \<Rightarrow> 'a list \<Rightarrow>
    ('a list \<times> 'a list) option" where
  "merge_sort_with_buffer cmp a first stop b = do {
     a \<leftarrow> chunk_insertion_sort cmp a first stop S_chunk_size;
     merge_sort_steps cmp a first stop b S_chunk_size }"

partial_function (option) stable_sort_adaptive :: "bool \<Rightarrow> ('a \<Rightarrow> 'a \<Rightarrow> bool) \<Rightarrow> 'a list \<Rightarrow> nat \<Rightarrow> nat \<Rightarrow>
    'a list \<Rightarrow> nat \<Rightarrow> ('a list \<times> 'a list) option" where
  "stable_sort_adaptive is_pod cmp a first stop b buffer_size =
     (let len = (stop - first + 1) div 2; middle = first + len in do {
        (a, b) \<leftarrow> (if len > buffer_size then do {
            (a, b) \<leftarrow> stable_sort_adaptive is_pod cmp a first middle b buffer_size;
            stable_sort_adaptive is_pod cmp a middle stop b buffer_size }
          else do {
            (a, b) \<leftarrow> merge_sort_with_buffer cmp a first middle b;
            merge_sort_with_buffer cmp a middle stop b });
        merge_adaptive is_pod cmp a first middle stop (middle - first) (stop - middle) b buffer_size })"

function inplace_stable_sort :: "bool \<Rightarrow> ('a \<Rightarrow> 'a \<Rightarrow> bool) \<Rightarrow> 'a list \<Rightarrow> nat \<Rightarrow> nat \<Rightarrow> 'a list option" where
  "inplace_stable_sort is_pod cmp a first stop =
     (if stop - first < 15 then insertion_sort cmp a first stop
      else do {
        let middle = first + (stop - first) div 2;
        a \<leftarrow> inplace_stable_sort is_pod cmp a first middle;
        a \<leftarrow> inplace_stable_sort is_pod cmp a middle stop;
        merge_without_buffer is_pod cmp a first middle stop (middle - first) (stop - middle) })"
  by pat_completeness auto
termination
  by (relation "measure (\<lambda>(is_pod, cmp, a, first, stop). stop - first)") auto

definition stable_sort_impl :: "(nat \<Rightarrow> bool) \<Rightarrow> nat \<Rightarrow> (nat \<Rightarrow> 'a) \<Rightarrow> bool \<Rightarrow> ('a \<Rightarrow> 'a \<Rightarrow> bool) \<Rightarrow>
    'a list \<Rightarrow> nat \<Rightarrow> nat \<Rightarrow> 'a list option" where
  "stable_sort_impl alloc max_len junk is_pod cmp a first stop =
     (let buf = Temporary_buffer alloc max_len junk first stop in
      if buf = [] then inplace_stable_sort is_pod cmp a first stop
      else do {
        (a, _) \<leftarrow> stable_sort_adaptive is_pod cmp a first stop buf (length buf);
        Some a })"

definition stable_sort :: "(nat \<Rightarrow> bool) \<Rightarrow> nat \<Rightarrow> (nat \<Rightarrow> 'a) \<Rightarrow> bool \<Rightarrow> ('a \<Rightarrow> 'a \<Rightarrow> bool) \<Rightarrow>
    'a list \<Rightarrow> nat \<Rightarrow> nat \<Rightarrow> 'a list option" where
  "stable_sort alloc max_len junk is_pod cmp a first stop =
     stable_sort_impl alloc max_len junk is_pod cmp a first stop"

definition stable_sort_less :: "(nat \<Rightarrow> bool) \<Rightarrow> nat \<Rightarrow> (nat \<Rightarrow> 'a :: linorder) \<Rightarrow> bool \<Rightarrow>
    'a list \<Rightarrow> nat \<Rightarrow> nat \<Rightarrow> 'a list option" where
  "stable_sort_less alloc max_len junk is_pod a first stop =
     stable_sort_impl alloc max_len junk is_pod iter_less_iter a first stop"

declare move_merge_adaptive.simps [simp del] move_merge.simps [simp del] inplace_stable_sort.simps [simp del]

section \<open>Moves\<close>

lemma move_across_copies:
  assumes "f = length p" and "r = length q" and "n = length us" and "length gs = length us"
  shows "move_across (p @ us @ s) f (q @ gs @ t) r n = Some (q @ us @ t)"
  using assms
proof (induction us arbitrary: p q gs f r n)
  case (Cons u us)
  obtain g gs' where gs: "gs = g # gs'"
    using Cons.prems(4) by (cases gs) auto
  have "move_across ((p @ [u]) @ us @ s) (f + 1) ((q @ [u]) @ gs' @ t) (r + 1) (length us) = Some ((q @ [u]) @ us @ t)"
    using Cons.prems gs by (intro Cons.IH) simp_all
  then show ?case
    using Cons.prems gs by (simp add: buf_get_append buf_put_append)
qed simp

lemma move_backward_across_copies:
  assumes "e = length p + length us" and "r = length q + length us" and "n = length us" and "length gs = length us"
  shows "move_backward_across (p @ us @ s) e (q @ gs @ t) r n = Some (q @ us @ t)"
  using assms
proof (induction us arbitrary: s t gs e r n rule: rev_induct)
  case (snoc u us)
  obtain gs' g where gs: "gs = gs' @ [g]"
    using snoc.prems(4) by (cases gs rule: rev_cases) auto
  have "move_backward_across (p @ us @ (u # s)) (e - 1) (q @ gs' @ (u # t)) (r - 1) (length us) = Some (q @ us @ (u # t))"
    using snoc.prems gs by (intro snoc.IH) simp_all
  moreover have "buf_get (p @ us @ u # s) (e - 1) = Some u"
    using buf_get_append [of "e - 1" "p @ us" u s] snoc.prems by simp
  moreover have "buf_put (q @ gs' @ g # t) (r - 1) u = Some (q @ gs' @ u # t)"
    using buf_put_append [of "r - 1" "q @ gs'" g t u] snoc.prems gs by simp
  ultimately show ?case
    using snoc.prems gs by simp
qed simp

lemma move_n_front:
  assumes "m = length p + length us" and "f = length p" and "n = length vs" and "us \<noteq> []"
  shows "\<exists>gs. move_n (p @ us @ vs @ s) m f n = Some (p @ vs @ gs @ s) \<and> length gs = length us"
  using assms
proof (induction vs arbitrary: p us m f n)
  case (Cons v vs)
  obtain u us' where us: "us = u # us'"
    using Cons.prems(4) by (cases us) auto
  have "\<exists>gs. move_n ((p @ [v]) @ (us' @ [v]) @ vs @ s) (m + 1) (f + 1) (length vs) = Some ((p @ [v]) @ vs @ gs @ s) \<and>
      length gs = length (us' @ [v])"
    using Cons.prems us by (intro Cons.IH) simp_all
  moreover have "buf_get (p @ us @ (v # vs) @ s) m = Some v"
    using buf_get_append [of m "p @ us" v "vs @ s"] Cons.prems by simp
  ultimately show ?case
    using Cons.prems us by (auto simp: buf_put_append)
qed auto

lemma move_backward_n_back:
  assumes "m = length p + length us" and "e = length p + length us + length vs" and "n = length us" and "vs \<noteq> []"
  shows "\<exists>gs. move_backward_n (p @ us @ vs @ s) m e n = Some (p @ gs @ us @ s) \<and> length gs = length vs"
  using assms
proof (induction us arbitrary: vs s m e n rule: rev_induct)
  case (snoc u us)
  obtain vs' v where vs: "vs = vs' @ [v]"
    using snoc.prems(4) by (cases vs rule: rev_cases) auto
  have "\<exists>gs. move_backward_n (p @ us @ (u # vs') @ (u # s)) (m - 1) (e - 1) (length us) =
      Some (p @ gs @ us @ (u # s)) \<and> length gs = length (u # vs')"
    using snoc.prems vs by (intro snoc.IH) simp_all
  moreover have "buf_get (p @ us @ u # vs @ s) (m - 1) = Some u"
    using buf_get_append [of "m - 1" "p @ us" u "vs @ s"] snoc.prems by simp
  moreover have "buf_put (p @ us @ u # vs' @ v # s) (e - 1) u = Some (p @ us @ u # vs' @ u # s)"
    using buf_put_append [of "e - 1" "p @ us @ u # vs'" v s u] snoc.prems vs by simp
  ultimately show ?case
    using snoc.prems vs by auto
qed auto

lemma rotate_adaptive_rotates:
  assumes "f = length p" and "m = f + length us" and "r = m + length vs" and "buffer_size \<le> length b"
  shows "\<exists>b'. rotate_adaptive is_pod (p @ us @ vs @ s) f m r (length us) (length vs) b buffer_size =
    Some (p @ vs @ us @ s, b', f + length vs) \<and> length b' = length b"
proof -
  consider (short2) "length us > length vs \<and> length vs \<le> buffer_size"
    | (short1) "\<not> (length us > length vs \<and> length vs \<le> buffer_size)" "length us \<le> buffer_size"
    | (big) "\<not> (length us > length vs \<and> length vs \<le> buffer_size)" "\<not> length us \<le> buffer_size"
    by blast
  then show ?thesis
  proof cases
    case short2
    show ?thesis
    proof (cases "vs = []")
      case False
      let ?b = "vs @ drop (length vs) b"
      have "move_across (p @ us @ vs @ s) m b 0 (length vs) = Some ?b"
        using move_across_copies [of m "p @ us" 0 "[]" "length vs" vs "take (length vs) b" s "drop (length vs) b"]
          assms short2 by simp
      moreover obtain gs where "move_backward_n (p @ us @ vs @ s) m r (length us) = Some (p @ gs @ us @ s)"
          "length gs = length vs"
        using move_backward_n_back [of m p us r vs "length us" s] assms False by auto
      moreover from this have "move_across ?b 0 (p @ gs @ us @ s) f (length vs) = Some (p @ vs @ us @ s)"
        using move_across_copies [of 0 "[]" f p "length vs" vs gs "drop (length vs) b" "us @ s"] assms by simp
      ultimately show ?thesis
        using assms short2 False by (simp add: rotate_adaptive_def)
    qed (use assms short2 in \<open>simp add: rotate_adaptive_def\<close>)
  next
    case short1
    show ?thesis
    proof (cases "us = []")
      case False
      let ?b = "us @ drop (length us) b"
      have "move_across (p @ us @ vs @ s) f b 0 (length us) = Some ?b"
        using move_across_copies [of f p 0 "[]" "length us" us "take (length us) b" "vs @ s" "drop (length us) b"]
          assms short1 by simp
      moreover obtain gs where "move_n (p @ us @ vs @ s) m f (length vs) = Some (p @ vs @ gs @ s)"
          "length gs = length us"
        using move_n_front [of m p us f "length vs" vs s] assms False by auto
      moreover from this have "move_backward_across ?b (length us) (p @ vs @ gs @ s) r (length us) = Some (p @ vs @ us @ s)"
        using move_backward_across_copies [of "length us" "[]" us r "p @ vs" "length us" gs "drop (length us) b" s]
          assms by simp
      ultimately show ?thesis
        using assms short1 False by (simp add: rotate_adaptive_def)
    qed (use assms short1 in \<open>simp add: rotate_adaptive_def\<close>)
  next
    case big
    then show ?thesis
      using rotate_random_rotates [OF assms(1-3), of is_pod s] assms(3)
      by (auto simp: rotate_adaptive_def rotate_range_def)
  qed
qed

section \<open>Merging\<close>

lemma merge_impl_Nil [simp]: "merge_impl cmp xs [] = xs" "merge_impl cmp [] ys = ys"
  by (cases xs; simp)+

lemma length_merge [simp]: "length (merge_impl cmp xs ys) = length xs + length ys"
  by (induction cmp xs ys rule: merge_impl.induct) auto

lemma merge_first:
  assumes "\<And>x y. x \<in> set us \<Longrightarrow> y \<in> set ys \<Longrightarrow> \<not> cmp y x"
  shows "merge_impl cmp (us @ xs) ys = us @ merge_impl cmp xs ys"
  using assms by (induction us) (auto, cases ys, auto)

lemma merge_second:
  assumes "\<And>x y. x \<in> set xs \<Longrightarrow> y \<in> set vs \<Longrightarrow> cmp y x"
  shows "merge_impl cmp xs (vs @ ys) = vs @ merge_impl cmp xs ys"
  using assms by (induction vs) (auto, cases xs, auto)

lemmas merge_induct = merge_impl.induct [case_names both first_empty second_empty]

text \<open>Ranges may be cut so that the parts are merged one after the other.\<close>

lemma merge_split:
  assumes "\<And>x y. x \<in> set us1 \<Longrightarrow> y \<in> set vs2 \<Longrightarrow> \<not> cmp y x"
    and "\<And>x y. x \<in> set us2 \<Longrightarrow> y \<in> set vs1 \<Longrightarrow> cmp y x"
  shows "merge_impl cmp (us1 @ us2) (vs1 @ vs2) = merge_impl cmp us1 vs1 @ merge_impl cmp us2 vs2"
  using assms
proof (induction cmp us1 vs1 rule: merge_induct)
  case (first_empty cmp vs1)
  then show ?case
    by (simp add: merge_second)
next
  case (second_empty cmp us1)
  then show ?case
    by (simp add: merge_first)
qed auto

lemma move_merge_adaptive_merges:
  assumes "f1 = length q" and "l1 = f1 + length us" and "f2 = length p + length gs" and "l2 = f2 + length vs"
    and "r = length p" and "length gs = length us"
  shows "move_merge_adaptive cmp (q @ us @ t) f1 l1 (p @ gs @ vs @ s) f2 l2 r = Some (p @ merge_impl cmp us vs @ s)"
  using assms
proof (induction cmp us vs arbitrary: p q gs f1 f2 r rule: merge_induct)
  case (both cmp x us y vs)
  obtain g gs' where gs: "gs = g # gs'"
    using both.prems(6) by (cases gs) auto
  have get: "buf_get (p @ g # gs' @ y # vs @ s) f2 = Some y"
    using buf_get_append [of f2 "p @ gs" y "vs @ s"] both.prems gs by simp
  show ?case
  proof (cases "cmp y x")
    case True
    have "move_merge_adaptive cmp (q @ (x # us) @ t) f1 l1 ((p @ [y]) @ (gs' @ [y]) @ vs @ s) (f2 + 1) l2 (r + 1) =
        Some ((p @ [y]) @ merge_impl cmp (x # us) vs @ s)"
      using both.prems gs True by (intro both.IH(1)) simp_all
    then show ?thesis
      using both.prems gs True get
      by (subst move_merge_adaptive.simps) (simp add: buf_get_append buf_put_append)
  next
    case False
    have "move_merge_adaptive cmp ((q @ [x]) @ us @ t) (f1 + 1) l1 ((p @ [x]) @ gs' @ (y # vs) @ s) f2 l2 (r + 1) =
        Some ((p @ [x]) @ merge_impl cmp us (y # vs) @ s)"
      using both.prems gs False by (intro both.IH(2)) simp_all
    then show ?thesis
      using both.prems gs False get
      by (subst move_merge_adaptive.simps) (simp add: buf_get_append buf_put_append)
  qed
next
  case (first_empty cmp vs)
  then show ?case
    by (simp add: move_merge_adaptive.simps)
next
  case (second_empty cmp us)
  then show ?case
    using move_across_copies [of f1 q r p "length us" us gs t s]
    by (subst move_merge_adaptive.simps) auto
qed

lemma move_merge_merges:
  assumes "f1 = length p" and "l1 = f1 + length us" and "f2 = l1 + length ms" and "l2 = f2 + length vs"
    and "r = length q" and "length gs = length us + length vs"
  shows "move_merge cmp (p @ us @ ms @ vs @ s) f1 l1 f2 l2 (q @ gs @ t) r =
    Some (q @ merge_impl cmp us vs @ t, r + length us + length vs)"
  using assms
proof (induction cmp us vs arbitrary: p q ms gs f1 f2 r rule: merge_induct)
  case (both cmp x us y vs)
  obtain g gs' where gs: "gs = g # gs'"
    using both.prems(6) by (cases gs) auto
  have get: "buf_get (p @ x # us @ ms @ y # vs @ s) f2 = Some y"
    using buf_get_append [of f2 "p @ x # us @ ms" y "vs @ s"] both.prems by simp
  show ?case
  proof (cases "cmp y x")
    case True
    have "move_merge cmp (p @ (x # us) @ (ms @ [y]) @ vs @ s) f1 l1 (f2 + 1) l2 ((q @ [y]) @ gs' @ t) (r + 1) =
        Some ((q @ [y]) @ merge_impl cmp (x # us) vs @ t, (r + 1) + length (x # us) + length vs)"
      using both.prems gs True by (intro both.IH(1)) simp_all
    then show ?thesis
      using both.prems gs True get
      by (subst move_merge.simps) (simp add: buf_get_append buf_put_append)
  next
    case False
    have "move_merge cmp ((p @ [x]) @ us @ ms @ (y # vs) @ s) (f1 + 1) l1 f2 l2 ((q @ [x]) @ gs' @ t) (r + 1) =
        Some ((q @ [x]) @ merge_impl cmp us (y # vs) @ t, (r + 1) + length us + length (y # vs))"
      using both.prems gs False by (intro both.IH(2)) simp_all
    then show ?thesis
      using both.prems gs False get
      by (subst move_merge.simps) (simp add: buf_get_append buf_put_append)
  qed
next
  case (first_empty cmp vs)
  then show ?case
    using move_across_copies [of f2 "p @ ms" r q "length vs" vs gs s t]
    by (subst move_merge.simps) simp
next
  case (second_empty cmp us)
  then show ?case
    using move_across_copies [of f1 p r q "length us" us gs "ms @ s" t]
    by (subst move_merge.simps) simp
qed

lemma sorted_range_append:
  assumes "f = length p" and "r = f + length xs"
  shows "sorted_range cmp (p @ xs @ s) f r \<longleftrightarrow> sorted_seq cmp xs"
proof
  assume sorted: "sorted_range cmp (p @ xs @ s) f r"
  have "\<not> cmp (xs ! j) (xs ! i)" if "i < j" "j < length xs" for i j
    using sorted [unfolded sorted_range_def, rule_format, of "f + i" "f + j"] that assms
    by (simp add: nth_append)
  then show "sorted_seq cmp xs"
    by (simp add: sorted_wrt_iff_nth_less)
next
  assume sorted: "sorted_seq cmp xs"
  have "\<not> cmp ((p @ xs @ s) ! j) ((p @ xs @ s) ! i)" if "f \<le> i" "i < j" "j < r" for i j
  proof -
    have "i - f < j - f" "j - f < length xs" "i - f < length xs"
      using that assms(2) by auto
    then show ?thesis
      using sorted_wrt_nth_less [OF sorted, of "i - f" "j - f"] that assms(1) by (simp add: nth_append)
  qed
  then show "sorted_range cmp (p @ xs @ s) f r"
    by (simp add: sorted_range_def)
qed

lemma first_with_cut:
  assumes "first_with (\<lambda>i. P ((p @ xs @ s) ! i)) f r k" and "f = length p" and "r = f + length xs"
  shows "k - f \<le> length xs" and "x \<in> set (take (k - f) xs) \<Longrightarrow> \<not> P x"
    and "k - f < length xs \<Longrightarrow> P (xs ! (k - f))" and "f \<le> k"
proof -
  have nth: "(p @ xs @ s) ! j = xs ! (j - f)" if "f \<le> j" "j < r" for j
  proof -
    have "j - f < length xs"
      using that assms(3) by auto
    then show ?thesis
      using that assms(2) by (simp add: nth_append)
  qed
  show "k - f \<le> length xs" "f \<le> k"
    using assms by (auto simp: first_with_def)
  show "P (xs ! (k - f))" if "k - f < length xs"
    using assms that nth [of k] by (auto simp: first_with_def)
  show "\<not> P x" if mem: "x \<in> set (take (k - f) xs)"
  proof -
    obtain i where "i < length (take (k - f) xs)" "take (k - f) xs ! i = x"
      using mem unfolding in_set_conv_nth by blast
    then have i: "i < k - f" "i < length xs" "x = xs ! i"
      by auto
    then have "\<not> P ((p @ xs @ s) ! (f + i))"
      using assms(1) by (simp add: first_with_def)
    then show ?thesis
      using nth [of "f + i"] i assms(3) by simp
  qed
qed

context strict_weak_ordering
begin

lemma merge_snoc_first:
  assumes "sorted_seq cmp (vs @ [y])" and "cmp y x"
  shows "merge_impl cmp (us @ [x]) (vs @ [y]) = merge_impl cmp us (vs @ [y]) @ [x]"
proof -
  have "cmp v x" if "v \<in> set (vs @ [y])" for v
    using that assms cmp_split [of y x v] by (auto simp: sorted_wrt_append)
  then show ?thesis
    using merge_split [of us "[]" cmp "[x]" "vs @ [y]"] by simp
qed

lemma merge_snoc_second:
  assumes "sorted_seq cmp (us @ [x])" and "\<not> cmp y x"
  shows "merge_impl cmp (us @ [x]) (vs @ [y]) = merge_impl cmp (us @ [x]) vs @ [y]"
proof -
  have "\<not> cmp y u" if "u \<in> set (us @ [x])" for u
    using that assms cmp_le_trans [of x u y] by (auto simp: sorted_wrt_append)
  then show ?thesis
    using merge_split [of "us @ [x]" "[y]" cmp "[]" vs] by simp
qed

lemma move_merge_backward_merges:
  assumes "sorted_seq cmp (us @ [x])" and "sorted_seq cmp (vs @ [y])"
    and "f1 = length p" and "l1 = f1 + length us" and "f2 = length q" and "l2 = f2 + length vs"
    and "r = l1 + length vs + 2" and "length gs = length vs + 1"
  shows "move_merge_backward_loop cmp (p @ (us @ [x]) @ gs @ s) f1 l1 (q @ (vs @ [y]) @ t) f2 l2 r =
    Some (p @ merge_impl cmp (us @ [x]) (vs @ [y]) @ s)"
  using assms
proof (induction "length us + length vs" arbitrary: us vs x y gs s t l1 l2 r rule: less_induct)
  case less
  obtain gs' g where gs: "gs = gs' @ [g]"
    using less.prems(8) by (cases gs rule: rev_cases) auto
  obtain r' where r: "r = Suc r'" "r' = length (p @ us @ x # gs')"
    using less.prems(3,4,7,8) gs by (cases r) auto
  have get: "buf_get (q @ vs @ y # t) l2 = Some y" "buf_get (p @ us @ x # gs @ s) l1 = Some x"
    using buf_get_append [of l2 "q @ vs" y t] buf_get_append [of l1 "p @ us" x "gs @ s"] less.prems by simp_all
  have put: "buf_put (p @ us @ x # gs' @ g # s) r' z = Some (p @ us @ x # gs' @ z # s)" for z
    using buf_put_append [of r' "p @ us @ x # gs'" g s z] r(2) by simp
  show ?case
  proof (cases "cmp y x")
    case True
    note merge = merge_snoc_first [OF less.prems(2) True]
    show ?thesis
    proof (cases us rule: rev_cases)
      case Nil
      have "move_backward_across (q @ (vs @ [y]) @ t) (l2 + 1) (p @ (x # gs') @ (x # s)) r' (length vs + 1) =
          Some (p @ (vs @ [y]) @ (x # s))"
        using less.prems r(2) gs Nil by (intro move_backward_across_copies) simp_all
      then show ?thesis
        using True get put gs r(1) Nil less.prems(3,4,5,6) merge [of "[]"] by (simp del: move_backward_across.simps)
    next
      case (snoc us' x')
      have "move_merge_backward_loop cmp (p @ (us' @ [x']) @ (x # gs') @ (x # s)) f1 (l1 - 1) (q @ (vs @ [y]) @ t) f2 l2 r' =
          Some (p @ merge_impl cmp (us' @ [x']) (vs @ [y]) @ (x # s))"
        using less.prems snoc r gs by (intro less.hyps) (simp_all add: sorted_wrt_append)
      then show ?thesis
        using True get put gs r(1) snoc less.prems(3,4) merge [of us] by simp
    qed
  next
    case False
    note merge = merge_snoc_second [OF less.prems(1) False]
    show ?thesis
    proof (cases vs rule: rev_cases)
      case Nil
      then show ?thesis
        using False get put gs r(1) less.prems(5,6,8) merge [of "[]"] by simp
    next
      case (snoc vs' y')
      have "move_merge_backward_loop cmp (p @ (us @ [x]) @ gs' @ (y # s)) f1 l1 (q @ (vs' @ [y']) @ (y # t)) f2 (l2 - 1) r' =
          Some (p @ merge_impl cmp (us @ [x]) (vs' @ [y']) @ (y # s))"
        using less.prems snoc r gs by (intro less.hyps) (simp_all add: sorted_wrt_append)
      then show ?thesis
        using False get put gs r(1) snoc less.prems(5,6) merge [of vs] by simp
    qed
  qed
qed

lemma sorted_cut:
  assumes "sorted_seq cmp xs" and "k < length xs"
  shows "u \<in> set (take k xs) \<Longrightarrow> \<not> cmp (xs ! k) u" and "u \<in> set (drop k xs) \<Longrightarrow> \<not> cmp u (xs ! k)"
proof -
  have "sorted_seq cmp (take k xs @ xs ! k # drop (Suc k) xs)" "drop k xs = xs ! k # drop (Suc k) xs"
    using assms id_take_nth_drop [OF assms(2)] by (simp_all add: Cons_nth_drop_Suc)
  then show "u \<in> set (take k xs) \<Longrightarrow> \<not> cmp (xs ! k) u" "u \<in> set (drop k xs) \<Longrightarrow> \<not> cmp u (xs ! k)"
    by (auto simp: sorted_wrt_append)
qed

text \<open>The cut in the middle of the first range, and the one in the middle of the second.\<close>

lemma lower_cut:
  assumes "m = length p" and "r = m + length vs" and "sorted_seq cmp us" and "sorted_seq cmp vs" and "k < length us"
  shows "\<exists>j. lower_bound_impl cmp (p @ vs @ s) m r (us ! k) = Some (m + j) \<and> j \<le> length vs \<and>
    merge_impl cmp us vs = merge_impl cmp (take k us) (take j vs) @ merge_impl cmp (drop k us) (drop j vs)"
proof -
  let ?x = "us ! k"
  have "sorted_range cmp (p @ vs @ s) m (m + (r - m))"
    using assms by (intro sorted_range_append [THEN iffD2]) simp_all
  then obtain l where l: "lower_bound_loop cmp (p @ vs @ s) m (r - m) ?x = Some l"
      "first_with (\<lambda>i. \<not> cmp ((p @ vs @ s) ! i) ?x) m r l"
    using bounds_first(1) [OF strict_weak_ordering_axioms, of "p @ vs @ s" m "r - m" ?x] assms(1,2) by auto
  define j where "j = l - m"
  note cut = first_with_cut [where P = "\<lambda>y. \<not> cmp y ?x", OF l(2) assms(1,2), folded j_def]
  have after: "\<not> cmp y ?x" if "y \<in> set (drop j vs)" for y
  proof -
    have j: "j < length vs"
      using that by (cases "j < length vs") auto
    then show ?thesis
      using cut(3) sorted_cut(2) [OF assms(4) j that] cmp_le_trans by blast
  qed
  have "merge_impl cmp (take k us @ drop k us) (take j vs @ drop j vs) =
      merge_impl cmp (take k us) (take j vs) @ merge_impl cmp (drop k us) (drop j vs)"
  proof (rule merge_split)
    show "\<not> cmp y u" if "u \<in> set (take k us)" "y \<in> set (drop j vs)" for u y
      using sorted_cut(1) [OF assms(3,5) that(1)] after [OF that(2)] cmp_le_trans by blast
    show "cmp y u" if "u \<in> set (drop k us)" "y \<in> set (take j vs)" for u y
      using sorted_cut(2) [OF assms(3,5) that(1)] cut(2) [OF that(2)] cmp_split by blast
  qed
  then show ?thesis
    using l(1) cut(1,4) by (intro exI [of _ j]) (simp add: lower_bound_impl_def j_def)
qed

lemma upper_cut:
  assumes "f = length p" and "m = f + length us" and "sorted_seq cmp us" and "sorted_seq cmp vs" and "k < length vs"
  shows "\<exists>j. upper_bound_impl cmp (p @ us @ s) f m (vs ! k) = Some (f + j) \<and> j \<le> length us \<and>
    merge_impl cmp us vs = merge_impl cmp (take j us) (take k vs) @ merge_impl cmp (drop j us) (drop k vs)"
proof -
  let ?y = "vs ! k"
  have "sorted_range cmp (p @ us @ s) f (f + (m - f))"
    using assms by (intro sorted_range_append [THEN iffD2]) simp_all
  then obtain l where l: "upper_bound_loop cmp (p @ us @ s) f (m - f) ?y = Some l"
      "first_with (\<lambda>i. cmp ?y ((p @ us @ s) ! i)) f m l"
    using bounds_first(2) [OF strict_weak_ordering_axioms, of "p @ us @ s" f "m - f" ?y] assms(1,2) by auto
  define j where "j = l - f"
  note cut = first_with_cut [where P = "\<lambda>x. cmp ?y x", OF l(2) assms(1,2), folded j_def]
  have after: "cmp ?y u" if "u \<in> set (drop j us)" for u
  proof -
    have j: "j < length us"
      using that by (cases "j < length us") auto
    then show ?thesis
      using cut(3) sorted_cut(2) [OF assms(3) j that] cmp_split by blast
  qed
  have "merge_impl cmp (take j us @ drop j us) (take k vs @ drop k vs) =
      merge_impl cmp (take j us) (take k vs) @ merge_impl cmp (drop j us) (drop k vs)"
  proof (rule merge_split)
    show "\<not> cmp y u" if "u \<in> set (take j us)" "y \<in> set (drop k vs)" for u y
      using sorted_cut(2) [OF assms(4,5) that(2)] cut(2) [OF that(1)] cmp_le_trans by blast
    show "cmp y u" if "u \<in> set (drop j us)" "y \<in> set (take k vs)" for u y
      using sorted_cut(1) [OF assms(4,5) that(2)] after [OF that(1)] cmp_split by blast
  qed
  then show ?thesis
    using l(1) cut(1,4) by (intro exI [of _ j]) (simp add: upper_bound_impl_def j_def)
qed

lemma merge_cuts_split:
  assumes "f = length p" and "m = f + length us" and "r = m + length vs"
    and "sorted_seq cmp us" and "sorted_seq cmp vs" and "us \<noteq> []" and "vs \<noteq> []"
  shows "\<exists>j k. merge_cuts cmp (p @ us @ vs @ s) f m r (length us) (length vs) = Some (f + j, m + k, j, k) \<and>
    j \<le> length us \<and> k \<le> length vs \<and>
    merge_impl cmp us vs = merge_impl cmp (take j us) (take k vs) @ merge_impl cmp (drop j us) (drop k vs) \<and>
    (if length us > length vs then j = length us div 2 else k = length vs div 2)"
proof (cases "length us > length vs")
  case True
  let ?j = "length us div 2"
  have j: "?j < length us"
    using assms(6) by simp
  then obtain k where k: "lower_bound_impl cmp ((p @ us) @ vs @ s) m r (us ! ?j) = Some (m + k)" "k \<le> length vs"
      "merge_impl cmp us vs = merge_impl cmp (take ?j us) (take k vs) @ merge_impl cmp (drop ?j us) (drop k vs)"
    using lower_cut [of m "p @ us" r vs us ?j s] assms by auto
  have "buf_get (p @ us @ vs @ s) (f + ?j) = Some (us ! ?j)"
    using assms(1) j by (simp add: nth_append)
  then have "merge_cuts cmp (p @ us @ vs @ s) f m r (length us) (length vs) = Some (f + ?j, m + k, ?j, k)"
    using True k(1) by (simp add: merge_cuts_def Let_def)
  then show ?thesis
    using True j k(2,3) less_imp_le [OF j] by metis
next
  case False
  let ?k = "length vs div 2"
  have k: "?k < length vs"
    using assms(7) by simp
  then obtain j where j: "upper_bound_impl cmp (p @ us @ vs @ s) f m (vs ! ?k) = Some (f + j)" "j \<le> length us"
      "merge_impl cmp us vs = merge_impl cmp (take j us) (take ?k vs) @ merge_impl cmp (drop j us) (drop ?k vs)"
    using upper_cut [of f p m us vs ?k "vs @ s"] assms by auto
  have "buf_get (p @ us @ vs @ s) (m + ?k) = Some (vs ! ?k)"
    using assms(1,2) k by (simp add: nth_append)
  then have "merge_cuts cmp (p @ us @ vs @ s) f m r (length us) (length vs) = Some (f + j, m + ?k, j, ?k)"
    using False j(1) by (simp add: merge_cuts_def Let_def)
  then show ?thesis
    using False j(2,3) less_imp_le [OF k] by metis
qed

lemma merge_without_buffer_merges:
  assumes "f = length p" and "m = f + length us" and "r = m + length vs"
    and "sorted_seq cmp us" and "sorted_seq cmp vs"
  shows "merge_without_buffer is_pod cmp (p @ us @ vs @ s) f m r (length us) (length vs) =
    Some (p @ merge_impl cmp us vs @ s)"
  using assms
proof (induction "length us + length vs" arbitrary: p us vs s f m r rule: less_induct)
  case less
  note unfold = merge_without_buffer.simps [of is_pod cmp "p @ us @ vs @ s" f m r "length us" "length vs"]
  consider "us = [] \<or> vs = []" | "us \<noteq> []" "vs \<noteq> []" "length us + length vs = 2"
    | "us \<noteq> []" "vs \<noteq> []" "length us + length vs \<noteq> 2"
    by blast
  then show ?case
  proof cases
    case 1
    then show ?thesis
      using unfold by auto
  next
    case 2
    then have "length us = 1" "length vs = 1"
      by (cases us; cases vs; simp)+
    then obtain x y where xy: "us = [x]" "vs = [y]"
      by (auto simp: length_Suc_conv)
    then have "buf_get (p @ us @ vs @ s) m = Some y" "iter_swap (p @ us @ vs @ s) f m = Some (p @ y # x # s)"
      using buf_get_append [of m "p @ [x]" y s] iter_swap_append [of f p m "[]" x y s] less.prems(1,2) by simp_all
    then show ?thesis
      using unfold xy less.prems(1) by (simp add: buf_get_append)
  next
    case 3
    then obtain j k where cuts: "merge_cuts cmp (p @ us @ vs @ s) f m r (length us) (length vs) = Some (f + j, m + k, j, k)"
        "j \<le> length us" "k \<le> length vs"
        "merge_impl cmp us vs = merge_impl cmp (take j us) (take k vs) @ merge_impl cmp (drop j us) (drop k vs)"
        "if length us > length vs then j = length us div 2 else k = length vs div 2"
      using merge_cuts_split [OF less.prems] by blast
    have "0 < length us" "0 < length vs"
      using 3 by simp_all
    moreover from this have "2 < length us + length vs"
      using 3(3) by linarith
    ultimately have progress: "0 < j + k" "j + k < length us + length vs"
      using cuts(2,3,5) by (auto split: if_splits)
    let ?a = "p @ take j us @ take k vs @ drop j us @ drop k vs @ s"
    have parts: "p @ us @ vs @ s = (p @ take j us) @ drop j us @ take k vs @ (drop k vs @ s)"
      by (metis append.assoc append_take_drop_id)
    have rot: "rotate_range is_pod (p @ us @ vs @ s) (f + j) m (m + k) = Some (?a, f + j + k)"
      using rotate_random_rotates [of "f + j" "p @ take j us" m "drop j us" "m + k" "take k vs" is_pod "drop k vs @ s"]
        cuts(2,3) less.prems(1,2) unfolding parts by (simp add: rotate_range_def)
    have "merge_without_buffer is_pod cmp (p @ take j us @ take k vs @ (drop j us @ drop k vs @ s)) f (f + j) (f + j + k)
        (length (take j us)) (length (take k vs)) =
        Some (p @ merge_impl cmp (take j us) (take k vs) @ (drop j us @ drop k vs @ s))"
      using progress cuts(2,3) less.prems by (intro less.hyps) (simp_all add: sorted_wrt_take)
    moreover have "merge_without_buffer is_pod cmp ((p @ merge_impl cmp (take j us) (take k vs)) @ drop j us @ drop k vs @ s)
        (f + j + k) (m + k) r (length (drop j us)) (length (drop k vs)) =
        Some ((p @ merge_impl cmp (take j us) (take k vs)) @ merge_impl cmp (drop j us) (drop k vs) @ s)"
      using progress cuts(2,3) less.prems by (intro less.hyps) (auto simp: sorted_wrt_drop)
    ultimately show ?thesis
      using unfold 3 cuts rot by simp
  qed
qed

lemma merge_adaptive_merges:
  assumes "f = length p" and "m = f + length us" and "r = m + length vs"
    and "sorted_seq cmp us" and "sorted_seq cmp vs" and "0 < buffer_size" and "buffer_size \<le> length b"
  shows "\<exists>b'. merge_adaptive is_pod cmp (p @ us @ vs @ s) f m r (length us) (length vs) b buffer_size =
    Some (p @ merge_impl cmp us vs @ s, b') \<and> length b' = length b"
  using assms
proof (induction "length us + length vs" arbitrary: p us vs s f m r b rule: less_induct)
  case less
  note unfold = merge_adaptive.simps [of is_pod cmp "p @ us @ vs @ s" f m r "length us" "length vs" b buffer_size]
  consider (first) "length us \<le> length vs \<and> length us \<le> buffer_size"
    | (second) "\<not> (length us \<le> length vs \<and> length us \<le> buffer_size)" "length vs \<le> buffer_size"
    | (cut) "\<not> (length us \<le> length vs \<and> length us \<le> buffer_size)" "\<not> length vs \<le> buffer_size"
    by blast
  then show ?case
  proof cases
    case first
    have "move_across (p @ us @ vs @ s) f b 0 (length us) = Some (us @ drop (length us) b)"
      using move_across_copies [of f p 0 "[]" "length us" us "take (length us) b" "vs @ s" "drop (length us) b"]
        less.prems first by simp
    moreover have "move_merge_adaptive cmp (us @ drop (length us) b) 0 (length us) (p @ us @ vs @ s) m r f =
        Some (p @ merge_impl cmp us vs @ s)"
      using move_merge_adaptive_merges [of 0 "[]" "length us" us m p us r vs f cmp "drop (length us) b" s] less.prems
      by simp
    ultimately show ?thesis
      using unfold first less.prems(1,2,7) by simp
  next
    case second
    have "move_across (p @ us @ vs @ s) m b 0 (length vs) = Some (vs @ drop (length vs) b)"
      using move_across_copies [of m "p @ us" 0 "[]" "length vs" vs "take (length vs) b" s "drop (length vs) b"]
        less.prems second by simp
    moreover have "move_merge_adaptive_backward cmp (p @ us @ vs @ s) f m (vs @ drop (length vs) b) 0 (length vs) r =
        Some (p @ merge_impl cmp us vs @ s)"
    proof (cases us rule: rev_cases; cases vs rule: rev_cases)
      fix us' x vs' y
      assume eq: "us = us' @ [x]" "vs = vs' @ [y]"
      then show ?thesis
        using move_merge_backward_merges [of us' x vs' y f p "m - 1" 0 "[]" "length vs - 1" r vs s "drop (length vs) b"]
          less.prems by (simp add: move_merge_adaptive_backward_def del: move_merge_backward_loop.simps)
    qed (use less.prems move_backward_across_copies [of "length vs" "[]" vs r p "length vs" vs "drop (length vs) b" s]
        in \<open>auto simp: move_merge_adaptive_backward_def\<close>)
    ultimately show ?thesis
      using unfold second less.prems(3,7) by simp
  next
    case cut
    then have nonempty: "us \<noteq> []" "vs \<noteq> []" and long: "2 \<le> length us" "2 \<le> length vs"
      using less.prems(6) by (cases us; cases vs; auto)+
    then obtain j k where cuts: "merge_cuts cmp (p @ us @ vs @ s) f m r (length us) (length vs) = Some (f + j, m + k, j, k)"
        "j \<le> length us" "k \<le> length vs"
        "merge_impl cmp us vs = merge_impl cmp (take j us) (take k vs) @ merge_impl cmp (drop j us) (drop k vs)"
        "if length us > length vs then j = length us div 2 else k = length vs div 2"
      using merge_cuts_split [OF less.prems(1-5)] by blast
    have progress: "0 < j + k" "j + k < length us + length vs"
      using cuts(2,3,5) long by (auto split: if_splits)
    let ?a = "p @ take j us @ take k vs @ drop j us @ drop k vs @ s"
    have parts: "p @ us @ vs @ s = (p @ take j us) @ drop j us @ take k vs @ (drop k vs @ s)"
      by (metis append.assoc append_take_drop_id)
    obtain b1 where rot: "rotate_adaptive is_pod (p @ us @ vs @ s) (f + j) m (m + k) (length us - j) k b buffer_size =
        Some (?a, b1, f + j + k)" "length b1 = length b"
      using rotate_adaptive_rotates [of "f + j" "p @ take j us" m "drop j us" "m + k" "take k vs" buffer_size b is_pod
          "drop k vs @ s"] cuts(2,3) less.prems(1,2,7) unfolding parts by auto
    have "\<exists>b2. merge_adaptive is_pod cmp (p @ take j us @ take k vs @ (drop j us @ drop k vs @ s)) f (f + j) (f + j + k)
        (length (take j us)) (length (take k vs)) b1 buffer_size =
        Some (p @ merge_impl cmp (take j us) (take k vs) @ (drop j us @ drop k vs @ s), b2) \<and> length b2 = length b1"
      using progress cuts(2,3) less.prems rot(2) by (intro less.hyps) (simp_all add: sorted_wrt_take)
    then obtain b2 where b2: "merge_adaptive is_pod cmp ?a f (f + j) (f + j + k) j k b1 buffer_size =
        Some ((p @ merge_impl cmp (take j us) (take k vs)) @ drop j us @ drop k vs @ s, b2)" "length b2 = length b"
      using cuts(2,3) rot(2) by auto
    have "\<exists>b3. merge_adaptive is_pod cmp ((p @ merge_impl cmp (take j us) (take k vs)) @ drop j us @ drop k vs @ s)
        (f + j + k) (m + k) r (length (drop j us)) (length (drop k vs)) b2 buffer_size =
        Some ((p @ merge_impl cmp (take j us) (take k vs)) @ merge_impl cmp (drop j us) (drop k vs) @ s, b3) \<and>
        length b3 = length b2"
      using progress cuts(2,3) less.prems b2(2) by (intro less.hyps) (auto simp: sorted_wrt_drop)
    then show ?thesis
      using unfold cut cuts rot b2 by auto
  qed
qed

end

section \<open>Sorting\<close>

text \<open>What a stable sort has to yield: the elements inserted one after the other behind those not greater.\<close>

definition isort :: "('a \<Rightarrow> 'a \<Rightarrow> bool) \<Rightarrow> 'a list \<Rightarrow> 'a list" where
  "isort cmp xs = fold (\<lambda>x ys. merge_impl cmp ys [x]) xs []"

lemma isort_simps [simp]: "isort cmp [] = []" "isort cmp [x] = [x]"
    "isort cmp (xs @ [x]) = merge_impl cmp (isort cmp xs) [x]"
  by (simp_all add: isort_def)

lemma length_isort [simp]: "length (isort cmp xs) = length xs"
  by (induction xs rule: rev_induct) simp_all

text \<open>Sorting of consecutive chunks.\<close>

function map_chunks :: "('a list \<Rightarrow> 'a list) \<Rightarrow> nat \<Rightarrow> 'a list \<Rightarrow> 'a list" where
  "map_chunks f n xs = (if n = 0 \<or> xs = [] then [] else f (take n xs) @ map_chunks f n (drop n xs))"
  by pat_completeness auto
termination
  by (relation "measure (\<lambda>(f, n, xs). length xs)") auto

declare map_chunks.simps [simp del]

lemma map_chunks_Nil [simp]: "map_chunks f n [] = []"
  by (simp add: map_chunks.simps)

lemma map_chunks_step:
  assumes "0 < n" and "n \<le> length xs"
  shows "map_chunks f n xs = f (take n xs) @ map_chunks f n (drop n xs)"
  using assms map_chunks.simps [of f n xs] by auto

lemma map_chunks_short: "0 < n \<Longrightarrow> length xs \<le> n \<Longrightarrow> map_chunks (isort cmp) n xs = isort cmp xs"
  using map_chunks.simps [of "isort cmp" n xs] by auto

lemma length_map_chunks: "0 < n \<Longrightarrow> length (map_chunks (isort cmp) n xs) = length xs"
proof (induction "length xs" arbitrary: xs rule: less_induct)
  case less
  then show ?case
    by (cases "xs = []") (auto simp: map_chunks.simps [of _ _ xs])
qed

context strict_weak_ordering
begin

lemma sorted_isort: "sorted_seq cmp (isort cmp xs)"
  by (induction xs rule: rev_induct) (simp_all add: merge_sorted)

lemma group_isort: "group cmp v (isort cmp xs) = group cmp v xs"
  by (induction xs rule: rev_induct) (simp_all add: group_merge sorted_isort)

lemma isort_append: "isort cmp (xs @ ys) = merge_impl cmp (isort cmp xs) (isort cmp ys)"
  by (rule sorted_groups_unique) (simp_all add: sorted_isort merge_sorted group_isort group_merge)

lemma linear_insert_loop_merges:
  assumes "sorted_seq cmp ys" and "ys \<noteq> []" and "\<not> cmp v (hd ys)" and "i = length p + length ys"
  shows "linear_insert_loop cmp (p @ ys @ g # s) i v = Some (p @ merge_impl cmp ys [v] @ s)"
  using assms
proof (induction ys arbitrary: g s i rule: rev_induct)
  case (snoc y ys)
  obtain k where k: "i = Suc k" "k = length (p @ ys)"
    using snoc.prems(4) by (cases i) auto
  have get: "buf_get (p @ ys @ y # g # s) k = Some y"
    using buf_get_append [of k "p @ ys" y "g # s"] k by simp
  have put: "buf_put (p @ ys @ y # g # s) i z = Some (p @ ys @ y # z # s)" for z
    using buf_put_append [of i "p @ ys @ [y]" g s z] k by simp
  show ?case
  proof (cases "cmp v y")
    case True
    then have "ys \<noteq> []"
      using snoc.prems(3) by auto
    then have "linear_insert_loop cmp (p @ ys @ y # (y # s)) k v = Some (p @ merge_impl cmp ys [v] @ (y # s))"
      using snoc.prems k(2) by (intro snoc.IH) (simp_all add: sorted_wrt_append)
    moreover have "merge_impl cmp (ys @ [y]) [v] = merge_impl cmp ys [v] @ [y]"
      using merge_snoc_first [of "[]" v y ys] True by simp
    ultimately show ?thesis
      using True get put k(1) by simp
  next
    case False
    then show ?thesis
      using merge_snoc_second [of ys y v "[]"] snoc.prems(1) get put k(1) by simp
  qed
qed simp

lemma insertion_sort_loop_isort:
  assumes "f = length p" and "i = f + length xs" and "r = i + length zs" and "xs \<noteq> []"
  shows "insertion_sort_loop cmp (p @ isort cmp xs @ zs @ s) f r i = Some (p @ isort cmp (xs @ zs) @ s)"
  using assms
proof (induction zs arbitrary: xs i)
  case Nil
  then show ?case
    by (simp add: insertion_sort_loop.simps)
next
  case (Cons z zs)
  define ys where "ys = isort cmp xs"
  have "length ys = length xs"
    by (simp add: ys_def)
  then obtain y ys' where ys: "ys = y # ys'"
    using Cons.prems(4) by (cases ys) auto
  have i: "i = length (p @ ys)"
    using Cons.prems(1,2) \<open>length ys = length xs\<close> by simp
  then have get: "buf_get (p @ ys @ z # zs @ s) i = Some z" "buf_get (p @ ys @ z # zs @ s) f = Some y"
    using buf_get_append [of i "p @ ys" z "zs @ s"] buf_get_append [of f p y "ys' @ z # zs @ s"] Cons.prems(1) ys
    by (simp_all only: append_assoc append_Cons)
  have step: "(if cmp z y then do {
          a \<leftarrow> move_backward_n (p @ ys @ z # zs @ s) i (i + 1) (i - f);
          buf_put a f z }
        else unguarded_linear_insert cmp (p @ ys @ z # zs @ s) i) = Some (p @ merge_impl cmp ys [z] @ zs @ s)"
  proof (cases "cmp z y")
    case True
    have "move_backward_n (p @ ys @ z # zs @ s) i (i + 1) (i - f) = Some (p @ y # ys @ zs @ s)"
      using move_backward_n_up [of i p ys "i + 1" "i - f" z "zs @ s"] i ys Cons.prems(1)
      by (simp del: move_backward_n.simps)
    then show ?thesis
      using True ys Cons.prems(1) by (simp add: buf_put_append)
  next
    case False
    then show ?thesis
      using linear_insert_loop_merges [of ys z i p z "zs @ s"] get(1) ys Cons.prems(1,2) sorted_isort [of xs]
        \<open>length ys = length xs\<close> by (simp add: unguarded_linear_insert_def ys_def)
  qed
  have "insertion_sort_loop cmp (p @ ys @ z # zs @ s) f r i =
      insertion_sort_loop cmp (p @ merge_impl cmp ys [z] @ zs @ s) f r (i + 1)"
    unfolding insertion_sort_loop.simps [of cmp "p @ ys @ z # zs @ s"] get bind.bind_lunit step
    using Cons.prems(3) by simp
  moreover have "insertion_sort_loop cmp (p @ isort cmp (xs @ [z]) @ zs @ s) f r (i + 1) =
      Some (p @ isort cmp ((xs @ [z]) @ zs) @ s)"
    using Cons.prems by (intro Cons.IH) simp_all
  ultimately show ?case
    by (simp add: ys_def)
qed

lemma insertion_sort_isort:
  assumes "f = length p" and "r = f + length xs"
  shows "insertion_sort cmp (p @ xs @ s) f r = Some (p @ isort cmp xs @ s)"
proof (cases xs)
  case (Cons x xs')
  then show ?thesis
    using insertion_sort_loop_isort [of f p "f + 1" "[x]" r xs' s] assms by (simp add: insertion_sort_def)
qed (use assms in \<open>simp add: insertion_sort_def\<close>)

lemma inplace_stable_sort_isort:
  assumes "f = length p" and "r = f + length xs"
  shows "inplace_stable_sort is_pod cmp (p @ xs @ s) f r = Some (p @ isort cmp xs @ s)"
  using assms
proof (induction "length xs" arbitrary: p xs s f r rule: less_induct)
  case less
  show ?case
  proof (cases "r - f < 15")
    case True
    then show ?thesis
      using insertion_sort_isort [OF less.prems, of s] by (simp add: inplace_stable_sort.simps)
  next
    case False
    define k where "k = length xs div 2"
    have k: "k < length xs" "length xs - k < length xs" and m: "f + (r - f) div 2 = f + k"
      using False less.prems by (auto simp: k_def)
    have "inplace_stable_sort is_pod cmp (p @ take k xs @ (drop k xs @ s)) f (f + k) =
        Some (p @ isort cmp (take k xs) @ (drop k xs @ s))"
      using k less.prems by (intro less.hyps) simp_all
    moreover have "p @ take k xs @ drop k xs @ s = p @ xs @ s"
      by (metis append.assoc append_take_drop_id)
    moreover have "inplace_stable_sort is_pod cmp ((p @ isort cmp (take k xs)) @ drop k xs @ s) (f + k) r =
        Some ((p @ isort cmp (take k xs)) @ isort cmp (drop k xs) @ s)"
      using k less.prems by (intro less.hyps) simp_all
    moreover have "merge_without_buffer is_pod cmp (p @ isort cmp (take k xs) @ isort cmp (drop k xs) @ s) f (f + k) r k
        (r - (f + k)) = Some (p @ isort cmp xs @ s)"
      using merge_without_buffer_merges [of f p "f + k" "isort cmp (take k xs)" r "isort cmp (drop k xs)" is_pod s]
        k less.prems sorted_isort isort_append [of "take k xs" "drop k xs"] by simp
    ultimately show ?thesis
      using False m by (subst inplace_stable_sort.simps) simp
  qed
qed

lemma chunk_insertion_sort_isort:
  assumes "f = length p" and "r = f + length xs" and "0 < n"
  shows "chunk_insertion_sort cmp (p @ xs @ s) f r n = Some (p @ map_chunks (isort cmp) n xs @ s)"
  using assms
proof (induction "length xs" arbitrary: p xs f rule: less_induct)
  case less
  show ?case
  proof (cases "n \<le> length xs")
    case True
    have "insertion_sort cmp (p @ take n xs @ (drop n xs @ s)) f (f + n) =
        Some (p @ isort cmp (take n xs) @ (drop n xs @ s))"
      using True less.prems by (intro insertion_sort_isort) simp_all
    moreover have "p @ take n xs @ drop n xs @ s = p @ xs @ s"
      by (metis append.assoc append_take_drop_id)
    moreover have "chunk_insertion_sort cmp ((p @ isort cmp (take n xs)) @ drop n xs @ s) (f + n) r n =
        Some ((p @ isort cmp (take n xs)) @ map_chunks (isort cmp) n (drop n xs) @ s)"
      using True less.prems by (intro less.hyps) simp_all
    ultimately show ?thesis
      using True less.prems by (subst chunk_insertion_sort.simps) (simp add: map_chunks_step)
  next
    case False
    then show ?thesis
      using insertion_sort_isort [OF less.prems(1,2), of s] less.prems
      by (subst chunk_insertion_sort.simps) (simp add: map_chunks_short)
  qed
qed

lemma merge_sort_loop_isort:
  assumes "f = length p" and "r = f + length xs" and "0 < n" and "e = length q" and "length gs = length xs"
  shows "merge_sort_loop cmp (p @ map_chunks (isort cmp) n xs @ s) f r (q @ gs @ t) e n =
    Some (q @ map_chunks (isort cmp) (2 * n) xs @ t)"
  using assms
proof (induction "length xs" arbitrary: p q xs gs f e rule: less_induct)
  case less
  let ?a = "p @ map_chunks (isort cmp) n xs @ s"
  consider "2 * n \<le> length xs" | "n < length xs" "length xs < 2 * n" | "length xs \<le> n"
    by linarith
  then show ?case
  proof cases
    case 1
    define us vs ws where "us = isort cmp (take n xs)" and "vs = isort cmp (take n (drop n xs))"
      and "ws = map_chunks (isort cmp) n (drop (2 * n) xs)"
    have lens: "length us = n" "length vs = n"
      using 1 by (simp_all add: us_def vs_def)
    have a: "?a = p @ us @ [] @ vs @ (ws @ s)"
      using 1 less.prems(3) by (simp add: map_chunks_step us_def vs_def ws_def mult_2)
    have merged: "merge_impl cmp us vs = isort cmp (take (2 * n) xs)"
      using isort_append [of "take n xs" "take n (drop n xs)"] by (simp add: us_def vs_def take_add mult_2)
    have "move_merge cmp (p @ us @ [] @ vs @ (ws @ s)) f (f + n) (f + n) (f + 2 * n)
        (q @ take (2 * n) gs @ (drop (2 * n) gs @ t)) e =
        Some (q @ isort cmp (take (2 * n) xs) @ (drop (2 * n) gs @ t), e + n + n)"
      using move_merge_merges [of f p "f + n" us "f + n" "[]" "f + 2 * n" vs e q "take (2 * n) gs" cmp
          "ws @ s" "drop (2 * n) gs @ t"] 1 lens less.prems merged by simp
    moreover have "take (2 * n) gs @ drop (2 * n) gs @ t = gs @ t"
      by (metis append.assoc append_take_drop_id)
    moreover have "merge_sort_loop cmp ((p @ us @ vs) @ ws @ s) (f + 2 * n) r
        ((q @ isort cmp (take (2 * n) xs)) @ drop (2 * n) gs @ t) (e + n + n) n =
        Some ((q @ isort cmp (take (2 * n) xs)) @ map_chunks (isort cmp) (2 * n) (drop (2 * n) xs) @ t)"
      unfolding ws_def using 1 lens less.prems by (intro less.hyps) simp_all
    moreover have "map_chunks (isort cmp) (2 * n) xs =
        isort cmp (take (2 * n) xs) @ map_chunks (isort cmp) (2 * n) (drop (2 * n) xs)"
      using 1 less.prems(3) by (intro map_chunks_step) simp_all
    ultimately show ?thesis
      using 1 less.prems(2) unfolding a
      by (subst merge_sort_loop.simps) (simp add: Let_def)
  next
    case 2
    define us vs where "us = isort cmp (take n xs)" and "vs = isort cmp (drop n xs)"
    have lens: "length us = n" "length vs = length xs - n"
      using 2 by (simp_all add: us_def vs_def)
    have a: "?a = p @ us @ [] @ vs @ s"
      using 2 less.prems(3) by (simp add: map_chunks_step map_chunks_short us_def vs_def)
    have "merge_impl cmp us vs = isort cmp xs"
      using isort_append [of "take n xs" "drop n xs"] by (simp add: us_def vs_def)
    then have "move_merge cmp ?a f (f + n) (f + n) r (q @ gs @ t) e = Some (q @ isort cmp xs @ t, e + length xs)"
      unfolding a using move_merge_merges [of f p "f + n" us "f + n" "[]" r vs e q gs cmp s t] 2 lens less.prems by simp
    then show ?thesis
      using 2 less.prems by (subst merge_sort_loop.simps) (simp add: map_chunks_short Let_def min_def)
  next
    case 3
    then have "move_merge cmp ?a f r r r (q @ gs @ t) e = Some (q @ isort cmp xs @ t, e + length xs)"
      using move_merge_merges [of f p r "isort cmp xs" r "[]" r "[]" e q gs cmp s t] less.prems
      by (simp add: map_chunks_short)
    then show ?thesis
      using 3 less.prems by (subst merge_sort_loop.simps) (simp add: map_chunks_short Let_def min_def)
  qed
qed

lemma merge_sort_steps_isort:
  assumes "f = length p" and "r = f + length xs" and "0 < n" and "length xs \<le> length b"
  shows "\<exists>b'. merge_sort_steps cmp (p @ map_chunks (isort cmp) n xs @ s) f r b n = Some (p @ isort cmp xs @ s, b') \<and>
    length b' = length b"
  using assms
proof (induction "length xs - n" arbitrary: b n rule: less_induct)
  case less
  show ?case
  proof (cases "n < length xs")
    case True
    let ?b = "map_chunks (isort cmp) (2 * n) xs @ drop (length xs) b"
    have "merge_sort_loop cmp (p @ map_chunks (isort cmp) n xs @ s) f r b 0 n = Some ?b"
      using merge_sort_loop_isort [of f p r xs n 0 "[]" "take (length xs) b" s "drop (length xs) b"] less.prems by simp
    moreover have "merge_sort_loop cmp ?b 0 (length xs) (p @ map_chunks (isort cmp) n xs @ s) f (2 * n) =
        Some (p @ map_chunks (isort cmp) (4 * n) xs @ s)"
      using merge_sort_loop_isort [of 0 "[]" "length xs" xs "2 * n" f p "map_chunks (isort cmp) n xs"
          "drop (length xs) b" s] less.prems by (simp add: length_map_chunks)
    moreover have "\<exists>b'. merge_sort_steps cmp (p @ map_chunks (isort cmp) (4 * n) xs @ s) f r ?b (4 * n) =
        Some (p @ isort cmp xs @ s, b') \<and> length b' = length ?b"
      using True less.prems by (intro less.hyps) (simp_all add: length_map_chunks)
    ultimately show ?thesis
      using True less.prems by (subst merge_sort_steps.simps) (auto simp: Let_def length_map_chunks mult.commute)
  next
    case False
    then show ?thesis
      using less.prems by (subst merge_sort_steps.simps) (simp add: map_chunks_short)
  qed
qed

lemma merge_sort_with_buffer_isort:
  assumes "f = length p" and "r = f + length xs" and "length xs \<le> length b"
  shows "\<exists>b'. merge_sort_with_buffer cmp (p @ xs @ s) f r b = Some (p @ isort cmp xs @ s, b') \<and> length b' = length b"
  using chunk_insertion_sort_isort [OF assms(1,2), of S_chunk_size s] merge_sort_steps_isort [OF assms(1,2) _ assms(3)]
  by (simp add: merge_sort_with_buffer_def S_chunk_size_def)

lemma stable_sort_adaptive_isort:
  assumes "f = length p" and "r = f + length xs" and "0 < buffer_size" and "buffer_size \<le> length b"
  shows "\<exists>b'. stable_sort_adaptive is_pod cmp (p @ xs @ s) f r b buffer_size = Some (p @ isort cmp xs @ s, b') \<and>
    length b' = length b"
  using assms
proof (induction "length xs" arbitrary: p xs s f r b rule: less_induct)
  case less
  define k where "k = (length xs + 1) div 2"
  have k: "k \<le> length xs" "length xs - k \<le> k"
    by (simp_all add: k_def)
  define us vs where "us = take k xs" and "vs = drop k xs"
  have xs: "p @ xs @ s = p @ us @ (vs @ s)" and lens: "length us = k" "length vs = length xs - k"
    using k by (simp_all add: us_def vs_def)
  have "\<exists>b'. (if k > buffer_size then do {
        (a, b) \<leftarrow> stable_sort_adaptive is_pod cmp (p @ us @ (vs @ s)) f (f + k) b buffer_size;
        stable_sort_adaptive is_pod cmp a (f + k) r b buffer_size }
      else do {
        (a, b) \<leftarrow> merge_sort_with_buffer cmp (p @ us @ (vs @ s)) f (f + k) b;
        merge_sort_with_buffer cmp a (f + k) r b }) = Some (p @ isort cmp us @ isort cmp vs @ s, b') \<and> length b' = length b"
  proof (cases "k > buffer_size")
    case True
    then have shorter: "length us < length xs" "length vs < length xs"
      using less.prems(3) lens by (auto simp: k_def)
    obtain b1 where b1: "stable_sort_adaptive is_pod cmp (p @ us @ (vs @ s)) f (f + k) b buffer_size =
        Some ((p @ isort cmp us) @ vs @ s, b1)" "length b1 = length b"
      using less.hyps [OF shorter(1) less.prems(1), of "f + k" b "vs @ s"] less.prems lens by auto
    obtain b2 where "stable_sort_adaptive is_pod cmp ((p @ isort cmp us) @ vs @ s) (f + k) r b1 buffer_size =
        Some ((p @ isort cmp us) @ isort cmp vs @ s, b2)" "length b2 = length b1"
      using less.hyps [OF shorter(2), of "f + k" "p @ isort cmp us" r b1 s] less.prems lens b1(2) k by auto
    then show ?thesis
      using True b1 by simp
  next
    case False
    obtain b1 where b1: "merge_sort_with_buffer cmp (p @ us @ (vs @ s)) f (f + k) b =
        Some ((p @ isort cmp us) @ vs @ s, b1)" "length b1 = length b"
      using merge_sort_with_buffer_isort [of f p "f + k" us b "vs @ s"] False less.prems lens by auto
    obtain b2 where "merge_sort_with_buffer cmp ((p @ isort cmp us) @ vs @ s) (f + k) r b1 =
        Some ((p @ isort cmp us) @ isort cmp vs @ s, b2)" "length b2 = length b1"
      using merge_sort_with_buffer_isort [of "f + k" "p @ isort cmp us" r vs b1 s] False less.prems lens b1(2) k by auto
    then show ?thesis
      using False b1 by simp
  qed
  then obtain b1 where parts: "(if k > buffer_size then do {
        (a, b) \<leftarrow> stable_sort_adaptive is_pod cmp (p @ xs @ s) f (f + k) b buffer_size;
        stable_sort_adaptive is_pod cmp a (f + k) r b buffer_size }
      else do {
        (a, b) \<leftarrow> merge_sort_with_buffer cmp (p @ xs @ s) f (f + k) b;
        merge_sort_with_buffer cmp a (f + k) r b }) = Some (p @ isort cmp us @ isort cmp vs @ s, b1)" "length b1 = length b"
    unfolding xs by blast
  have merged: "merge_impl cmp (isort cmp us) (isort cmp vs) = isort cmp xs"
    using isort_append [of us vs] by (simp add: us_def vs_def)
  have "\<exists>b'. merge_adaptive is_pod cmp (p @ isort cmp us @ isort cmp vs @ s) f (f + k) r (length (isort cmp us))
      (length (isort cmp vs)) b1 buffer_size = Some (p @ merge_impl cmp (isort cmp us) (isort cmp vs) @ s, b') \<and>
      length b' = length b1"
    using less.prems lens k parts(2) by (intro merge_adaptive_merges) (simp_all add: sorted_isort)
  then have "\<exists>b'. merge_adaptive is_pod cmp (p @ isort cmp us @ isort cmp vs @ s) f (f + k) r (f + k - f) (r - (f + k))
      b1 buffer_size = Some (p @ isort cmp xs @ s, b') \<and> length b' = length b"
    unfolding merged using lens less.prems(2) k(1) parts(2) by simp
  moreover have half: "(r - f + 1) div 2 = k"
    using less.prems(2) by (simp add: k_def)
  have "stable_sort_adaptive is_pod cmp (p @ xs @ s) f r b buffer_size =
      merge_adaptive is_pod cmp (p @ isort cmp us @ isort cmp vs @ s) f (f + k) r (f + k - f) (r - (f + k)) b1 buffer_size"
    unfolding stable_sort_adaptive.simps [of is_pod cmp "p @ xs @ s" f r b buffer_size] Let_def half parts(1)
      bind.bind_lunit prod.case by (rule refl)
  ultimately show ?case
    by (simp only:)
qed

end

lemma mset_merge: "mset (merge_impl cmp xs ys) = mset xs + mset ys"
  by (induction cmp xs ys rule: merge_impl.induct) auto

lemma mset_isort: "mset (isort cmp xs) = mset xs"
  by (induction xs rule: rev_induct) (simp_all add: mset_merge)

section \<open>Properties\<close>

text \<open>
  C4. \<open>std::stable_sort\<close> sorts any range for every strict weak ordering and keeps the
  order of equivalent elements, whatever the size of the buffer it gets, if it gets one, and whatever
  the buffer held before. It terminates, stays inside the range and the buffer, and leaves everything
  outside the range alone.
\<close>

theorem stable_sort_stable:
  assumes "strict_weak_ordering cmp" and "first \<le> stop" and "stop \<le> length a"
  shows "\<exists>ys. stable_sort alloc max_len junk is_pod cmp a first stop = Some (take first a @ ys @ drop stop a) \<and>
    sorted_seq cmp ys \<and> mset ys = mset (slice a first stop) \<and>
    (\<forall>v. group cmp v ys = group cmp v (slice a first stop))"
proof -
  define p xs s buf where "p = take first a" and "xs = slice a first stop" and "s = drop stop a"
    and "buf = Temporary_buffer alloc max_len junk first stop"
  have a: "a = p @ xs @ s" and lens: "first = length p" "stop = first + length xs"
    using split_slice [OF assms(2,3)] assms(2,3) by (simp_all add: p_def xs_def s_def)
  have "stable_sort alloc max_len junk is_pod cmp a first stop = Some (p @ isort cmp xs @ s)"
  proof (cases "buf = []")
    case True
    then show ?thesis
      using strict_weak_ordering.inplace_stable_sort_isort [OF assms(1) lens, of is_pod s] a
      by (simp add: stable_sort_def stable_sort_impl_def buf_def)
  next
    case False
    then have "0 < length buf"
      by simp
    then show ?thesis
      using strict_weak_ordering.stable_sort_adaptive_isort [OF assms(1) lens _ order_refl, of buf is_pod s] a False
      by (auto simp: stable_sort_def stable_sort_impl_def simp flip: buf_def)
  qed
  then show ?thesis
    using strict_weak_ordering.sorted_isort [OF assms(1)] strict_weak_ordering.group_isort [OF assms(1)]
    by (auto simp: mset_isort p_def xs_def s_def)
qed

theorem stable_sort_stable_witness:
  "\<exists>ys. stable_sort (\<lambda>n. n < 2) 100 (\<lambda>i. 0) True iter_less_iter [5, 3, 4, 1, 2 :: int] 1 4 = Some ([5] @ ys @ [2]) \<and>
    sorted_seq iter_less_iter ys \<and> mset ys = mset [3, 4, 1] \<and>
    (\<forall>v. group iter_less_iter v ys = group iter_less_iter v [3, 4, 1])"
  using stable_sort_stable [OF less.strict_weak_ordering_axioms, of 1 4 "[5, 3, 4, 1, 2 :: int]" "\<lambda>n. n < 2" 100 "\<lambda>i. 0" True]
  by (simp add: slice_def)

text \<open>
  C17. \<open>std::inplace_merge\<close> of two adjacent sorted ranges leaves what \<open>std::merge\<close> of
  the two writes, with any buffer or none, and nothing else changes.
\<close>

theorem inplace_merge_is_merge:
  assumes "strict_weak_ordering cmp" and "first \<le> middle" and "middle \<le> stop" and "stop \<le> length a"
    and "sorted_range cmp a first middle" and "sorted_range cmp a middle stop"
  shows "inplace_merge alloc max_len junk is_pod cmp a first middle stop =
    Some (take first a @ merge cmp (slice a first middle) (slice a middle stop) @ drop stop a)"
proof -
  define p us vs s buf where "p = take first a" and "us = slice a first middle" and "vs = slice a middle stop"
    and "s = drop stop a" and "buf = Temporary_buffer alloc max_len junk first stop"
  have a: "a = p @ us @ vs @ s"
    and lens: "first = length p" "middle = first + length us" "stop = middle + length vs"
    using split_slices [OF assms(2-4)] assms(2-4) by (simp_all add: p_def us_def vs_def s_def)
  have sorted: "sorted_seq cmp us" "sorted_seq cmp vs"
    using assms(5,6) sorted_range_append [OF lens(1,2), of cmp "vs @ s"]
      sorted_range_append [of middle "p @ us" stop vs cmp s] lens a by simp_all
  have "inplace_merge alloc max_len junk is_pod cmp a first middle stop = Some (p @ merge cmp us vs @ s)"
  proof (cases "us = [] \<or> vs = []")
    case True
    then show ?thesis
      using lens a by (auto simp: inplace_merge_def inplace_merge_impl_def merge_def)
  next
    case False
    then have "first \<noteq> middle" "middle \<noteq> stop" "middle - first = length us" "stop - middle = length vs"
      using lens by simp_all
    note impl = this strict_weak_ordering.merge_without_buffer_merges [OF assms(1) lens sorted, of is_pod s]
      strict_weak_ordering.merge_adaptive_merges [OF assms(1) lens sorted _ order_refl, of buf is_pod s]
    show ?thesis
      using impl a by (cases "buf = []")
        (auto simp: inplace_merge_def inplace_merge_impl_def merge_def Let_def simp flip: buf_def)
  qed
  then show ?thesis
    by (simp add: p_def us_def vs_def s_def)
qed

theorem inplace_merge_is_merge_witness:
  "inplace_merge (\<lambda>n. False) 100 (\<lambda>i. 0) False iter_less_iter [9, 1, 4, 2, 3, 0 :: int] 1 3 5 = Some [9, 1, 2, 3, 4, 0]"
proof -
  have "sorted_range iter_less_iter [9, 1, 4, 2, 3, 0 :: int] 1 3" "sorted_range iter_less_iter [9, 1, 4, 2, 3, 0 :: int] 3 5"
    using sorted_range_append [of 1 "[9]" 3 "[1, 4 :: int]" iter_less_iter "[2, 3, 0]"]
      sorted_range_append [of 3 "[9, 1, 4]" 5 "[2, 3 :: int]" iter_less_iter "[0]"] by (simp_all add: iter_less_iter_def)
  then show ?thesis
    using inplace_merge_is_merge [OF less.strict_weak_ordering_axioms, of 1 3 5 "[9, 1, 4, 2, 3, 0 :: int]"
        "\<lambda>n. False" 100 "\<lambda>i. 0" False]
    by (simp add: slice_def merge_def iter_less_iter_def)
qed

end
