(* ===== verification/Stl_Partition.thy ===== *)
theory Stl_Partition
  imports Stl_Stable
begin

text \<open>
  Partitioning and removal of \<open>stl_algo.h\<close>: \<open>partition\<close> for forward and for bidirectional iterators,
  \<open>stable_partition\<close> with its buffer, \<open>remove_if\<close> and \<open>unique\<close>.
\<close>

section \<open>Definitions\<close>

subsection \<open>Partition\<close>

text \<open>The loop that skips elements with the predicate; \<open>__partition\<close> has it for both categories.\<close>

function partition_skip :: "('a \<Rightarrow> bool) \<Rightarrow> 'a list \<Rightarrow> nat \<Rightarrow> nat \<Rightarrow> nat option" where
  "partition_skip p a first stop =
     (if first = stop then Some first
      else (case buf_get a first of None \<Rightarrow> None
          | Some x \<Rightarrow> if p x then partition_skip p a (first + 1) stop else Some first))"
  by pat_completeness auto
termination
  by (relation "measure (\<lambda>(p, a, first, stop). length a - first)")
    (auto simp: buf_get_def split: if_splits)

function partition_next :: "('a \<Rightarrow> bool) \<Rightarrow> 'a list \<Rightarrow> nat \<Rightarrow> nat \<Rightarrow> nat \<Rightarrow> ('a list \<times> nat) option" where
  "partition_next p a first nxt stop =
     (if nxt = stop then Some (a, first)
      else (case buf_get a nxt of None \<Rightarrow> None
          | Some x \<Rightarrow>
              if p x then (case iter_swap a first nxt of None \<Rightarrow> None
                  | Some a \<Rightarrow> partition_next p a (first + 1) (nxt + 1) stop)
              else partition_next p a first (nxt + 1) stop))"
  by pat_completeness auto
termination
  by (relation "measure (\<lambda>(p, a, first, nxt, stop). length a - nxt)")
    (auto simp: iter_swap_def buf_get_def buf_put_def bind_eq_Some_conv split: if_splits)

definition partition_forward :: "('a \<Rightarrow> bool) \<Rightarrow> 'a list \<Rightarrow> nat \<Rightarrow> nat \<Rightarrow> ('a list \<times> nat) option" where
  "partition_forward p a first stop = do {
     first \<leftarrow> partition_skip p a first stop;
     if first = stop then Some (a, first) else partition_next p a first (first + 1) stop }"

fun partition_down :: "('a \<Rightarrow> bool) \<Rightarrow> 'a list \<Rightarrow> nat \<Rightarrow> nat \<Rightarrow> nat option" where
  "partition_down p a first l =
     (if first = l then Some l
      else do {
        x \<leftarrow> buf_get a l;
        if \<not> p x then (case l of 0 \<Rightarrow> None | Suc l \<Rightarrow> partition_down p a first l) else Some l })"

declare partition_skip.simps [simp del] partition_next.simps [simp del] partition_down.simps [simp del]

lemma partition_down_le: "partition_down p a first l = Some k \<Longrightarrow> k \<le> l"
proof (induction l)
  case 0
  then show ?case
    by (subst (asm) partition_down.simps) (auto simp: bind_eq_Some_conv split: if_splits)
next
  case (Suc l)
  then show ?case
    by (subst (asm) partition_down.simps) (fastforce simp: bind_eq_Some_conv split: if_splits)
qed

function partition_bidirectional :: "('a \<Rightarrow> bool) \<Rightarrow> 'a list \<Rightarrow> nat \<Rightarrow> nat \<Rightarrow> ('a list \<times> nat) option" where
  "partition_bidirectional p a first stop =
     (case partition_skip p a first stop of None \<Rightarrow> None
      | Some first \<Rightarrow>
          if first = stop then Some (a, first)
          else (case stop of 0 \<Rightarrow> None
              | Suc l \<Rightarrow> (case partition_down p a first l of None \<Rightarrow> None
                  | Some l \<Rightarrow>
                      if first = l then Some (a, first)
                      else (case iter_swap a first l of None \<Rightarrow> None
                          | Some a \<Rightarrow> partition_bidirectional p a (first + 1) l))))"
  by pat_completeness auto
termination
  by (relation "measure (\<lambda>(p, a, first, stop). stop)") (auto dest!: partition_down_le)

definition partition_range :: "('a \<Rightarrow> bool) \<Rightarrow> 'a list \<Rightarrow> nat \<Rightarrow> nat \<Rightarrow> ('a list \<times> nat) option" where
  "partition_range p a first stop = partition_bidirectional p a first stop"

subsection \<open>Stable partition\<close>

fun find_if_not_n :: "('a \<Rightarrow> bool) \<Rightarrow> 'a list \<Rightarrow> nat \<Rightarrow> nat \<Rightarrow> (nat \<times> nat) option" where
  "find_if_not_n p a first 0 = Some (first, 0)"
| "find_if_not_n p a first (Suc len) = do {
     x \<leftarrow> buf_get a first;
     if \<not> p x then Some (first, Suc len) else find_if_not_n p a (first + 1) len }"

text \<open>The loop with a buffer: elements with the predicate stay in \<open>a\<close>, the others go to \<open>b\<close>.\<close>

function stable_partition_loop :: "('a \<Rightarrow> bool) \<Rightarrow> 'a list \<Rightarrow> nat \<Rightarrow> nat \<Rightarrow> nat \<Rightarrow> 'a list \<Rightarrow> nat \<Rightarrow>
    ('a list \<times> nat \<times> 'a list \<times> nat) option" where
  "stable_partition_loop p a first stop result1 b result2 =
     (if first < stop then do {
        x \<leftarrow> buf_get a first;
        if p x then do {
          a \<leftarrow> buf_put a result1 x;
          stable_partition_loop p a (first + 1) stop (result1 + 1) b result2 }
        else do {
          b \<leftarrow> buf_put b result2 x;
          stable_partition_loop p a (first + 1) stop result1 b (result2 + 1) } }
      else Some (a, result1, b, result2))"
  by pat_completeness auto
termination
  by (relation "measure (\<lambda>(p, a, first, stop, result1, b, result2). stop - first)") auto

partial_function (option) stable_partition_adaptive :: "bool \<Rightarrow> ('a \<Rightarrow> bool) \<Rightarrow> 'a list \<Rightarrow> nat \<Rightarrow> nat \<Rightarrow> nat \<Rightarrow>
    'a list \<Rightarrow> nat \<Rightarrow> ('a list \<times> 'a list \<times> nat) option" where
  "stable_partition_adaptive is_pod p a first stop len b buffer_size =
     (if len = 1 then Some (a, b, first)
      else if len \<le> buffer_size then do {
        x \<leftarrow> buf_get a first;
        b \<leftarrow> buf_put b 0 x;
        (a, result1, b, result2) \<leftarrow> stable_partition_loop p a (first + 1) stop first b 1;
        a \<leftarrow> move_across b 0 a result1 result2;
        Some (a, b, result1) }
      else do {
        let middle = first + len div 2;
        (a, b, left_split) \<leftarrow> stable_partition_adaptive is_pod p a first middle (len div 2) b buffer_size;
        (right_split, right_len) \<leftarrow> find_if_not_n p a middle (len - len div 2);
        (a, b, right_split) \<leftarrow> (if right_len \<noteq> 0
            then stable_partition_adaptive is_pod p a right_split stop right_len b buffer_size
            else Some (a, b, right_split));
        (a, _) \<leftarrow> rotate_range is_pod a left_split middle right_split;
        Some (a, b, left_split + (right_split - middle)) })"

definition stable_partition_impl :: "(nat \<Rightarrow> bool) \<Rightarrow> nat \<Rightarrow> (nat \<Rightarrow> 'a) \<Rightarrow> bool \<Rightarrow> ('a \<Rightarrow> bool) \<Rightarrow>
    'a list \<Rightarrow> nat \<Rightarrow> nat \<Rightarrow> ('a list \<times> nat) option" where
  "stable_partition_impl alloc max_len junk is_pod p a first stop = do {
     first \<leftarrow> find_if_not_impl p a first stop;
     if first = stop then Some (a, first)
     else do {
       let buf = Temporary_buffer alloc max_len junk first stop;
       (a, _, i) \<leftarrow> stable_partition_adaptive is_pod p a first stop (stop - first) buf (length buf);
       Some (a, i) } }"

definition stable_partition :: "(nat \<Rightarrow> bool) \<Rightarrow> nat \<Rightarrow> (nat \<Rightarrow> 'a) \<Rightarrow> bool \<Rightarrow> ('a \<Rightarrow> bool) \<Rightarrow>
    'a list \<Rightarrow> nat \<Rightarrow> nat \<Rightarrow> ('a list \<times> nat) option" where
  "stable_partition alloc max_len junk is_pod p a first stop =
     stable_partition_impl alloc max_len junk is_pod p a first stop"

subsection \<open>Removal\<close>

function remove_if_loop :: "('a \<Rightarrow> bool) \<Rightarrow> 'a list \<Rightarrow> nat \<Rightarrow> nat \<Rightarrow> nat \<Rightarrow> ('a list \<times> nat) option" where
  "remove_if_loop p a first stop result =
     (if first < stop then do {
        x \<leftarrow> buf_get a first;
        if \<not> p x then do {
          a \<leftarrow> buf_put a result x;
          remove_if_loop p a (first + 1) stop (result + 1) }
        else remove_if_loop p a (first + 1) stop result }
      else Some (a, result))"
  by pat_completeness auto
termination
  by (relation "measure (\<lambda>(p, a, first, stop, result). stop - first)") auto

definition remove_if_impl :: "('a \<Rightarrow> bool) \<Rightarrow> 'a list \<Rightarrow> nat \<Rightarrow> nat \<Rightarrow> ('a list \<times> nat) option" where
  "remove_if_impl p a first stop = do {
     first \<leftarrow> find_if_impl p a first stop;
     if first = stop then Some (a, first) else remove_if_loop p a (first + 1) stop first }"

definition remove_value :: "'a list \<Rightarrow> nat \<Rightarrow> nat \<Rightarrow> 'a \<Rightarrow> ('a list \<times> nat) option" where
  "remove_value a first stop v = remove_if_impl (\<lambda>x. x = v) a first stop"

definition remove_if :: "('a \<Rightarrow> bool) \<Rightarrow> 'a list \<Rightarrow> nat \<Rightarrow> nat \<Rightarrow> ('a list \<times> nat) option" where
  "remove_if p a first stop = remove_if_impl p a first stop"

function unique_loop :: "('a \<Rightarrow> 'a \<Rightarrow> bool) \<Rightarrow> 'a list \<Rightarrow> nat \<Rightarrow> nat \<Rightarrow> nat \<Rightarrow> ('a list \<times> nat) option" where
  "unique_loop bp a first stop dest =
     (if first + 1 < stop then do {
        x \<leftarrow> buf_get a dest;
        y \<leftarrow> buf_get a (first + 1);
        if \<not> bp x y then do {
          a \<leftarrow> buf_put a (dest + 1) y;
          unique_loop bp a (first + 1) stop (dest + 1) }
        else unique_loop bp a (first + 1) stop dest }
      else Some (a, dest + 1))"
  by pat_completeness auto
termination
  by (relation "measure (\<lambda>(bp, a, first, stop, dest). stop - first)") auto

definition unique_impl :: "('a \<Rightarrow> 'a \<Rightarrow> bool) \<Rightarrow> 'a list \<Rightarrow> nat \<Rightarrow> nat \<Rightarrow> ('a list \<times> nat) option" where
  "unique_impl bp a first stop = do {
     first \<leftarrow> adjacent_find_impl bp a first stop;
     if first = stop then Some (a, stop) else unique_loop bp a (first + 1) stop first }"

definition unique_equal :: "'a list \<Rightarrow> nat \<Rightarrow> nat \<Rightarrow> ('a list \<times> nat) option" where
  "unique_equal a first stop = unique_impl (=) a first stop"

definition unique :: "('a \<Rightarrow> 'a \<Rightarrow> bool) \<Rightarrow> 'a list \<Rightarrow> nat \<Rightarrow> nat \<Rightarrow> ('a list \<times> nat) option" where
  "unique bp a first stop = unique_impl bp a first stop"

declare partition_bidirectional.simps [simp del] stable_partition_loop.simps [simp del]
  remove_if_loop.simps [simp del] unique_loop.simps [simp del]

section \<open>Partition\<close>

lemma partition_skip_takeWhile:
  assumes "f = length q" and "r = f + length xs"
  shows "partition_skip p (q @ xs @ s) f r = Some (f + length (takeWhile p xs))"
  using assms
proof (induction xs arbitrary: q f)
  case (Cons x xs)
  have "partition_skip p ((q @ [x]) @ xs @ s) (f + 1) r = Some (f + 1 + length (takeWhile p xs))"
    using Cons.prems by (intro Cons.IH) simp_all
  then show ?case
    using Cons.prems by (subst partition_skip.simps) (simp add: buf_get_append)
qed (simp add: partition_skip.simps)

lemma partition_next_parts:
  assumes "f = length (q @ ts)" and "k = f + length fs" and "r = k + length ys" and "fs \<noteq> []"
    and "list_all p ts" and "list_all (\<lambda>x. \<not> p x) fs"
  shows "\<exists>ts' fs'. partition_next p (q @ ts @ fs @ ys @ s) f k r = Some (q @ ts' @ fs' @ s, length (q @ ts')) \<and>
    list_all p ts' \<and> list_all (\<lambda>x. \<not> p x) fs' \<and> mset (ts' @ fs') = mset (ts @ fs @ ys)"
  using assms
proof (induction ys arbitrary: ts fs f k)
  case Nil
  then show ?case
    by (auto simp: partition_next.simps)
next
  case (Cons y ys)
  have get: "buf_get (q @ ts @ fs @ y # ys @ s) k = Some y"
    using buf_get_append [of k "q @ ts @ fs" y "ys @ s"] Cons.prems by simp
  show ?case
  proof (cases "p y")
    case True
    obtain g gs where fs: "fs = g # gs"
      using Cons.prems(4) by (cases fs) auto
    have "iter_swap (q @ ts @ fs @ y # ys @ s) f k = Some (q @ (ts @ [y]) @ (gs @ [g]) @ ys @ s)"
      using iter_swap_append [of f "q @ ts" k gs g y "ys @ s"] Cons.prems fs by simp
    moreover have "\<exists>ts' fs'. partition_next p (q @ (ts @ [y]) @ (gs @ [g]) @ ys @ s) (f + 1) (k + 1) r =
        Some (q @ ts' @ fs' @ s, length (q @ ts')) \<and> list_all p ts' \<and> list_all (\<lambda>x. \<not> p x) fs' \<and>
        mset (ts' @ fs') = mset ((ts @ [y]) @ (gs @ [g]) @ ys)"
      using Cons.prems fs True by (intro Cons.IH) simp_all
    ultimately show ?thesis
      using True get fs Cons.prems(3) by (subst partition_next.simps) (simp add: add_mset_commute)
  next
    case False
    have "\<exists>ts' fs'. partition_next p (q @ ts @ (fs @ [y]) @ ys @ s) f (k + 1) r =
        Some (q @ ts' @ fs' @ s, length (q @ ts')) \<and> list_all p ts' \<and> list_all (\<lambda>x. \<not> p x) fs' \<and>
        mset (ts' @ fs') = mset (ts @ (fs @ [y]) @ ys)"
      using Cons.prems False by (intro Cons.IH) simp_all
    then show ?thesis
      using False get Cons.prems(3) by (subst partition_next.simps) simp
  qed
qed

lemma list_all_takeWhile [simp]: "list_all p (takeWhile p xs)"
  by (induction xs) simp_all

lemma takeWhile_cases:
  obtains (all) "list_all p xs" "length (takeWhile p xs) = length xs"
    | (stopped) ts y ys where "xs = ts @ y # ys" "list_all p ts" "\<not> p y" "takeWhile p xs = ts"
proof (cases "dropWhile p xs")
  case Nil
  then have "takeWhile p xs = xs"
    using takeWhile_dropWhile_id [of p xs] by simp
  then show ?thesis
    using all list_all_takeWhile [of p xs] by (simp only:)
next
  case (Cons y ys)
  then show ?thesis
    using stopped [of "takeWhile p xs" y ys] takeWhile_dropWhile_id [of p xs] hd_dropWhile [of p xs] by simp
qed

lemma partition_forward_parts:
  assumes "f = length q" and "r = f + length xs"
  shows "\<exists>ts fs. partition_forward p (q @ xs @ s) f r = Some (q @ ts @ fs @ s, length (q @ ts)) \<and>
    list_all p ts \<and> list_all (\<lambda>x. \<not> p x) fs \<and> mset (ts @ fs) = mset xs"
proof (cases p xs rule: takeWhile_cases)
  case all
  then have "partition_forward p (q @ xs @ s) f r = Some (q @ xs @ [] @ s, length (q @ xs))"
    using partition_skip_takeWhile [OF assms, of p s] assms by (simp add: partition_forward_def)
  moreover have "mset (xs @ []) = mset xs" "list_all (\<lambda>x. \<not> p x) []"
    by simp_all
  ultimately show ?thesis
    using all(1) by blast
next
  case (stopped ts y ys)
  have "partition_skip p (q @ xs @ s) f r = Some (f + length ts)"
    using partition_skip_takeWhile [OF assms, of p s] stopped(4) by simp
  moreover have "\<exists>ts' fs'. partition_next p (q @ ts @ [y] @ ys @ s) (f + length ts) (f + length ts + 1) r =
      Some (q @ ts' @ fs' @ s, length (q @ ts')) \<and> list_all p ts' \<and> list_all (\<lambda>x. \<not> p x) fs' \<and>
      mset (ts' @ fs') = mset (ts @ [y] @ ys)"
    using assms stopped(1-3) by (intro partition_next_parts) simp_all
  moreover have "f + length ts \<noteq> r"
    using assms stopped(1) by simp
  ultimately show ?thesis
    unfolding stopped(1) by (simp add: partition_forward_def)
qed

lemma partition_down_skip:
  assumes "list_all (\<lambda>x. \<not> p x) zs" and "f \<le> k" and "l = k + length zs" and "Suc k = length u"
  shows "partition_down p (u @ zs @ s) f l = partition_down p (u @ zs @ s) f k"
  using assms
proof (induction zs arbitrary: s l rule: rev_induct)
  case (snoc z zs)
  have get: "buf_get (u @ zs @ z # s) l = Some z"
    using buf_get_append [of l "u @ zs" z s] snoc.prems by simp
  obtain l' where l: "l = Suc l'" "l' = k + length zs"
    using snoc.prems(3) by simp
  then have "partition_down p (u @ zs @ (z # s)) f l' = partition_down p (u @ zs @ (z # s)) f k"
    using snoc.prems by (intro snoc.IH) simp_all
  then show ?case
    using partition_down.simps [of p "u @ zs @ z # s" f l] get l snoc.prems(1,2) by simp
qed simp

lemma partition_bidirectional_parts:
  assumes "f = length q" and "r = f + length xs"
  shows "\<exists>ts fs. partition_bidirectional p (q @ xs @ s) f r = Some (q @ ts @ fs @ s, length (q @ ts)) \<and>
    list_all p ts \<and> list_all (\<lambda>x. \<not> p x) fs \<and> mset (ts @ fs) = mset xs"
  using assms
proof (induction "length xs" arbitrary: q xs s f r rule: less_induct)
  case less
  note unfold = partition_bidirectional.simps [of p "q @ xs @ s" f r]
  have skip: "partition_skip p (q @ xs @ s) f r = Some (f + length (takeWhile p xs))"
    using partition_skip_takeWhile [OF less.prems] .
  show ?case
  proof (cases p xs rule: takeWhile_cases)
    case all
    then have "partition_bidirectional p (q @ xs @ s) f r = Some (q @ xs @ [] @ s, length (q @ xs))"
      using skip unfold less.prems by simp
    moreover have "mset (xs @ []) = mset xs" "list_all (\<lambda>x. \<not> p x) []"
      by simp_all
    ultimately show ?thesis
      using all(1) by blast
  next
    case (stopped ts y ys)
    let ?f = "f + length ts"
    obtain l where r: "r = Suc l" "l = ?f + length ys"
      using less.prems(2) stopped(1) by simp
    then have ne: "?f \<noteq> r"
      by simp
    have start: "partition_bidirectional p (q @ xs @ s) f r = (case partition_down p (q @ xs @ s) ?f l of None \<Rightarrow> None
        | Some l \<Rightarrow> if ?f = l then Some (q @ xs @ s, ?f)
            else (case iter_swap (q @ xs @ s) ?f l of None \<Rightarrow> None
                | Some a \<Rightarrow> partition_bidirectional p a (?f + 1) l))"
      unfolding unfold skip stopped(4) option.case if_not_P [OF ne] unfolding r(1) nat.case by (rule refl)
    show ?thesis
    proof (cases "\<exists>z \<in> set ys. p z")
      case False
      then have ys: "list_all (\<lambda>x. \<not> p x) ys"
        by (auto simp: list_all_iff)
      then have "partition_down p ((q @ ts @ [y]) @ ys @ s) ?f l = Some ?f"
        using partition_down_skip [of p ys ?f ?f l "q @ ts @ [y]" s] r(2) less.prems(1)
        by (simp add: partition_down.simps)
      then have "partition_bidirectional p (q @ xs @ s) f r = Some (q @ ts @ (y # ys) @ s, length (q @ ts))"
        unfolding start using stopped(1) less.prems(1) by simp
      moreover have "list_all (\<lambda>x. \<not> p x) (y # ys)" "mset (ts @ y # ys) = mset xs"
        using ys stopped(1,3) by simp_all
      ultimately show ?thesis
        using stopped(2) by blast
    next
      case True
      then obtain zs z ws where ys: "ys = zs @ z # ws" "p z" "\<forall>w \<in> set ws. \<not> p w"
        using split_list_last_prop [OF True] by blast
      let ?k = "?f + 1 + length zs" and ?u = "q @ ts @ y # zs @ [z]"
      have xs: "q @ xs @ s = ?u @ ws @ s"
        using stopped(1) ys(1) by simp
      have "partition_down p (?u @ ws @ s) ?f l = partition_down p (?u @ ws @ s) ?f ?k"
        using ys r(2) less.prems(1) by (intro partition_down_skip) (simp_all add: list_all_iff)
      moreover have "buf_get (?u @ ws @ s) ?k = Some z"
        using buf_get_append [of ?k "q @ ts @ y # zs" z "ws @ s"] less.prems(1) by simp
      ultimately have down: "partition_down p (q @ xs @ s) ?f l = Some ?k"
        using ys(2) partition_down.simps [of p "?u @ ws @ s" ?f ?k] unfolding xs by simp
      have swap: "iter_swap (q @ xs @ s) ?f ?k = Some ((q @ ts @ [z]) @ zs @ (y # ws @ s))"
        using iter_swap_append [of ?f "q @ ts" ?k zs y z "ws @ s"] less.prems(1) unfolding xs by simp
      obtain ts' fs' where rest: "partition_bidirectional p ((q @ ts @ [z]) @ zs @ (y # ws @ s)) (?f + 1) ?k =
          Some ((q @ ts @ [z]) @ ts' @ fs' @ (y # ws @ s), length ((q @ ts @ [z]) @ ts'))"
          "list_all p ts'" "list_all (\<lambda>x. \<not> p x) fs'" "mset (ts' @ fs') = mset zs"
        using less.hyps [of zs "?f + 1" "q @ ts @ [z]" ?k "y # ws @ s"] stopped(1) ys(1) less.prems(1) by auto
      have "partition_bidirectional p (q @ xs @ s) f r =
          Some (q @ (ts @ [z] @ ts') @ (fs' @ y # ws) @ s, length (q @ ts @ [z] @ ts'))"
        unfolding start using down swap rest(1) by simp
      moreover have "list_all p (ts @ [z] @ ts')" "list_all (\<lambda>x. \<not> p x) (fs' @ y # ws)"
          "mset ((ts @ [z] @ ts') @ (fs' @ y # ws)) = mset xs"
        using rest(2-4) ys stopped by (auto simp: list_all_iff)
      ultimately show ?thesis
        by blast
    qed
  qed
qed

section \<open>Stable partition\<close>

lemma find_if_impl_takeWhile:
  assumes "f = length q" and "r = f + length xs"
  shows "find_if_impl p (q @ xs @ s) f r = Some (f + length (takeWhile (\<lambda>x. \<not> p x) xs))"
proof -
  have "find_if_input p (q @ xs @ s) f r = Some (f + length (takeWhile (\<lambda>x. \<not> p x) xs))"
    using assms
  proof (induction xs arbitrary: q f)
    case (Cons x xs)
    have "find_if_input p ((q @ [x]) @ xs @ s) (f + 1) r = Some (f + 1 + length (takeWhile (\<lambda>x. \<not> p x) xs))"
      using Cons.prems by (intro Cons.IH) simp_all
    then show ?case
      using Cons.prems by (subst find_if_input.simps) (simp add: buf_get_append)
  qed (simp add: find_if_input.simps)
  then show ?thesis
    using find_if_impl_input [of f r "q @ xs @ s" p] assms by simp
qed

lemma find_if_not_n_takeWhile:
  assumes "f = length q" and "n = length xs"
  shows "find_if_not_n p (q @ xs @ s) f n = Some (f + length (takeWhile p xs), length (dropWhile p xs))"
  using assms
proof (induction xs arbitrary: q f n)
  case (Cons x xs)
  have "find_if_not_n p ((q @ [x]) @ xs @ s) (f + 1) (length xs) =
      Some (f + 1 + length (takeWhile p xs), length (dropWhile p xs))"
    using Cons.prems by (intro Cons.IH) simp_all
  then show ?case
    using Cons.prems by (simp add: buf_get_append)
qed simp

text \<open>The elements that were moved to the buffer leave a gap of as many elements behind those that stay.\<close>

lemma stable_partition_loop_filters:
  assumes "f = length (q @ ts @ gs)" and "r = f + length ys" and "r1 = length (q @ ts)" and "r2 = length fs"
    and "length gs = length fs" and "fs \<noteq> []" and "length ys \<le> length hs"
  shows "\<exists>gs' hs'. stable_partition_loop p (q @ ts @ gs @ ys @ s) f r r1 (fs @ hs) r2 =
      Some (q @ (ts @ filter p ys) @ gs' @ s, r1 + length (filter p ys),
        (fs @ filter (\<lambda>y. \<not> p y) ys) @ hs', r2 + length (filter (\<lambda>y. \<not> p y) ys)) \<and>
    length gs' = length (fs @ filter (\<lambda>y. \<not> p y) ys) \<and> length (fs @ hs) = length ((fs @ filter (\<lambda>y. \<not> p y) ys) @ hs')"
  using assms
proof (induction ys arbitrary: ts gs fs hs f r1 r2)
  case Nil
  then show ?case
    by (simp add: stable_partition_loop.simps)
next
  case (Cons y ys)
  obtain g gs' where gs: "gs = g # gs'"
    using Cons.prems(5,6) by (cases gs) auto
  obtain h hs' where hs: "hs = h # hs'"
    using Cons.prems(7) by (cases hs) auto
  have get: "buf_get (q @ ts @ gs @ y # ys @ s) f = Some y"
    using buf_get_append [of f "q @ ts @ gs" y "ys @ s"] Cons.prems(1) by simp
  have "f < r"
    using Cons.prems(2) by simp
  show ?case
  proof (cases "p y")
    case True
    have put: "buf_put (q @ ts @ gs @ y # ys @ s) r1 y = Some (q @ (ts @ [y]) @ (gs' @ [y]) @ ys @ s)"
      using buf_put_append [of r1 "q @ ts" g "gs' @ y # ys @ s" y] Cons.prems(3) gs by simp
    have "\<exists>ks js. stable_partition_loop p (q @ (ts @ [y]) @ (gs' @ [y]) @ ys @ s) (f + 1) r (r1 + 1) (fs @ hs) r2 =
        Some (q @ ((ts @ [y]) @ filter p ys) @ ks @ s, r1 + 1 + length (filter p ys),
          (fs @ filter (\<lambda>y. \<not> p y) ys) @ js, r2 + length (filter (\<lambda>y. \<not> p y) ys)) \<and>
        length ks = length (fs @ filter (\<lambda>y. \<not> p y) ys) \<and> length (fs @ hs) = length ((fs @ filter (\<lambda>y. \<not> p y) ys) @ js)"
      using Cons.prems gs by (intro Cons.IH) simp_all
    then show ?thesis
      using True get put \<open>f < r\<close> by (subst stable_partition_loop.simps) simp
  next
    case False
    have put: "buf_put (fs @ hs) r2 y = Some ((fs @ [y]) @ hs')"
      using buf_put_append [of r2 fs h hs' y] Cons.prems(4) hs by simp
    have "\<exists>ks js. stable_partition_loop p (q @ ts @ (gs @ [y]) @ ys @ s) (f + 1) r r1 ((fs @ [y]) @ hs') (r2 + 1) =
        Some (q @ (ts @ filter p ys) @ ks @ s, r1 + length (filter p ys),
          ((fs @ [y]) @ filter (\<lambda>y. \<not> p y) ys) @ js, r2 + 1 + length (filter (\<lambda>y. \<not> p y) ys)) \<and>
        length ks = length ((fs @ [y]) @ filter (\<lambda>y. \<not> p y) ys) \<and>
        length ((fs @ [y]) @ hs') = length (((fs @ [y]) @ filter (\<lambda>y. \<not> p y) ys) @ js)"
      using Cons.prems hs by (intro Cons.IH) simp_all
    then show ?thesis
      using False get put hs \<open>f < r\<close> by (subst stable_partition_loop.simps) simp
  qed
qed

lemma filter_takeWhile_dropWhile:
  "filter p xs = takeWhile p xs @ filter p (dropWhile p xs)"
  "filter (\<lambda>x. \<not> p x) xs = filter (\<lambda>x. \<not> p x) (dropWhile p xs)"
  by (induction xs) simp_all

lemma stable_partition_adaptive_filters:
  assumes "f = length q" and "r = f + length xs" and "xs \<noteq> []" and "\<not> p (hd xs)" and "buffer_size \<le> length b"
  shows "\<exists>b'. stable_partition_adaptive is_pod p (q @ xs @ s) f r (length xs) b buffer_size =
      Some (q @ filter p xs @ filter (\<lambda>x. \<not> p x) xs @ s, b', f + length (filter p xs)) \<and> length b' = length b"
  using assms
proof (induction "length xs" arbitrary: q xs s f r b rule: less_induct)
  case less
  note unfold = stable_partition_adaptive.simps [of is_pod p "q @ xs @ s" f r "length xs" b buffer_size]
  obtain x ys where xs: "xs = x # ys" "\<not> p x"
    using less.prems(3,4) by (cases xs) auto
  consider (one) "length xs = 1" | (buffered) "length xs \<noteq> 1" "length xs \<le> buffer_size"
    | (split) "length xs \<noteq> 1" "\<not> length xs \<le> buffer_size"
    by blast
  then show ?case
  proof cases
    case one
    then show ?thesis
      using unfold xs by simp
  next
    case buffered
    obtain h hs where b: "b = h # hs" "length ys \<le> length hs"
      using buffered(2) less.prems(5) xs(1) by (cases b) auto
    obtain gs' hs' where loop: "stable_partition_loop p (q @ [] @ [x] @ ys @ s) (f + 1) r f ([x] @ hs) 1 =
        Some (q @ filter p ys @ gs' @ s, f + length (filter p ys),
          filter (\<lambda>y. \<not> p y) xs @ hs', length (filter (\<lambda>y. \<not> p y) xs))"
        "length gs' = length (filter (\<lambda>y. \<not> p y) xs)" "length ([x] @ hs) = length (filter (\<lambda>y. \<not> p y) xs @ hs')"
      using stable_partition_loop_filters [of "f + 1" q "[]" "[x]" r ys f 1 "[x]" hs p s] less.prems(1,2) xs b(2) by auto
    have "move_across (filter (\<lambda>y. \<not> p y) xs @ hs') 0 (q @ filter p ys @ gs' @ s) (f + length (filter p ys))
        (length (filter (\<lambda>y. \<not> p y) xs)) = Some (q @ filter p ys @ filter (\<lambda>y. \<not> p y) xs @ s)"
      using move_across_copies [of 0 "[]" "f + length (filter p ys)" "q @ filter p ys" _ "filter (\<lambda>y. \<not> p y) xs" gs' hs' s]
        less.prems(1) loop(2) by simp
    then show ?thesis
      using unfold buffered loop xs b(1) less.prems(1) by (simp add: buf_get_append buf_put_def)
  next
    case split
    define h us vs where "h = length xs div 2" and "us = take h xs" and "vs = drop h xs"
    have h: "0 < h" "h < length xs"
      using split(1) xs(1) by (cases ys; simp add: h_def)+
    have lens: "length us = h" "length vs = length xs - h" and parts: "xs = us @ vs" "us \<noteq> []" "hd us = hd xs"
      using h less.prems(3) by (simp_all add: us_def vs_def hd_take)
    let ?no = "\<lambda>x. \<not> p x"
    define fu nu fv nv where "fu = filter p us" and "nu = filter ?no us" and "fv = filter p vs" and "nv = filter ?no vs"
    have sum: "length fu + length nu = h"
      using sum_length_filter_compl [of p us] lens(1) by (simp add: fu_def nu_def)
    have xs_parts: "q @ xs @ s = q @ us @ (vs @ s)"
      using parts(1) by simp
    have "\<exists>b1. stable_partition_adaptive is_pod p (q @ us @ (vs @ s)) f (f + h) (length us) b buffer_size =
        Some (q @ filter p us @ filter ?no us @ (vs @ s), b1, f + length (filter p us)) \<and> length b1 = length b"
      using lens(1) h(2) parts(2,3) less.prems(1,4,5) by (intro less.hyps) simp_all
    then obtain b1 where left: "stable_partition_adaptive is_pod p (q @ xs @ s) f (f + h) h b buffer_size =
        Some (q @ fu @ nu @ vs @ s, b1, f + length fu)" "length b1 = length b"
      unfolding xs_parts lens(1) fu_def nu_def by blast
    have find: "find_if_not_n p (q @ fu @ nu @ vs @ s) (f + h) (length xs - h) =
        Some (f + h + length (takeWhile p vs), length (dropWhile p vs))"
      using find_if_not_n_takeWhile [of "f + h" "q @ fu @ nu" "length xs - h" vs p s] less.prems(1) sum lens by simp
    have "\<exists>b2. (if length (dropWhile p vs) \<noteq> 0
          then stable_partition_adaptive is_pod p (q @ fu @ nu @ vs @ s) (f + h + length (takeWhile p vs)) r
            (length (dropWhile p vs)) b1 buffer_size
          else Some (q @ fu @ nu @ vs @ s, b1, f + h + length (takeWhile p vs))) =
        Some (q @ fu @ nu @ fv @ nv @ s, b2, f + h + length fv) \<and> length b2 = length b"
    proof (cases "dropWhile p vs = []")
      case True
      then have "takeWhile p vs = vs"
        using takeWhile_dropWhile_id [of p vs] by simp
      then have "length (takeWhile p vs) = length vs" "fv = vs" "nv = []"
        unfolding fv_def nv_def filter_takeWhile_dropWhile [of p vs] True by (simp_all only: append_Nil2 filter.simps)
      then show ?thesis
        using True left(2) by simp
    next
      case False
      let ?k = "f + h + length (takeWhile p vs)" and ?dw = "dropWhile p vs"
      have len: "length (takeWhile p vs) + length ?dw = length vs"
        by (metis length_append takeWhile_dropWhile_id)
      have rec: "\<exists>b2. stable_partition_adaptive is_pod p ((q @ fu @ nu @ takeWhile p vs) @ ?dw @ s) ?k r (length ?dw) b1 buffer_size =
          Some ((q @ fu @ nu @ takeWhile p vs) @ filter p ?dw @ filter ?no ?dw @ s, b2, ?k + length (filter p ?dw)) \<and>
          length b2 = length b1"
        using False hd_dropWhile [OF False] len lens h sum less.prems(1,2,5) left(2) by (intro less.hyps) simp_all
      have whole: "q @ fu @ nu @ vs @ s = (q @ fu @ nu @ takeWhile p vs) @ ?dw @ s"
        by (metis append.assoc takeWhile_dropWhile_id)
      have halves: "fv = takeWhile p vs @ filter p ?dw" "nv = filter ?no ?dw"
        unfolding fv_def nv_def by (rule filter_takeWhile_dropWhile)+
      have "length ?dw \<noteq> 0"
        using False by simp
      then show ?thesis
        using rec unfolding if_P [OF \<open>length ?dw \<noteq> 0\<close>] whole halves left(2)
        by (simp only: append_assoc length_append add.assoc)
    qed
    then obtain b2 where right: "(if length (dropWhile p vs) \<noteq> 0
          then stable_partition_adaptive is_pod p (q @ fu @ nu @ vs @ s) (f + h + length (takeWhile p vs)) r
            (length (dropWhile p vs)) b1 buffer_size
          else Some (q @ fu @ nu @ vs @ s, b1, f + h + length (takeWhile p vs))) =
        Some (q @ fu @ nu @ fv @ nv @ s, b2, f + h + length fv)" "length b2 = length b"
      by blast
    have rot: "rotate_range is_pod (q @ fu @ nu @ fv @ nv @ s) (f + length fu) (f + h) (f + h + length fv) =
        Some (q @ fu @ fv @ nu @ nv @ s, f + length fu + length fv)"
      using rotate_random_rotates [of "f + length fu" "q @ fu" "f + h" nu "f + h + length fv" fv is_pod "nv @ s"]
        less.prems(1) sum by (simp add: rotate_range_def)
    have "stable_partition_adaptive is_pod p (q @ xs @ s) f r (length xs) b buffer_size =
        Some (q @ fu @ fv @ nu @ nv @ s, b2, f + length fu + length fv)"
      unfolding unfold if_not_P [OF split(1)] if_not_P [OF split(2)] h_def [symmetric] Let_def left(1) bind.bind_lunit
        prod.case find right(1) rot by simp
    then show ?thesis
      using right(2) by (simp add: parts(1) fu_def nu_def fv_def nv_def)
  qed
qed

section \<open>Removal\<close>

lemma remove_if_loop_filters:
  assumes "f = length (q @ ks @ gs)" and "r = f + length ys" and "k = length (q @ ks)" and "gs \<noteq> []"
  shows "\<exists>js. remove_if_loop p (q @ ks @ gs @ ys @ s) f r k =
      Some (q @ (ks @ filter (\<lambda>y. \<not> p y) ys) @ js @ s, k + length (filter (\<lambda>y. \<not> p y) ys)) \<and>
    length js = length gs + length (filter p ys)"
  using assms
proof (induction ys arbitrary: ks gs f k)
  case Nil
  then show ?case
    by (auto simp: remove_if_loop.simps)
next
  case (Cons y ys)
  have get: "buf_get (q @ ks @ gs @ y # ys @ s) f = Some y" and "f < r"
    using buf_get_append [of f "q @ ks @ gs" y "ys @ s"] Cons.prems(1,2) by simp_all
  show ?case
  proof (cases "p y")
    case True
    have "\<exists>js. remove_if_loop p (q @ ks @ (gs @ [y]) @ ys @ s) (f + 1) r k =
        Some (q @ (ks @ filter (\<lambda>y. \<not> p y) ys) @ js @ s, k + length (filter (\<lambda>y. \<not> p y) ys)) \<and>
        length js = length (gs @ [y]) + length (filter p ys)"
      using Cons.prems by (intro Cons.IH) simp_all
    then show ?thesis
      using True get \<open>f < r\<close> by (subst remove_if_loop.simps) simp
  next
    case False
    obtain g gs' where gs: "gs = g # gs'"
      using Cons.prems(4) by (cases gs) auto
    have put: "buf_put (q @ ks @ gs @ y # ys @ s) k y = Some (q @ (ks @ [y]) @ (gs' @ [y]) @ ys @ s)"
      using buf_put_append [of k "q @ ks" g "gs' @ y # ys @ s" y] Cons.prems(3) gs by simp
    have "\<exists>js. remove_if_loop p (q @ (ks @ [y]) @ (gs' @ [y]) @ ys @ s) (f + 1) r (k + 1) =
        Some (q @ ((ks @ [y]) @ filter (\<lambda>y. \<not> p y) ys) @ js @ s, k + 1 + length (filter (\<lambda>y. \<not> p y) ys)) \<and>
        length js = length (gs' @ [y]) + length (filter p ys)"
      using Cons.prems gs by (intro Cons.IH) simp_all
    then show ?thesis
      using False get put gs \<open>f < r\<close> by (subst remove_if_loop.simps) simp
  qed
qed

lemma remove_if_impl_filters:
  assumes "f = length q" and "r = f + length xs"
  shows "\<exists>js. remove_if_impl p (q @ xs @ s) f r =
      Some (q @ filter (\<lambda>x. \<not> p x) xs @ js @ s, f + length (filter (\<lambda>x. \<not> p x) xs)) \<and>
    length js = length (filter p xs)"
proof (cases "\<lambda>x. \<not> p x" xs rule: takeWhile_cases)
  case all
  then have "filter (\<lambda>x. \<not> p x) xs = xs" "filter p xs = []"
    by (auto simp: list_all_iff)
  then show ?thesis
    using find_if_impl_takeWhile [OF assms, of p s] all(2) assms by (simp add: remove_if_impl_def)
next
  case (stopped ts y ys)
  then have ts: "filter (\<lambda>x. \<not> p x) ts = ts" "filter p ts = []"
    by (auto simp: list_all_iff)
  have "find_if_impl p (q @ xs @ s) f r = Some (f + length ts)"
    using find_if_impl_takeWhile [OF assms, of p s] stopped(4) by simp
  moreover have "\<exists>js. remove_if_loop p (q @ ts @ [y] @ ys @ s) (f + length ts + 1) r (f + length ts) =
        Some (q @ (ts @ filter (\<lambda>y. \<not> p y) ys) @ js @ s, f + length ts + length (filter (\<lambda>y. \<not> p y) ys)) \<and>
        length js = length [y] + length (filter p ys)"
    using assms stopped(1) by (intro remove_if_loop_filters) simp_all
  moreover have "f + length ts \<noteq> r"
    using assms(2) stopped(1) by simp
  ultimately show ?thesis
    using stopped(1,3) ts by (simp add: remove_if_impl_def add.assoc)
qed

text \<open>What \<open>unique\<close> is to leave: an element goes if it matches the one kept before it.\<close>

fun unique_seq :: "('a \<Rightarrow> 'a \<Rightarrow> bool) \<Rightarrow> 'a list \<Rightarrow> 'a list" where
  "unique_seq bp [] = []"
| "unique_seq bp [x] = [x]"
| "unique_seq bp (x # y # ys) = (if bp x y then unique_seq bp (x # ys) else x # unique_seq bp (y # ys))"

lemma unique_seq_equal: "unique_seq (=) xs = remdups_adj xs"
  by (induction "(=) :: 'a \<Rightarrow> 'a \<Rightarrow> bool" xs rule: unique_seq.induct) simp_all

lemma length_unique_seq: "length (unique_seq bp xs) \<le> length xs"
  by (induction bp xs rule: unique_seq.induct) auto

lemma unique_loop_seq:
  assumes "k = length (q @ ks)" and "f = k + length gs" and "r = f + 1 + length ys" and "gs \<noteq> []"
  shows "\<exists>js. unique_loop bp (q @ ks @ [d] @ gs @ ys @ s) f r k =
      Some (q @ (ks @ unique_seq bp (d # ys)) @ js @ s, k + length (unique_seq bp (d # ys))) \<and>
    length (unique_seq bp (d # ys)) + length js = length (d # gs @ ys)"
  using assms
proof (induction ys arbitrary: ks gs d f k)
  case Nil
  then show ?case
    by (auto simp: unique_loop.simps)
next
  case (Cons y ys)
  have get: "buf_get (q @ ks @ d # gs @ y # ys @ s) k = Some d" "buf_get (q @ ks @ d # gs @ y # ys @ s) (f + 1) = Some y"
    and "f + 1 < r"
    using buf_get_append [of k "q @ ks" d "gs @ y # ys @ s"] buf_get_append [of "f + 1" "q @ ks @ d # gs" y "ys @ s"]
      Cons.prems(1-3) by simp_all
  show ?case
  proof (cases "bp d y")
    case True
    have "\<exists>js. unique_loop bp (q @ ks @ [d] @ (gs @ [y]) @ ys @ s) (f + 1) r k =
        Some (q @ (ks @ unique_seq bp (d # ys)) @ js @ s, k + length (unique_seq bp (d # ys))) \<and>
        length (unique_seq bp (d # ys)) + length js = length (d # (gs @ [y]) @ ys)"
      using Cons.prems by (intro Cons.IH) simp_all
    then show ?thesis
      using True get \<open>f + 1 < r\<close> by (subst unique_loop.simps) simp
  next
    case False
    obtain g gs' where gs: "gs = g # gs'"
      using Cons.prems(4) by (cases gs) auto
    have put: "buf_put (q @ ks @ d # gs @ y # ys @ s) (k + 1) y = Some (q @ (ks @ [d]) @ [y] @ (gs' @ [y]) @ ys @ s)"
      using buf_put_append [of "k + 1" "q @ ks @ [d]" g "gs' @ y # ys @ s" y] Cons.prems(1) gs by simp
    have "\<exists>js. unique_loop bp (q @ (ks @ [d]) @ [y] @ (gs' @ [y]) @ ys @ s) (f + 1) r (k + 1) =
        Some (q @ ((ks @ [d]) @ unique_seq bp (y # ys)) @ js @ s, k + 1 + length (unique_seq bp (y # ys))) \<and>
        length (unique_seq bp (y # ys)) + length js = length (y # (gs' @ [y]) @ ys)"
      using Cons.prems gs by (intro Cons.IH) simp_all
    then show ?thesis
      using False get put gs \<open>f + 1 < r\<close> by (subst unique_loop.simps) auto
  qed
qed

lemma adjacent_find_loop_seq:
  assumes "f = length q" and "r = f + 1 + length ys"
  shows "adjacent_find_loop bp (q @ x # ys @ s) f f r = Some r \<and> unique_seq bp (x # ys) = x # ys \<or>
    (\<exists>us u v vs. x # ys = us @ u # v # vs \<and> bp u v \<and>
      adjacent_find_loop bp (q @ x # ys @ s) f f r = Some (f + length us) \<and>
      unique_seq bp (x # ys) = us @ unique_seq bp (u # vs))"
  using assms
proof (induction ys arbitrary: q x f)
  case Nil
  then show ?case
    by (simp add: adjacent_find_loop.simps)
next
  case (Cons y ys)
  have unfold: "adjacent_find_loop bp (q @ x # y # ys @ s) f f r =
      (if bp x y then Some f else adjacent_find_loop bp ((q @ [x]) @ y # ys @ s) (f + 1) (f + 1) r)"
    using Cons.prems buf_get_append [of "f + 1" "q @ [x]" y "ys @ s"]
    by (subst adjacent_find_loop.simps) (simp add: buf_get_append)
  show ?case
  proof (cases "bp x y")
    case True
    then show ?thesis
      using unfold by (intro disjI2 exI [of _ "[]"] exI [of _ x] exI [of _ y] exI [of _ ys]) simp
  next
    case False
    have "adjacent_find_loop bp ((q @ [x]) @ y # ys @ s) (f + 1) (f + 1) r = Some r \<and> unique_seq bp (y # ys) = y # ys \<or>
        (\<exists>us u v vs. y # ys = us @ u # v # vs \<and> bp u v \<and>
          adjacent_find_loop bp ((q @ [x]) @ y # ys @ s) (f + 1) (f + 1) r = Some (f + 1 + length us) \<and>
          unique_seq bp (y # ys) = us @ unique_seq bp (u # vs))"
      using Cons.prems by (intro Cons.IH) simp_all
    then show ?thesis
    proof (elim disjE exE conjE)
      fix us u v vs
      assume *: "y # ys = us @ u # v # vs" "bp u v"
        "adjacent_find_loop bp ((q @ [x]) @ y # ys @ s) (f + 1) (f + 1) r = Some (f + 1 + length us)"
        "unique_seq bp (y # ys) = us @ unique_seq bp (u # vs)"
      have "x # y # ys = (x # us) @ u # v # vs"
        using *(1) by simp
      moreover have "adjacent_find_loop bp (q @ x # (y # ys) @ s) f f r = Some (f + length (x # us))"
        using False unfold *(3) by simp
      moreover have "unique_seq bp (x # y # ys) = (x # us) @ unique_seq bp (u # vs)"
        using False *(4) by simp
      ultimately show ?thesis
        using *(2) by blast
    qed (use False unfold in simp)
  qed
qed

lemma unique_impl_seq:
  assumes "f = length q" and "r = f + length xs"
  shows "\<exists>js. unique_impl bp (q @ xs @ s) f r =
      Some (q @ unique_seq bp xs @ js @ s, f + length (unique_seq bp xs)) \<and>
    length (unique_seq bp xs) + length js = length xs"
proof (cases xs)
  case Nil
  then show ?thesis
    using assms by (simp add: unique_impl_def adjacent_find_impl_def)
next
  case (Cons x ys)
  have impl: "adjacent_find_impl bp (q @ xs @ s) f r = adjacent_find_loop bp (q @ x # ys @ s) f f r"
    using assms Cons by (simp add: adjacent_find_impl_def)
  have "r = f + 1 + length ys"
    using assms(2) Cons by simp
  from adjacent_find_loop_seq [OF assms(1) this, of bp x s, folded Cons]
  consider (none) "adjacent_find_loop bp (q @ x # ys @ s) f f r = Some r" "unique_seq bp xs = xs"
    | (found) us u v vs where "xs = us @ u # v # vs" "bp u v"
        "adjacent_find_loop bp (q @ x # ys @ s) f f r = Some (f + length us)"
        "unique_seq bp xs = us @ unique_seq bp (u # vs)"
    by blast
  then show ?thesis
  proof cases
    case none
    then show ?thesis
      using impl assms by (simp add: unique_impl_def)
  next
    case found
    obtain js where js: "unique_loop bp (q @ us @ [u] @ [v] @ vs @ s) (f + length us + 1) r (f + length us) =
        Some (q @ (us @ unique_seq bp (u # vs)) @ js @ s, f + length us + length (unique_seq bp (u # vs)))"
        "length (unique_seq bp (u # vs)) + length js = length (u # [v] @ vs)"
      using unique_loop_seq [of "f + length us" q us "f + length us + 1" "[v]" r vs bp u s] assms found(1) by auto
    have "f + length us \<noteq> r"
      using assms found(1) by simp
    then show ?thesis
      using impl js found by (simp add: unique_impl_def)
  qed
qed

section \<open>Properties\<close>

text \<open>
  C12. \<open>std::stable_partition\<close> moves the elements with the predicate to the front,
  keeps the order inside both parts and returns the border, whatever buffer it gets; nothing else
  changes and no access is out of bounds.
\<close>

theorem stable_partition_filters:
  assumes "first \<le> stop" and "stop \<le> length a"
  shows "stable_partition alloc max_len junk is_pod p a first stop =
    Some (take first a @ filter p (slice a first stop) @ filter (\<lambda>x. \<not> p x) (slice a first stop) @ drop stop a,
      first + length (filter p (slice a first stop)))"
proof -
  define q xs s where "q = take first a" and "xs = slice a first stop" and "s = drop stop a"
  have a: "a = q @ xs @ s" and lens: "first = length q" "stop = first + length xs"
    using split_slice [OF assms] assms by (simp_all add: q_def xs_def s_def)
  have find: "find_if_not_impl p a first stop = Some (first + length (takeWhile p xs))"
    unfolding a find_if_not_impl_def using find_if_impl_takeWhile [OF lens, of "\<lambda>x. \<not> p x" s] by simp
  have "stable_partition alloc max_len junk is_pod p a first stop =
      Some (q @ filter p xs @ filter (\<lambda>x. \<not> p x) xs @ s, first + length (filter p xs))"
  proof (cases p xs rule: takeWhile_cases)
    case all
    then have "filter p xs = xs" "filter (\<lambda>x. \<not> p x) xs = []"
      by (auto simp: list_all_iff)
    then show ?thesis
      using find all(2) lens a by (simp add: stable_partition_def stable_partition_impl_def)
  next
    case (stopped ts y ys)
    define buf where "buf = Temporary_buffer alloc max_len junk (first + length ts) stop"
    have ts: "filter p ts = ts" "filter (\<lambda>x. \<not> p x) ts = []"
      using stopped(2) by (auto simp: list_all_iff)
    obtain b' where "stable_partition_adaptive is_pod p ((q @ ts) @ (y # ys) @ s) (first + length ts) stop
        (length (y # ys)) buf (length buf) =
        Some ((q @ ts) @ filter p (y # ys) @ filter (\<lambda>x. \<not> p x) (y # ys) @ s, b',
          first + length ts + length (filter p (y # ys)))"
      using stable_partition_adaptive_filters [of "first + length ts" "q @ ts" stop "y # ys" p "length buf" buf is_pod s]
        lens stopped(1,3) by auto
    moreover have "first + length ts \<noteq> stop" "stop - (first + length ts) = length (y # ys)"
      using lens stopped(1) by simp_all
    ultimately show ?thesis
      using find stopped ts a
      by (simp add: stable_partition_def stable_partition_impl_def Let_def add.assoc flip: buf_def)
  qed
  then show ?thesis
    by (simp add: q_def xs_def s_def)
qed

theorem stable_partition_filters_witness:
  "stable_partition (\<lambda>n. n < 2) 100 (\<lambda>i. 0) False even [9, 1, 2, 3, 4, 6, 5 :: nat] 1 6 = Some ([9, 2, 4, 6, 1, 3, 5], 4)"
  using stable_partition_filters [of 1 6 "[9, 1, 2, 3, 4, 6, 5 :: nat]" "\<lambda>n. n < 2" 100 "\<lambda>i. 0" False even]
  by (simp add: slice_def)

text \<open>
  C20. \<open>std::partition\<close>, for forward and for bidirectional iterators, rearranges the range
  so that the elements with the predicate come first, and returns the border.
\<close>

theorem partition_splits:
  assumes "first \<le> stop" and "stop \<le> length a" and "impl \<in> {partition_forward, partition_range}"
  shows "\<exists>ts fs. impl p a first stop = Some (take first a @ ts @ fs @ drop stop a, first + length ts) \<and>
    list_all p ts \<and> list_all (\<lambda>x. \<not> p x) fs \<and> mset (ts @ fs) = mset (slice a first stop)"
proof -
  define q xs s where "q = take first a" and "xs = slice a first stop" and "s = drop stop a"
  have a: "a = q @ xs @ s" and lens: "first = length q" "stop = first + length xs"
    using split_slice [OF assms(1,2)] assms(1,2) by (simp_all add: q_def xs_def s_def)
  have "\<exists>ts fs. impl p a first stop = Some (q @ ts @ fs @ s, first + length ts) \<and>
      list_all p ts \<and> list_all (\<lambda>x. \<not> p x) fs \<and> mset (ts @ fs) = mset xs"
  proof -
    consider "impl = partition_forward" | "impl = partition_range"
      using assms(3) by blast
    then show ?thesis
      unfolding a using partition_forward_parts [OF lens, of p s] partition_bidirectional_parts [OF lens, of p s] lens(1)
      by cases (simp_all add: partition_range_def)
  qed
  then show ?thesis
    by (simp add: q_def xs_def s_def)
qed

theorem partition_splits_witness:
  "\<exists>ts fs. partition_range even [9, 1, 2, 3, 4, 5 :: nat] 1 5 = Some ([9] @ ts @ fs @ [5], 1 + length ts) \<and>
    list_all even ts \<and> list_all (\<lambda>x. \<not> even x) fs \<and> mset (ts @ fs) = mset [1, 2, 3, 4]"
  using partition_splits [of 1 5 "[9, 1, 2, 3, 4, 5 :: nat]" partition_range even] by (simp add: slice_def)

text \<open>
  C21. \<open>std::remove_if\<close> leaves the elements without the predicate, in their order, at the
  beginning of the range, and \<open>std::unique\<close> the sequence without consecutive duplicates; both return
  its end, keep the length of the array and all that is outside the range.
\<close>

theorem removal_keeps_rest:
  assumes "first \<le> stop" and "stop \<le> length a"
  shows "(\<exists>rest. remove_if p a first stop = Some (take first a @ filter (\<lambda>x. \<not> p x) (slice a first stop) @ rest @ drop stop a,
        first + length (filter (\<lambda>x. \<not> p x) (slice a first stop))) \<and>
      length rest = length (filter p (slice a first stop))) \<and>
    (\<exists>rest. unique_equal a first stop = Some (take first a @ remdups_adj (slice a first stop) @ rest @ drop stop a,
        first + length (remdups_adj (slice a first stop))) \<and>
      length (remdups_adj (slice a first stop)) + length rest = stop - first)"
proof -
  define q xs s where "q = take first a" and "xs = slice a first stop" and "s = drop stop a"
  have a: "a = q @ xs @ s" and lens: "first = length q" "stop = first + length xs"
    using split_slice [OF assms] assms by (simp_all add: q_def xs_def s_def)
  have "\<exists>rest. remove_if p (q @ xs @ s) first stop = Some (q @ filter (\<lambda>x. \<not> p x) xs @ rest @ s,
        first + length (filter (\<lambda>x. \<not> p x) xs)) \<and> length rest = length (filter p xs)"
    unfolding remove_if_def by (rule remove_if_impl_filters [OF lens])
  moreover have "\<exists>rest. unique_equal (q @ xs @ s) first stop = Some (q @ remdups_adj xs @ rest @ s,
        first + length (remdups_adj xs)) \<and> length (remdups_adj xs) + length rest = stop - first"
    unfolding unique_equal_def using unique_impl_seq [OF lens, of "(=)" s] lens(2) by (simp add: unique_seq_equal)
  ultimately show ?thesis
    unfolding a [symmetric] q_def [symmetric] xs_def [symmetric] s_def [symmetric] by blast
qed

theorem removal_keeps_rest_witness:
  "(\<exists>rest. remove_if (\<lambda>x. x = 2) [9, 1, 2, 2, 3, 7 :: nat] 1 5 = Some ([9, 1, 3] @ rest @ [7], 3) \<and> length rest = 2) \<and>
   (\<exists>rest. unique_equal [9, 1, 2, 2, 3, 7 :: nat] 1 5 = Some ([9, 1, 2, 3] @ rest @ [7], 4) \<and> length rest = 1)"
  using removal_keeps_rest [of 1 5 "[9, 1, 2, 2, 3, 7 :: nat]" "\<lambda>x. x = 2"] by (simp add: slice_def eval_nat_numeral)

end
