(* ===== verification/Stl_Permutation.thy ===== *)
theory Stl_Permutation
  imports Stl_Partition
begin

text \<open>
  Permutations: \<open>next_permutation\<close>, \<open>prev_permutation\<close> and \<open>is_permutation\<close> of \<open>stl_algo.h\<close>, and the
  dictionary order they follow, \<open>lexicographical_compare\<close> of \<open>stl_algobase.h\<close>, in its three
  implementations.
\<close>

section \<open>Definitions\<close>

subsection \<open>Dictionary order\<close>

text \<open>For iterators that only go forward, where \<open>__cnd2\<close> looks for the end of the second range.\<close>

fun lexicographical_compare_input :: "('a \<Rightarrow> 'a \<Rightarrow> bool) \<Rightarrow> 'a list \<Rightarrow> 'a list \<Rightarrow> bool" where
  "lexicographical_compare_input cmp (x # xs) (y # ys) =
     (if cmp x y then True else if cmp y x then False else lexicographical_compare_input cmp xs ys)"
| "lexicographical_compare_input cmp xs ys = (xs = [] \<and> ys \<noteq> [])"

text \<open>For random access iterators, where \<open>__newlast1\<close> cuts the first range to the length of the second.\<close>

definition newlast1 :: "nat \<Rightarrow> nat \<Rightarrow> nat \<Rightarrow> nat \<Rightarrow> nat" where
  "newlast1 first1 last1 first2 last2 =
     (let diff1 = last1 - first1; diff2 = last2 - first2
      in if diff2 < diff1 then first1 + diff2 else last1)"

function lexicographical_compare_loop :: "('a \<Rightarrow> 'a \<Rightarrow> bool) \<Rightarrow> 'a list \<Rightarrow> nat \<Rightarrow> nat \<Rightarrow> 'a list \<Rightarrow> nat \<Rightarrow> nat \<Rightarrow>
    bool option" where
  "lexicographical_compare_loop cmp a first1 last1 b first2 last2 =
     (if first1 \<noteq> last1 then
        (case buf_get a first1 of None \<Rightarrow> None
         | Some x \<Rightarrow> (case buf_get b first2 of None \<Rightarrow> None
             | Some y \<Rightarrow>
                 if cmp x y then Some True
                 else if cmp y x then Some False
                 else lexicographical_compare_loop cmp a (first1 + 1) last1 b (first2 + 1) last2))
      else Some (first2 \<noteq> last2))"
  by pat_completeness auto
termination
  by (relation "measure (\<lambda>(cmp, a, first1, last1, b, first2, last2). length a - first1)")
    (auto simp: buf_get_def split: if_splits)

definition lexicographical_compare_impl :: "('a \<Rightarrow> 'a \<Rightarrow> bool) \<Rightarrow> 'a list \<Rightarrow> nat \<Rightarrow> nat \<Rightarrow> 'a list \<Rightarrow> nat \<Rightarrow> nat \<Rightarrow>
    bool option" where
  "lexicographical_compare_impl cmp a first1 last1 b first2 last2 =
     lexicographical_compare_loop cmp a first1 (newlast1 first1 last1 first2 last2) b first2 last2"

definition lexicographical_compare :: "('a \<Rightarrow> 'a \<Rightarrow> bool) \<Rightarrow> 'a list \<Rightarrow> nat \<Rightarrow> nat \<Rightarrow> 'a list \<Rightarrow> nat \<Rightarrow> nat \<Rightarrow>
    bool option" where
  "lexicographical_compare cmp a first1 last1 b first2 last2 = lexicographical_compare_impl cmp a first1 last1 b first2 last2"

text \<open>For arrays of unsigned bytes. \<open>memcmp\<close> promises the sign of its result only; here it is the difference.\<close>

fun memcmp :: "u8 list \<Rightarrow> u8 list \<Rightarrow> int" where
  "memcmp (x # xs) (y # ys) = (if x = y then memcmp xs ys else uint x - uint y)"
| "memcmp xs ys = 0"

definition lexicographical_compare_bytes :: "u8 list \<Rightarrow> u8 list \<Rightarrow> bool" where
  "lexicographical_compare_bytes xs ys =
     (let len = min (length xs) (length ys); result = memcmp (take len xs) (take len ys)
      in if len \<noteq> 0 \<and> result \<noteq> 0 then result < 0 else length xs < length ys)"

subsection \<open>Next and previous permutation\<close>

text \<open>The inner loop, which comes down from the end to the first element the one at \<open>i\<close> is smaller than.\<close>

fun next_permutation_scan :: "('a \<Rightarrow> 'a \<Rightarrow> bool) \<Rightarrow> 'a list \<Rightarrow> nat \<Rightarrow> nat \<Rightarrow> nat option" where
  "next_permutation_scan cmp a i 0 = None"
| "next_permutation_scan cmp a i (Suc j) = do {
     x \<leftarrow> buf_get a i;
     y \<leftarrow> buf_get a j;
     if \<not> cmp x y then next_permutation_scan cmp a i j else Some j }"

fun next_permutation_loop :: "('a \<Rightarrow> 'a \<Rightarrow> bool) \<Rightarrow> 'a list \<Rightarrow> nat \<Rightarrow> nat \<Rightarrow> nat \<Rightarrow> ('a list \<times> bool) option" where
  "next_permutation_loop cmp a first stop 0 = None"
| "next_permutation_loop cmp a first stop (Suc i) = do {
     let ii = Suc i;
     x \<leftarrow> buf_get a i;
     y \<leftarrow> buf_get a ii;
     if cmp x y then do {
       j \<leftarrow> next_permutation_scan cmp a i stop;
       a \<leftarrow> iter_swap a i j;
       a \<leftarrow> reverse_impl a ii stop;
       Some (a, True) }
     else if i = first then do {
       a \<leftarrow> reverse_impl a first stop;
       Some (a, False) }
     else next_permutation_loop cmp a first stop i }"

definition next_permutation_impl :: "('a \<Rightarrow> 'a \<Rightarrow> bool) \<Rightarrow> 'a list \<Rightarrow> nat \<Rightarrow> nat \<Rightarrow> ('a list \<times> bool) option" where
  "next_permutation_impl cmp a first stop =
     (if first = stop then Some (a, False)
      else if first + 1 = stop then Some (a, False)
      else next_permutation_loop cmp a first stop (stop - 1))"

definition next_permutation_less :: "'a :: linorder list \<Rightarrow> nat \<Rightarrow> nat \<Rightarrow> ('a list \<times> bool) option" where
  "next_permutation_less a first stop = next_permutation_impl iter_less_iter a first stop"

definition next_permutation :: "('a \<Rightarrow> 'a \<Rightarrow> bool) \<Rightarrow> 'a list \<Rightarrow> nat \<Rightarrow> nat \<Rightarrow> ('a list \<times> bool) option" where
  "next_permutation cmp a first stop = next_permutation_impl cmp a first stop"

fun prev_permutation_scan :: "('a \<Rightarrow> 'a \<Rightarrow> bool) \<Rightarrow> 'a list \<Rightarrow> nat \<Rightarrow> nat \<Rightarrow> nat option" where
  "prev_permutation_scan cmp a i 0 = None"
| "prev_permutation_scan cmp a i (Suc j) = do {
     y \<leftarrow> buf_get a j;
     x \<leftarrow> buf_get a i;
     if \<not> cmp y x then prev_permutation_scan cmp a i j else Some j }"

fun prev_permutation_loop :: "('a \<Rightarrow> 'a \<Rightarrow> bool) \<Rightarrow> 'a list \<Rightarrow> nat \<Rightarrow> nat \<Rightarrow> nat \<Rightarrow> ('a list \<times> bool) option" where
  "prev_permutation_loop cmp a first stop 0 = None"
| "prev_permutation_loop cmp a first stop (Suc i) = do {
     let ii = Suc i;
     y \<leftarrow> buf_get a ii;
     x \<leftarrow> buf_get a i;
     if cmp y x then do {
       j \<leftarrow> prev_permutation_scan cmp a i stop;
       a \<leftarrow> iter_swap a i j;
       a \<leftarrow> reverse_impl a ii stop;
       Some (a, True) }
     else if i = first then do {
       a \<leftarrow> reverse_impl a first stop;
       Some (a, False) }
     else prev_permutation_loop cmp a first stop i }"

definition prev_permutation_impl :: "('a \<Rightarrow> 'a \<Rightarrow> bool) \<Rightarrow> 'a list \<Rightarrow> nat \<Rightarrow> nat \<Rightarrow> ('a list \<times> bool) option" where
  "prev_permutation_impl cmp a first stop =
     (if first = stop then Some (a, False)
      else if first + 1 = stop then Some (a, False)
      else prev_permutation_loop cmp a first stop (stop - 1))"

definition prev_permutation_less :: "'a :: linorder list \<Rightarrow> nat \<Rightarrow> nat \<Rightarrow> ('a list \<times> bool) option" where
  "prev_permutation_less a first stop = prev_permutation_impl iter_less_iter a first stop"

definition prev_permutation :: "('a \<Rightarrow> 'a \<Rightarrow> bool) \<Rightarrow> 'a list \<Rightarrow> nat \<Rightarrow> nat \<Rightarrow> ('a list \<times> bool) option" where
  "prev_permutation cmp a first stop = prev_permutation_impl cmp a first stop"

subsection \<open>The test for a permutation\<close>

function is_permutation_prefix :: "('a \<Rightarrow> 'a \<Rightarrow> bool) \<Rightarrow> 'a list \<Rightarrow> nat \<Rightarrow> nat \<Rightarrow> 'a list \<Rightarrow> nat \<Rightarrow> (nat \<times> nat) option" where
  "is_permutation_prefix p a first1 last1 b first2 =
     (if first1 \<noteq> last1 then
        (case buf_get a first1 of None \<Rightarrow> None
         | Some x \<Rightarrow> (case buf_get b first2 of None \<Rightarrow> None
             | Some y \<Rightarrow>
                 if \<not> p x y then Some (first1, first2)
                 else is_permutation_prefix p a (first1 + 1) last1 b (first2 + 1)))
      else Some (first1, first2))"
  by pat_completeness auto
termination
  by (relation "measure (\<lambda>(p, a, first1, last1, b, first2). length a - first1)")
    (auto simp: buf_get_def split: if_splits)

function is_permutation_scan :: "('a \<Rightarrow> 'a \<Rightarrow> bool) \<Rightarrow> 'a list \<Rightarrow> nat \<Rightarrow> nat \<Rightarrow> nat \<Rightarrow> 'a list \<Rightarrow> nat \<Rightarrow> nat \<Rightarrow> bool option" where
  "is_permutation_scan p a first1 scan last1 b first2 last2 =
     (if scan < last1 then do {
        v \<leftarrow> buf_get a scan;
        i \<leftarrow> find_if_impl (\<lambda>x. p x v) a first1 scan;
        if scan \<noteq> i then is_permutation_scan p a first1 (scan + 1) last1 b first2 last2
        else do {
          matches \<leftarrow> count_if_impl (\<lambda>x. p x v) b first2 last2;
          n \<leftarrow> count_if_impl (\<lambda>x. p x v) a scan last1;
          if matches = 0 \<or> n \<noteq> matches then Some False
          else is_permutation_scan p a first1 (scan + 1) last1 b first2 last2 } }
      else Some True)"
  by pat_completeness auto
termination
  by (relation "measure (\<lambda>(p, a, first1, scan, last1, b, first2, last2). last1 - scan)") auto

definition is_permutation_impl :: "('a \<Rightarrow> 'a \<Rightarrow> bool) \<Rightarrow> 'a list \<Rightarrow> nat \<Rightarrow> nat \<Rightarrow> 'a list \<Rightarrow> nat \<Rightarrow> bool option" where
  "is_permutation_impl p a first1 last1 b first2 = do {
     (first1, first2) \<leftarrow> is_permutation_prefix p a first1 last1 b first2;
     if first1 = last1 then Some True
     else is_permutation_scan p a first1 first1 last1 b first2 (first2 + (last1 - first1)) }"

definition is_permutation_equal :: "'a list \<Rightarrow> nat \<Rightarrow> nat \<Rightarrow> 'a list \<Rightarrow> nat \<Rightarrow> bool option" where
  "is_permutation_equal a first1 last1 b first2 = is_permutation_impl (=) a first1 last1 b first2"

definition is_permutation :: "('a \<Rightarrow> 'a \<Rightarrow> bool) \<Rightarrow> 'a list \<Rightarrow> nat \<Rightarrow> nat \<Rightarrow> 'a list \<Rightarrow> nat \<Rightarrow> bool option" where
  "is_permutation p a first1 last1 b first2 = is_permutation_impl p a first1 last1 b first2"

declare lexicographical_compare_loop.simps [simp del] is_permutation_prefix.simps [simp del]
  is_permutation_scan.simps [simp del]

section \<open>Dictionary order\<close>

lemma lexicographical_compare_loop_input:
  assumes "f1 = length p" and "f2 = length q" and "n = f1 + min (length xs) (length ys)" and "r2 = f2 + length ys"
  shows "lexicographical_compare_loop cmp (p @ xs @ s) f1 n (q @ ys @ t) f2 r2 = Some (lexicographical_compare_input cmp xs ys)"
  using assms
proof (induction cmp xs ys arbitrary: p q f1 f2 rule: lexicographical_compare_input.induct)
  case (1 cmp x xs y ys)
  have "lexicographical_compare_loop cmp ((p @ [x]) @ xs @ s) (f1 + 1) n ((q @ [y]) @ ys @ t) (f2 + 1) r2 =
      Some (lexicographical_compare_input cmp xs ys)" if "\<not> cmp x y" "\<not> cmp y x"
    using 1 that by (intro "1.IH") simp_all
  then show ?case
    using "1.prems" by (subst lexicographical_compare_loop.simps) (simp add: buf_get_append)
qed (subst lexicographical_compare_loop.simps, simp)+

lemma lexicographical_compare_slices:
  assumes "f1 \<le> r1" and "r1 \<le> length a" and "f2 \<le> r2" and "r2 \<le> length b"
  shows "lexicographical_compare_impl cmp a f1 r1 b f2 r2 =
    Some (lexicographical_compare_input cmp (slice a f1 r1) (slice b f2 r2))"
proof -
  have "lexicographical_compare_loop cmp (take f1 a @ slice a f1 r1 @ drop r1 a) f1 (newlast1 f1 r1 f2 r2)
      (take f2 b @ slice b f2 r2 @ drop r2 b) f2 r2 =
      Some (lexicographical_compare_input cmp (slice a f1 r1) (slice b f2 r2))"
    using assms by (intro lexicographical_compare_loop_input) (auto simp: newlast1_def Let_def)
  then show ?thesis
    using split_slice [OF assms(1,2)] split_slice [OF assms(3,4)] by (simp add: lexicographical_compare_impl_def)
qed

lemma memcmp_order:
  "(if memcmp (take (min (length xs) (length ys)) xs) (take (min (length xs) (length ys)) ys) \<noteq> 0
    then memcmp (take (min (length xs) (length ys)) xs) (take (min (length xs) (length ys)) ys) < 0
    else length xs < length ys) = lexicographical_compare_input iter_less_iter xs ys"
proof (induction "iter_less_iter :: u8 \<Rightarrow> u8 \<Rightarrow> bool" xs ys rule: lexicographical_compare_input.induct)
  case (1 x xs y ys)
  consider "x < y" | "y < x" | "x = y"
    by force
  then show ?case
    using 1 by cases (auto simp: iter_less_iter_def word_less_def)
qed (auto simp: neq_Nil_conv)

lemma lexicographical_compare_bytes_order:
  "lexicographical_compare_bytes xs ys = lexicographical_compare_input iter_less_iter xs ys"
  using memcmp_order [of xs ys]
  by (cases "min (length xs) (length ys) = 0") (auto simp: lexicographical_compare_bytes_def Let_def)

lemma lexicographical_compare_lexordp:
  "lexicographical_compare_input iter_less_iter xs ys = ord_class.lexordp xs ys"
  by (induction "iter_less_iter :: 'a \<Rightarrow> 'a \<Rightarrow> bool" xs ys rule: lexicographical_compare_input.induct)
    (auto simp: iter_less_iter_def neq_Nil_conv)

text \<open>
  \<open>std::lexicographical_compare\<close> for random access iterators stays inside both
  ranges and agrees with the implementation for input iterators; on arrays of unsigned bytes, where
  it calls \<open>memcmp\<close>, and on every totally ordered type it decides the dictionary order.
\<close>

theorem lexicographical_compare_agree:
  assumes "first1 \<le> last1" and "last1 \<le> length a" and "first2 \<le> last2" and "last2 \<le> length b"
  shows "lexicographical_compare cmp a first1 last1 b first2 last2 =
      Some (lexicographical_compare_input cmp (slice a first1 last1) (slice b first2 last2)) \<and>
    lexicographical_compare iter_less_iter c 0 (length c) d 0 (length d) = Some (ord_class.lexordp c d) \<and>
    lexicographical_compare_bytes xs ys = ord_class.lexordp xs ys"
  using lexicographical_compare_slices [OF assms, of cmp]
    lexicographical_compare_slices [of 0 "length c" c 0 "length d" d iter_less_iter]
  by (simp add: lexicographical_compare_def lexicographical_compare_bytes_order lexicographical_compare_lexordp slice_def)

theorem lexicographical_compare_agree_witness:
  "lexicographical_compare iter_less_iter [9, 1, 2 :: nat] 1 3 [1, 1, 5] 1 3 = Some True \<and>
   lexicographical_compare iter_less_iter [2 :: int] 0 1 [1] 0 1 = Some False \<and>
   lexicographical_compare_bytes [200] [3, 4] = False"
  using lexicographical_compare_agree [of 1 3 "[9, 1, 2 :: nat]" 1 3 "[1, 1, 5]" iter_less_iter "[2 :: int]" "[1]" "[200]" "[3, 4]"]
  by (simp add: slice_def iter_less_iter_def)

section \<open>Permutations in dictionary order\<close>

abbreviation same_groups :: "('a \<Rightarrow> 'a \<Rightarrow> bool) \<Rightarrow> 'a list \<Rightarrow> 'a list \<Rightarrow> bool" where
  "same_groups cmp xs ys \<equiv> \<forall>v. length (group cmp v xs) = length (group cmp v ys)"

lemma mset_same_groups: "mset xs = mset ys \<Longrightarrow> same_groups cmp xs ys"
  using mset_eq_length [of "group cmp v xs" "group cmp v ys" for v] by simp

text \<open>The next permutation, or the first one after the last.\<close>

definition cyclic_successor :: "('a \<Rightarrow> 'a \<Rightarrow> bool) \<Rightarrow> 'a list \<Rightarrow> 'a list \<Rightarrow> bool \<Rightarrow> bool" where
  "cyclic_successor cmp xs ys more \<longleftrightarrow> mset ys = mset xs \<and>
     (if more then lexicographical_compare_input cmp xs ys \<and>
        (\<forall>zs. mset zs = mset xs \<longrightarrow> lexicographical_compare_input cmp xs zs \<longrightarrow> \<not> lexicographical_compare_input cmp zs ys)
      else (\<forall>zs. mset zs = mset xs \<longrightarrow>
        \<not> lexicographical_compare_input cmp xs zs \<and> \<not> lexicographical_compare_input cmp zs ys))"

definition cyclic_predecessor :: "('a \<Rightarrow> 'a \<Rightarrow> bool) \<Rightarrow> 'a list \<Rightarrow> 'a list \<Rightarrow> bool \<Rightarrow> bool" where
  "cyclic_predecessor cmp xs ys more \<longleftrightarrow> mset ys = mset xs \<and>
     (if more then lexicographical_compare_input cmp ys xs \<and>
        (\<forall>zs. mset zs = mset xs \<longrightarrow> lexicographical_compare_input cmp zs xs \<longrightarrow> \<not> lexicographical_compare_input cmp ys zs)
      else (\<forall>zs. mset zs = mset xs \<longrightarrow>
        \<not> lexicographical_compare_input cmp zs xs \<and> \<not> lexicographical_compare_input cmp ys zs))"

lemma lex_flip:
  assumes "length xs = length ys"
  shows "lexicographical_compare_input (\<lambda>x y. cmp y x) xs ys = lexicographical_compare_input cmp ys xs"
  using assms by (induction xs ys rule: list_induct2) auto

lemma predecessor_flip: "cyclic_successor (\<lambda>x y. cmp y x) xs ys more \<longleftrightarrow> cyclic_predecessor cmp xs ys more"
proof (cases "mset ys = mset xs")
  case True
  have flip: "lexicographical_compare_input (\<lambda>x y. cmp y x) us vs = lexicographical_compare_input cmp vs us"
    if "mset us = mset xs" "mset vs = mset xs" for us vs
    using that by (intro lex_flip mset_eq_length) simp
  show ?thesis
    by (simp add: cyclic_successor_def cyclic_predecessor_def True flip)
qed (simp add: cyclic_successor_def cyclic_predecessor_def)

context strict_weak_ordering
begin

lemma flip: "strict_weak_ordering (\<lambda>x y. cmp y x)"
  using cmp_asym cmp_split by unfold_locales blast+

lemma lex_append:
  assumes "length us = length vs"
  shows "lexicographical_compare_input cmp (us @ xs) (vs @ ys) \<longleftrightarrow>
    lexicographical_compare_input cmp us vs \<or>
    list_all2 (equivalent cmp) us vs \<and> lexicographical_compare_input cmp xs ys"
  using assms by (induction us vs rule: list_induct2) (auto simp: equivalent_def dest: cmp_asym)

lemma lex_asym: "lexicographical_compare_input cmp xs ys \<Longrightarrow> \<not> lexicographical_compare_input cmp ys xs"
  by (induction xs ys rule: list_induct2') (auto split: if_splits dest: cmp_asym)

lemma equivalent_cong: "equivalent cmp x y \<Longrightarrow> equivalent cmp v x = equivalent cmp v y"
  unfolding equivalent_def using cmp_split by blast

lemma equivalent_refl [simp]: "equivalent cmp x x"
  by (simp add: equivalent_def)

lemma equivalent_groups: "list_all2 (equivalent cmp) us vs \<Longrightarrow> same_groups cmp us vs"
  by (induction rule: list_all2_induct) (auto simp: equivalent_cong)

lemma lex_equivalent: "list_all2 (equivalent cmp) us vs \<Longrightarrow> \<not> lexicographical_compare_input cmp vs us"
  by (induction rule: list_all2_induct) (auto simp: equivalent_def)

lemma member_of_group:
  assumes "same_groups cmp xs ys" and "y \<in> set ys"
  obtains x where "x \<in> set xs" "equivalent cmp y x"
proof -
  have "group cmp y ys \<noteq> []"
    using assms(2) equivalent_refl unfolding filter_empty_conv by blast
  then have "group cmp y xs \<noteq> []"
    using assms(1) by (metis length_0_conv)
  then show ?thesis
    using that by (auto simp: filter_empty_conv)
qed

lemma same_groups_tail:
  assumes "same_groups cmp (x # xs) (y # ys)" and "equivalent cmp x y"
  shows "same_groups cmp xs ys"
proof
  fix v
  show "length (group cmp v xs) = length (group cmp v ys)"
    using assms(1) [rule_format, of v] equivalent_cong [OF assms(2), of v] by (simp split: if_splits)
qed

text \<open>No permutation comes after a sequence that goes down, and none before one that goes up.\<close>

lemma lex_greatest:
  assumes "length xs = length ys" and "sorted_wrt (\<lambda>x y. \<not> cmp x y) xs" and "same_groups cmp xs ys"
  shows "\<not> lexicographical_compare_input cmp xs ys"
  using assms
proof (induction xs ys rule: list_induct2)
  case (Cons x xs y ys)
  obtain z where z: "z \<in> set (x # xs)" "equivalent cmp y z"
    using member_of_group [OF Cons.prems(2), of y] by auto
  have "\<not> cmp x z"
    using z(1) Cons.prems(1) by auto
  then have less: "\<not> cmp x y"
    using z(2) cmp_split [of x y z] by (auto simp: equivalent_def)
  show ?case
  proof (cases "cmp y x")
    case False
    then have "same_groups cmp xs ys"
      using less by (intro same_groups_tail [OF Cons.prems(2)]) (simp add: equivalent_def)
    then show ?thesis
      using Cons.IH Cons.prems(1) less by simp
  qed (simp add: less)
qed simp

lemma lex_least:
  assumes "length xs = length ys" and "sorted_seq cmp xs" and "same_groups cmp xs ys"
  shows "\<not> lexicographical_compare_input cmp ys xs"
  using assms
proof (induction xs ys rule: list_induct2)
  case (Cons x xs y ys)
  obtain z where z: "z \<in> set (x # xs)" "equivalent cmp y z"
    using member_of_group [OF Cons.prems(2), of y] by auto
  have "\<not> cmp z x"
    using z(1) Cons.prems(1) by auto
  then have less: "\<not> cmp y x"
    using z(2) cmp_split [of y x z] by (auto simp: equivalent_def)
  show ?case
  proof (cases "cmp x y")
    case False
    then have "same_groups cmp xs ys"
      using less by (intro same_groups_tail [OF Cons.prems(2)]) (simp add: equivalent_def)
    then show ?thesis
      using Cons.IH Cons.prems(1) less by simp
  qed (simp add: less)
qed simp

lemma successor_wrap:
  assumes "sorted_wrt (\<lambda>x y. \<not> cmp x y) xs"
  shows "cyclic_successor cmp xs (rev xs) False"
proof -
  have "\<not> lexicographical_compare_input cmp xs zs \<and> \<not> lexicographical_compare_input cmp zs (rev xs)"
    if "mset zs = mset xs" for zs
  proof -
    have len: "length xs = length zs"
      using mset_eq_length [OF that] by simp
    have "same_groups cmp xs zs"
      using that by (intro mset_same_groups) simp
    moreover have "same_groups cmp (rev xs) zs"
      using that by (intro mset_same_groups) simp
    moreover have "sorted_seq cmp (rev xs)"
      using assms by (simp add: sorted_wrt_rev)
    ultimately show ?thesis
      using lex_greatest [OF len assms] lex_least [of "rev xs" zs] len by (metis length_rev)
  qed
  then show ?thesis
    by (simp add: cyclic_successor_def)
qed

lemma successor_swap:
  assumes down: "sorted_wrt (\<lambda>x y. \<not> cmp x y) (ws @ y # vs)" and "cmp x y" and "\<And>z. z \<in> set vs \<Longrightarrow> \<not> cmp x z"
  shows "cyclic_successor cmp (us @ x # ws @ y # vs) (us @ y # rev (ws @ x # vs)) True"
proof -
  let ?xs = "us @ x # ws @ y # vs" and ?ys = "us @ y # rev (ws @ x # vs)"
  have "\<not> cmp w x" if "w \<in> set ws" for w
    using that down assms(2) cmp_trans [of w x y] by (auto simp: sorted_wrt_append)
  then have up: "sorted_seq cmp (rev (ws @ x # vs))"
    using down assms(3) by (simp add: sorted_wrt_append sorted_wrt_rev)
  have between: "\<not> cmp x z \<or> \<not> cmp z y" if "z \<in> set (x # ws @ y # vs)" for z
    using that down assms(2,3) by (auto simp: sorted_wrt_append)
  have none: "\<not> lexicographical_compare_input cmp zs ?ys"
    if mset: "mset zs = mset ?xs" and after: "lexicographical_compare_input cmp ?xs zs" for zs
  proof -
    have "length zs = length ?xs"
      using mset by (rule mset_eq_length)
    then obtain ps z rest where zs: "zs = ps @ z # rest" and len: "length us = length ps" "length rest = length ws + Suc (length vs)"
      using id_take_nth_drop [of "length us" zs] that by (auto simp: not_less)
    show ?thesis
    proof (cases "lexicographical_compare_input cmp us ps")
      case True
      then show ?thesis
        unfolding zs lex_append [OF len(1) [symmetric]] using lex_asym lex_equivalent by blast
    next
      case False
      then have ps: "list_all2 (equivalent cmp) us ps" and rest: "lexicographical_compare_input cmp (x # ws @ y # vs) (z # rest)"
        using after unfolding zs lex_append [OF len(1)] by blast+
      have groups: "same_groups cmp (x # ws @ y # vs) (z # rest)"
        using equivalent_groups [OF ps] mset_same_groups [OF mset, of cmp] unfolding zs by simp
      have "\<not> lexicographical_compare_input cmp (ws @ y # vs) rest" if "equivalent cmp x z"
        using down same_groups_tail [OF groups that] len(2) by (intro lex_greatest) simp_all
      then have "cmp x z"
        using rest by (auto simp: equivalent_def split: if_splits)
      moreover obtain e where "e \<in> set (x # ws @ y # vs)" "equivalent cmp z e"
        using member_of_group [OF groups, of z] by auto
      ultimately have less: "\<not> cmp z y"
        using between [of e] cmp_split [of x z e] cmp_split [of z y e] by (auto simp: equivalent_def)
      have "\<not> lexicographical_compare_input cmp rest (rev (ws @ x # vs))" if "\<not> cmp y z"
      proof -
        have "mset (x # ws @ y # vs) = mset (y # rev (ws @ x # vs))"
          by simp
        then have "same_groups cmp (y # rev (ws @ x # vs)) (z # rest)"
          using groups mset_same_groups [of "x # ws @ y # vs" "y # rev (ws @ x # vs)" cmp] by metis
        then have "same_groups cmp (rev (ws @ x # vs)) rest"
          using that less by (elim same_groups_tail) (simp add: equivalent_def)
        then show ?thesis
          using up len(2) by (intro lex_least) simp_all
      qed
      then have "\<not> lexicographical_compare_input cmp (z # rest) (y # rev (ws @ x # vs))"
        using less by (cases "cmp y z") simp_all
      moreover have "\<not> lexicographical_compare_input cmp ps us"
        using ps lex_equivalent by blast
      ultimately show ?thesis
        unfolding zs lex_append [OF len(1) [symmetric]] by blast
    qed
  qed
  then show ?thesis
    using assms(2) by (simp add: cyclic_successor_def lex_append list_all2_refl)
qed

text \<open>What the loops do.\<close>

lemma next_permutation_scan_finds:
  assumes "i = length q" and "k = i + Suc (length ws)" and "j = Suc k + length vs"
    and "cmp x y" and "\<And>z. z \<in> set vs \<Longrightarrow> \<not> cmp x z"
  shows "next_permutation_scan cmp (q @ x # ws @ y # vs @ s) i j = Some k"
  using assms(3,5)
proof (induction vs arbitrary: j s rule: rev_induct)
  case Nil
  then show ?case
    using assms(1,2,4) buf_get_append [of i q x "ws @ y # s"] buf_get_append [of k "q @ x # ws" y s] by simp
next
  case (snoc v vs)
  obtain j' where j: "j = Suc j'" "j' = Suc k + length vs"
    using snoc.prems(1) by simp
  have "next_permutation_scan cmp (q @ x # ws @ y # vs @ v # s) i j' = Some k"
    using snoc j(2) by simp
  then show ?case
    using j assms(1,2) snoc.prems(2) buf_get_append [of i q x "ws @ y # vs @ v # s"]
      buf_get_append [of j' "q @ x # ws @ y # vs" v s] by simp
qed

lemma next_permutation_loop_successor:
  assumes "f = length p" and "ii = f + length us" and "r = ii + length ws" and "us \<noteq> []" and "ws \<noteq> []"
    and "sorted_wrt (\<lambda>x y. \<not> cmp x y) ws"
  shows "\<exists>ys more. next_permutation_loop cmp (p @ us @ ws @ s) f r ii = Some (p @ ys @ s, more) \<and>
    cyclic_successor cmp (us @ ws) ys more"
  using assms
proof (induction us arbitrary: ws ii rule: rev_induct)
  case (snoc x us)
  obtain w ws' where ws: "ws = w # ws'"
    using snoc.prems(5) by (cases ws) auto
  define i where "i = f + length us"
  have ii: "ii = Suc i" "i = length (p @ us)"
    using snoc.prems(1,2) by (simp_all add: i_def)
  have get: "buf_get (p @ us @ x # ws @ s) i = Some x" "buf_get (p @ us @ x # ws @ s) ii = Some w"
    using buf_get_append [of i "p @ us" x "ws @ s"] buf_get_append [of ii "p @ us @ [x]" w "ws' @ s"] ii ws by simp_all
  show ?case
  proof (cases "cmp x w")
    case True
    then obtain bs y vs where split: "ws = bs @ y # vs" "cmp x y" "\<And>z. z \<in> set vs \<Longrightarrow> \<not> cmp x z"
      using split_list_last_prop [of ws "cmp x"] ws by auto
    let ?k = "i + Suc (length bs)"
    have "next_permutation_scan cmp (p @ us @ x # ws @ s) i r = Some ?k"
      using next_permutation_scan_finds [of i "p @ us" ?k bs r vs x y s] split ii snoc.prems(3) by simp
    moreover have "iter_swap (p @ us @ x # ws @ s) i ?k = Some (p @ us @ y # bs @ x # vs @ s)"
      using iter_swap_append [of i "p @ us" ?k bs x y "vs @ s"] split(1) ii by simp
    moreover have "reverse_impl (p @ us @ y # bs @ x # vs @ s) ii r = Some (p @ us @ y # rev (bs @ x # vs) @ s)"
      using reverse_impl_rev [of ii "p @ us @ [y]" r "bs @ x # vs" s] split(1) ii snoc.prems(3) by simp
    ultimately have "next_permutation_loop cmp (p @ us @ x # ws @ s) f r ii = Some (p @ (us @ y # rev (bs @ x # vs)) @ s, True)"
      using True get ii by simp
    moreover have "cyclic_successor cmp (us @ x # bs @ y # vs) (us @ y # rev (bs @ x # vs)) True"
      using snoc.prems(6) split by (intro successor_swap) simp_all
    ultimately show ?thesis
      using split(1) by auto
  next
    case False
    then have down: "sorted_wrt (\<lambda>x y. \<not> cmp x y) (x # ws)"
      using snoc.prems(6) cmp_split [of x _ w] by (auto simp: ws)
    show ?thesis
    proof (cases "us = []")
      case True
      then have "next_permutation_loop cmp (p @ us @ x # ws @ s) f r ii = Some (p @ rev (x # ws) @ s, False)"
        using False get ii i_def reverse_impl_rev [of f p r "x # ws" s] snoc.prems(1,3) by simp
      then show ?thesis
        using successor_wrap [OF down] True by auto
    next
      case nonempty: False
      then have "next_permutation_loop cmp (p @ us @ x # ws @ s) f r ii = next_permutation_loop cmp (p @ us @ (x # ws) @ s) f r i"
        using False get ii i_def by simp
      then show ?thesis
        using snoc.IH [of i "x # ws"] down nonempty snoc.prems(1,3) ii i_def by simp
    qed
  qed
qed simp

lemma next_permutation_impl_successor:
  assumes "f = length p" and "r = f + length xs"
  shows "\<exists>ys more. next_permutation_impl cmp (p @ xs @ s) f r = Some (p @ ys @ s, more) \<and> cyclic_successor cmp xs ys more"
proof (cases "length xs \<le> 1")
  case True
  then have "rev xs = xs" "sorted_wrt (\<lambda>x y. \<not> cmp x y) xs"
    by (cases xs; simp)+
  then show ?thesis
    using successor_wrap [of xs] True assms by (auto simp: next_permutation_impl_def le_Suc_eq)
next
  case False
  then obtain us w where "xs = us @ [w]" "us \<noteq> []"
    by (cases xs rule: rev_cases) auto
  then show ?thesis
    using next_permutation_loop_successor [of f p "r - 1" us r "[w]" s] assms
    by (auto simp: next_permutation_impl_def)
qed

end

lemma prev_permutation_scan_flip: "prev_permutation_scan cmp a i j = next_permutation_scan (\<lambda>x y. cmp y x) a i j"
  by (induction j) (auto simp: bind_eq_None_conv split: bind_splits)

lemma prev_permutation_loop_flip:
  "prev_permutation_loop cmp a first stop ii = next_permutation_loop (\<lambda>x y. cmp y x) a first stop ii"
  by (induction ii) (auto simp: prev_permutation_scan_flip split: bind_splits)

lemma prev_permutation_impl_flip: "prev_permutation_impl cmp a first stop = next_permutation_impl (\<lambda>x y. cmp y x) a first stop"
  by (simp add: prev_permutation_impl_def next_permutation_impl_def prev_permutation_loop_flip)

section \<open>Properties of the permutations\<close>

lemma next_permutation_slice:
  assumes "strict_weak_ordering cmp" and "first \<le> stop" and "stop \<le> length a"
  shows "\<exists>ys more. next_permutation_impl cmp a first stop = Some (take first a @ ys @ drop stop a, more) \<and>
    cyclic_successor cmp (slice a first stop) ys more"
  using strict_weak_ordering.next_permutation_impl_successor
      [OF assms(1), of first "take first a" stop "slice a first stop" "drop stop a"]
    split_slice [OF assms(2,3)] assms(2,3) by simp

lemma prev_permutation_slice:
  assumes "strict_weak_ordering cmp" and "first \<le> stop" and "stop \<le> length a"
  shows "\<exists>ys more. prev_permutation_impl cmp a first stop = Some (take first a @ ys @ drop stop a, more) \<and>
    cyclic_predecessor cmp (slice a first stop) ys more"
  using next_permutation_slice [OF strict_weak_ordering.flip [OF assms(1)] assms(2,3)]
  by (simp add: prev_permutation_impl_flip predecessor_flip)

text \<open>
  C13. \<open>std::next_permutation\<close> and \<open>std::prev_permutation\<close> rearrange the range into the
  permutation that follows or precedes it in dictionary order, with no permutation in between, and
  return true; from the last (first) one they go to the first (last) and return false. This holds
  for every strict weak ordering; nothing outside the range is read or changed.
\<close>

theorem next_permutation_successor:
  assumes "strict_weak_ordering cmp" and "first \<le> stop" and "stop \<le> length a"
  shows "(\<exists>ys more. next_permutation cmp a first stop = Some (take first a @ ys @ drop stop a, more) \<and>
      cyclic_successor cmp (slice a first stop) ys more) \<and>
    (\<exists>ys more. prev_permutation cmp a first stop = Some (take first a @ ys @ drop stop a, more) \<and>
      cyclic_predecessor cmp (slice a first stop) ys more)"
  using next_permutation_slice [OF assms] prev_permutation_slice [OF assms]
  by (simp add: next_permutation_def prev_permutation_def)

theorem next_permutation_successor_witness:
  "(\<exists>ys more. next_permutation iter_less_iter [9, 1, 3, 2, 7 :: nat] 1 4 = Some (9 # ys @ [7], more) \<and>
     cyclic_successor iter_less_iter [1, 3, 2] ys more) \<and>
   (\<exists>ys more. prev_permutation iter_less_iter [9, 1, 3, 2, 7 :: nat] 1 4 = Some (9 # ys @ [7], more) \<and>
     cyclic_predecessor iter_less_iter [1, 3, 2] ys more)"
  using next_permutation_successor [OF less.strict_weak_ordering_axioms, of 1 4 "[9, 1, 3, 2, 7 :: nat]"]
  by (simp add: slice_def eval_nat_numeral)

text \<open>On totally ordered values two permutations of which neither comes first are equal.\<close>

lemma lex_total:
  assumes "length xs = length ys"
  shows "lexicographical_compare_input iter_less_iter xs ys \<or> xs = ys \<or> lexicographical_compare_input iter_less_iter ys xs"
  using assms by (induction xs ys rule: list_induct2) (auto simp: iter_less_iter_def)

lemma lex_trans:
  assumes "lexicographical_compare_input iter_less_iter xs ys" and "lexicographical_compare_input iter_less_iter ys zs"
  shows "lexicographical_compare_input iter_less_iter xs zs"
  using assms unfolding lexicographical_compare_lexordp by (rule lexordp_trans)

lemma lex_irrefl: "\<not> lexicographical_compare_input iter_less_iter xs xs"
  using less.lex_asym by blast

lemma successor_predecessor:
  assumes "cyclic_successor iter_less_iter xs ys more" and "cyclic_predecessor iter_less_iter ys zs more'"
  shows "zs = xs \<and> more' = more"
proof -
  let ?lex = "lexicographical_compare_input iter_less_iter"
  have mset: "mset ys = mset xs" "mset zs = mset xs"
    using assms by (simp_all add: cyclic_successor_def cyclic_predecessor_def)
  then have total: "?lex xs zs \<or> xs = zs \<or> ?lex zs xs"
    using lex_total [of xs zs] by (metis mset_eq_length)
  show ?thesis
  proof (cases more)
    case True
    then have "?lex xs ys" "\<And>us. mset us = mset xs \<Longrightarrow> ?lex xs us \<Longrightarrow> \<not> ?lex us ys"
      using assms(1) by (simp_all add: cyclic_successor_def)
    moreover from this have more': more'
      using assms(2) mset by (auto simp: cyclic_predecessor_def split: if_splits)
    moreover from this have "?lex zs ys" "\<And>us. mset us = mset xs \<Longrightarrow> ?lex us ys \<Longrightarrow> \<not> ?lex zs us"
      using assms(2) mset by (simp_all add: cyclic_predecessor_def)
    ultimately show ?thesis
      using total mset True by blast
  next
    case False
    then have first: "\<And>us. mset us = mset xs \<Longrightarrow> \<not> ?lex xs us" "\<And>us. mset us = mset xs \<Longrightarrow> \<not> ?lex us ys"
      using assms(1) by (simp_all add: cyclic_successor_def)
    then have "\<not> more'"
      using assms(2) mset by (auto simp: cyclic_predecessor_def split: if_splits)
    moreover from this have "\<And>us. mset us = mset xs \<Longrightarrow> \<not> ?lex zs us"
      using assms(2) mset by (simp add: cyclic_predecessor_def)
    ultimately show ?thesis
      using total mset first(1) False by blast
  qed
qed

lemma slice_middle:
  assumes "first \<le> stop" and "stop \<le> length a" and "length ys = stop - first"
  shows "slice (take first a @ ys @ drop stop a) first stop = ys"
    and "take first (take first a @ ys @ drop stop a) = take first a"
    and "drop stop (take first a @ ys @ drop stop a) = drop stop a"
    and "stop \<le> length (take first a @ ys @ drop stop a)"
  using assms by (auto simp: slice_def)

text \<open>
  On totally ordered values \<open>std::prev_permutation\<close> takes back \<open>std::next_permutation\<close>,
  also across the wrap, and the two return the same value.
\<close>

theorem permutation_roundtrip:
  assumes "first \<le> stop" and "stop \<le> length (a :: 'a :: linorder list)"
  shows "\<exists>b more. next_permutation_less a first stop = Some (b, more) \<and> prev_permutation_less b first stop = Some (a, more)"
proof -
  obtain ys more where succ: "next_permutation_impl iter_less_iter a first stop = Some (take first a @ ys @ drop stop a, more)"
      "cyclic_successor iter_less_iter (slice a first stop) ys more"
    using next_permutation_slice [OF less.strict_weak_ordering_axioms assms] by blast
  let ?b = "take first a @ ys @ drop stop a"
  have "mset ys = mset (slice a first stop)"
    using succ(2) by (simp add: cyclic_successor_def)
  then have "length ys = stop - first"
    using mset_eq_length assms(2) by fastforce
  note b = slice_middle [OF assms this]
  obtain zs more' where "prev_permutation_impl iter_less_iter ?b first stop = Some (take first a @ zs @ drop stop a, more')"
      "cyclic_predecessor iter_less_iter ys zs more'"
    using prev_permutation_slice [OF less.strict_weak_ordering_axioms assms(1) b(4)] unfolding b(1-3) by blast
  then show ?thesis
    using successor_predecessor [OF succ(2)] succ(1) split_slice [OF assms]
    by (auto simp: next_permutation_less_def prev_permutation_less_def)
qed

theorem permutation_roundtrip_witness:
  "\<exists>b more. next_permutation_less [9, 3, 2, 1, 7 :: nat] 1 4 = Some (b, more) \<and>
    prev_permutation_less b 1 4 = Some ([9, 3, 2, 1, 7], more)"
  using permutation_roundtrip [of 1 4 "[9, 3, 2, 1, 7 :: nat]"] by simp

text \<open>Permutations in dictionary order are finitely many, so steps from one to the next reach all later ones.\<close>

abbreviation permutation_step :: "nat \<Rightarrow> nat \<Rightarrow> 'a :: linorder list \<Rightarrow> 'a list \<Rightarrow> bool" where
  "permutation_step first stop b c \<equiv> \<exists>more. next_permutation_less b first stop = Some (c, more)"

lemma finite_permutations: "finite {ys. mset ys = mset xs \<and> P ys}"
proof (rule finite_subset)
  show "{ys. mset ys = mset xs \<and> P ys} \<subseteq> {ys. set ys \<subseteq> set xs \<and> length ys = length xs}"
    using mset_eq_setD mset_eq_length by blast
qed (simp add: finite_lists_length_eq)

lemma permutations_climb:
  assumes "f = length p" and "r = f + length xs" and "mset ys = mset xs"
    and "xs = ys \<or> lexicographical_compare_input iter_less_iter xs ys"
  shows "(permutation_step f r)\<^sup>*\<^sup>* (p @ xs @ s) (p @ ys @ s)"
  using assms(2-)
proof (induction "card {zs. mset zs = mset ys \<and> lexicographical_compare_input iter_less_iter xs zs}" arbitrary: xs rule: less_induct)
  case less
  let ?lex = "lexicographical_compare_input iter_less_iter"
  show ?case
  proof (cases "xs = ys")
    case True
    show ?thesis
      unfolding True by (rule rtranclp.rtrancl_refl)
  next
    case False
    then have later: "?lex xs ys"
      using less.prems(3) by blast
    obtain zs more where step: "next_permutation_less (p @ xs @ s) f r = Some (p @ zs @ s, more)" "cyclic_successor iter_less_iter xs zs more"
      using less.next_permutation_impl_successor [OF assms(1) less.prems(1), of s] by (auto simp: next_permutation_less_def)
    then have zs: "mset zs = mset xs" "?lex xs zs" "\<not> ?lex ys zs"
      using later less.prems(2) by (auto simp: cyclic_successor_def split: if_splits)
    then have len: "length zs = length xs" "length zs = length ys"
      using less.prems(2) by (metis mset_eq_length)+
    have "{us. mset us = mset ys \<and> ?lex zs us} \<subseteq> {us. mset us = mset ys \<and> ?lex xs us}"
      using lex_trans [OF zs(2)] by auto
    moreover have "zs \<in> {us. mset us = mset ys \<and> ?lex xs us}" "zs \<notin> {us. mset us = mset ys \<and> ?lex zs us}"
      using zs less.prems(2) by (simp_all add: lex_irrefl)
    ultimately have "{us. mset us = mset ys \<and> ?lex zs us} \<subset> {us. mset us = mset ys \<and> ?lex xs us}"
      by (metis psubsetI)
    then have "card {us. mset us = mset ys \<and> ?lex zs us} < card {us. mset us = mset ys \<and> ?lex xs us}"
      by (rule psubset_card_mono [OF finite_permutations])
    moreover have "r = f + length zs" "mset ys = mset zs" "zs = ys \<or> ?lex zs ys"
      using less.prems(1,2) zs(1,3) len lex_total [OF len(2)] by auto
    ultimately have rest: "(permutation_step f r)\<^sup>*\<^sup>* (p @ zs @ s) (p @ ys @ s)"
      by (rule less.hyps)
    have "permutation_step f r (p @ xs @ s) (p @ zs @ s)"
      using step(1) by blast
    then show ?thesis
      using rest by (rule converse_rtranclp_into_rtranclp)
  qed
qed

lemma permutations_cycle:
  assumes "f = length p" and "r = f + length xs" and "mset ys = mset xs"
  shows "(permutation_step f r)\<^sup>*\<^sup>* (p @ xs @ s) (p @ ys @ s)"
proof -
  let ?lex = "lexicographical_compare_input iter_less_iter"
  define zs where "zs = rev (sort xs)"
  have zs: "mset zs = mset xs" "sorted_wrt (\<lambda>x y. \<not> iter_less_iter x y) zs" "length zs = length xs"
    by (simp_all add: zs_def sorted_wrt_rev iter_less_iter_def not_less)
  have last: "\<not> ?lex zs us" if "mset us = mset xs" for us
    using that zs mset_eq_length [OF that] by (intro less.lex_greatest mset_same_groups) simp_all
  then have up: "(permutation_step f r)\<^sup>*\<^sup>* (p @ xs @ s) (p @ zs @ s)"
    using lex_total [of xs zs] zs by (intro permutations_climb assms) auto
  obtain ms more where step: "next_permutation_less (p @ zs @ s) f r = Some (p @ ms @ s, more)" "cyclic_successor iter_less_iter zs ms more"
    using less.next_permutation_impl_successor [of f p r zs s] assms zs(3) by (auto simp: next_permutation_less_def)
  then have ms: "mset ms = mset xs" "\<not> ?lex ys ms"
    using last zs(1) assms(3) by (auto simp: cyclic_successor_def split: if_splits)
  then have len: "length ms = length xs" "length ms = length ys"
    using assms(3) by (metis mset_eq_length)+
  have down: "(permutation_step f r)\<^sup>*\<^sup>* (p @ ms @ s) (p @ ys @ s)"
    using lex_total [OF len(2)] ms assms len(1) by (intro permutations_climb) auto
  have "permutation_step f r (p @ zs @ s) (p @ ms @ s)"
    using step(1) by blast
  then show ?thesis
    using down by (rule rtranclp_trans [OF rtranclp.rtrancl_into_rtrancl [OF up]])
qed

text \<open>
  On totally ordered values, calling \<open>std::next_permutation\<close> again and again takes a
  range through all its permutations: every one is reached from every other.
\<close>

theorem permutations_reached:
  assumes "first \<le> stop" and "stop \<le> length (a :: 'a :: linorder list)" and "mset ys = mset (slice a first stop)"
  shows "(\<lambda>b c. \<exists>more. next_permutation_less b first stop = Some (c, more))\<^sup>*\<^sup>* a (take first a @ ys @ drop stop a)"
  using permutations_cycle [of first "take first a" stop "slice a first stop" ys "drop stop a"] split_slice [OF assms(1,2)] assms
  by simp

theorem permutations_reached_witness:
  "(\<lambda>b c. \<exists>more. next_permutation_less b 1 4 = Some (c, more))\<^sup>*\<^sup>* [9, 3, 1, 2, 7 :: nat] [9, 2, 3, 1, 7]"
  using permutations_reached [of 1 4 "[9, 3, 1, 2, 7 :: nat]" "[2, 3, 1]"] by (simp add: slice_def eval_nat_numeral add_mset_commute)

section \<open>The test for a permutation\<close>

abbreviation matches :: "('a \<Rightarrow> 'a \<Rightarrow> bool) \<Rightarrow> 'a \<Rightarrow> 'a list \<Rightarrow> nat" where
  "matches p v xs \<equiv> length (filter (\<lambda>x. p x v) xs)"

lemma count_if_impl_filter:
  assumes "f = length q" and "r = f + length xs"
  shows "count_if_impl p (q @ xs @ s) f r = Some (length (filter p xs))"
proof -
  have "count_if_loop p (q @ xs @ s) f r n = Some (n + length (filter p xs))" for n
    using assms
  proof (induction xs arbitrary: q f n)
    case (Cons x xs)
    have "count_if_loop p ((q @ [x]) @ xs @ s) (f + 1) r (if p x then n + 1 else n) =
        Some ((if p x then n + 1 else n) + length (filter p xs))"
      using Cons.prems by (intro Cons.IH) simp_all
    then show ?case
      using Cons.prems by (subst count_if_loop.simps) (simp add: buf_get_append)
  qed (simp add: count_if_loop.simps)
  then show ?thesis
    by (simp add: count_if_impl_def)
qed

lemma is_permutation_prefix_matches:
  assumes "f1 = length q" and "r1 = f1 + length xs" and "f2 = length q'" and "length xs = length ys"
  shows "\<exists>k. is_permutation_prefix p (q @ xs @ s) f1 r1 (q' @ ys @ t) f2 = Some (f1 + k, f2 + k) \<and> k \<le> length xs \<and>
    list_all2 p (take k xs) (take k ys)"
  using assms(4,1-3)
proof (induction xs ys arbitrary: q q' f1 f2 rule: list_induct2)
  case Nil
  then show ?case
    by (simp add: is_permutation_prefix.simps)
next
  case (Cons x xs y ys)
  note unfold = is_permutation_prefix.simps [of p "q @ (x # xs) @ s" f1 r1 "q' @ (y # ys) @ t" f2]
  show ?case
  proof (cases "p x y")
    case True
    obtain k where "is_permutation_prefix p ((q @ [x]) @ xs @ s) (f1 + 1) r1 ((q' @ [y]) @ ys @ t) (f2 + 1) =
        Some (f1 + 1 + k, f2 + 1 + k)" "k \<le> length xs" "list_all2 p (take k xs) (take k ys)"
      using Cons.IH [of "f1 + 1" "q @ [x]" "f2 + 1" "q' @ [y]"] Cons.prems by auto
    then show ?thesis
      using unfold True Cons.prems by (intro exI [of _ "Suc k"]) (simp add: buf_get_append)
  next
    case False
    then show ?thesis
      using unfold Cons.prems by (intro exI [of _ 0]) (simp add: buf_get_append)
  qed
qed

lemma matches_cong: "equivp p \<Longrightarrow> p v w \<Longrightarrow> matches p v xs = matches p w xs"
  by (induction xs) (auto dest: equivp_transp equivp_symp)

lemma matches_equivalent: "list_all2 p us vs \<Longrightarrow> equivp p \<Longrightarrow> matches p v us = matches p v vs"
  by (induction rule: list_all2_induct) (auto dest: equivp_transp equivp_symp)

text \<open>It is enough to compare the counts of the elements of one of two sequences of the same length.\<close>

lemma matches_everywhere:
  assumes "equivp p" and "length xs = length ys" and "\<And>x. x \<in> set xs \<Longrightarrow> matches p x xs = matches p x ys"
  shows "matches p v xs = matches p v ys"
  using assms(2,3)
proof (induction "length xs" arbitrary: xs ys rule: less_induct)
  case less
  show ?case
  proof (cases xs)
    case (Cons x xs')
    let ?xs = "filter (\<lambda>z. \<not> p z x) xs" and ?ys = "filter (\<lambda>z. \<not> p z x) ys"
    have refl: "p x x"
      using assms(1) by (simp add: equivp_reflp)
    have same: "matches p x xs = matches p x ys"
      using less.prems(2) Cons by simp
    have other: "\<not> p y x" if "p y z" "\<not> p z x" for y z
      using that equivp_symp [OF assms(1)] equivp_transp [OF assms(1)] by blast
    have rest: "matches p z (filter (\<lambda>z. \<not> p z x) zs) = matches p z zs" if "\<not> p z x" for z zs
      unfolding filter_filter using other [OF _ that] by (intro arg_cong [of _ _ length] filter_cong) auto
    have "length ?xs < length xs"
      using Cons refl by (simp add: le_imp_less_Suc)
    moreover have "length ?xs = length ?ys"
      using same less.prems(1) sum_length_filter_compl [of "\<lambda>z. p z x" xs] sum_length_filter_compl [of "\<lambda>z. p z x" ys] by linarith
    moreover have "matches p z ?xs = matches p z ?ys" if "z \<in> set ?xs" for z
      using that rest less.prems(2) by simp
    ultimately have "matches p v ?xs = matches p v ?ys"
      by (rule less.hyps)
    then show ?thesis
      using rest [of v] same matches_cong [OF assms(1), of v x] by (cases "p v x") simp_all
  qed (use less.prems(1) in simp)
qed

lemma is_permutation_scan_counts:
  assumes "equivp p" and "f1 = length q" and "k = f1 + length us" and "r1 = k + length ws" and "f2 = length q'" and "r2 = f2 + length ys"
  shows "is_permutation_scan p (q @ us @ ws @ s) f1 k r1 (q' @ ys @ t) f2 r2 =
    Some (\<forall>x \<in> set ws. (\<exists>u \<in> set us. p u x) \<or> matches p x (us @ ws) = matches p x ys)"
  using assms(3,4)
proof (induction ws arbitrary: us k)
  case Nil
  then show ?case
    by (simp add: is_permutation_scan.simps)
next
  case (Cons w ws)
  let ?a = "q @ us @ (w # ws) @ s" and ?b = "q' @ ys @ t"
  let ?ok = "\<lambda>us ws x. (\<exists>u \<in> set us. p u x) \<or> matches p x (us @ ws) = matches p x ys"
  have get: "buf_get ?a k = Some w"
    using buf_get_append [of k "q @ us" w "ws @ s"] assms(2) Cons.prems(1) by simp
  have find: "find_if_impl (\<lambda>x. p x w) ?a f1 k = Some (f1 + length (takeWhile (\<lambda>x. \<not> p x w) us))"
    using find_if_impl_takeWhile [of f1 q k us "\<lambda>x. p x w" "(w # ws) @ s"] assms(2) Cons.prems(1) by simp
  have counts: "count_if_impl (\<lambda>x. p x w) ?b f2 r2 = Some (matches p w ys)"
      "count_if_impl (\<lambda>x. p x w) ?a k r1 = Some (matches p w (w # ws))"
    using count_if_impl_filter [of f2 q' r2 ys "\<lambda>x. p x w" t] count_if_impl_filter [of k "q @ us" r1 "w # ws" "\<lambda>x. p x w" s]
      assms(2,5,6) Cons.prems by simp_all
  have rec: "is_permutation_scan p ?a f1 (k + 1) r1 ?b f2 r2 = Some (\<forall>x \<in> set ws. ?ok (us @ [w]) ws x)"
    using Cons.IH [of "k + 1" "us @ [w]"] Cons.prems by simp
  have seen: "k \<noteq> f1 + length (takeWhile (\<lambda>x. \<not> p x w) us) \<longleftrightarrow> (\<exists>u \<in> set us. p u w)"
    unfolding Cons.prems(1) by (cases "\<lambda>x. \<not> p x w" us rule: takeWhile_cases) (auto simp: list_all_iff)
  note unfold = is_permutation_scan.simps [of p ?a f1 k r1 ?b f2 r2]
  have unfold': "is_permutation_scan p ?a f1 k r1 ?b f2 r2 =
      (if \<not> (\<exists>u \<in> set us. p u w) \<and> (matches p w ys = 0 \<or> matches p w (w # ws) \<noteq> matches p w ys) then Some False
       else Some (\<forall>x \<in> set ws. ?ok (us @ [w]) ws x))"
    unfolding unfold get find counts rec bind.bind_lunit seen using Cons.prems(2) by simp
  show ?case
  proof (cases "\<exists>u \<in> set us. p u w")
    case True
    then have "?ok (us @ [w]) ws x \<longleftrightarrow> ?ok us (w # ws) x" for x
      using assms(1) by (auto dest: equivp_transp)
    then show ?thesis
      using True unfold' by simp
  next
    case False
    then have all: "matches p w (us @ w # ws) = matches p w (w # ws)"
      by (simp add: filter_empty_conv)
    have nonzero: "matches p w (w # ws) \<noteq> 0"
      using assms(1) by (simp add: equivp_reflp)
    have "?ok (us @ [w]) ws x \<longleftrightarrow> ?ok us (w # ws) x" if eq: "matches p w (us @ w # ws) = matches p w ys" for x
    proof (cases "p w x")
      case True
      have "matches p x (us @ w # ws) = matches p x ys"
        using eq unfolding matches_cong [OF assms(1) True] .
      then show ?thesis
        using True by simp
    qed simp
    then show ?thesis
      using False unfold' all nonzero by auto
  qed
qed

lemma is_permutation_impl_counts:
  assumes "equivp p" and "f1 = length q" and "r1 = f1 + length xs" and "f2 = length q'" and "length xs = length ys"
  shows "is_permutation_impl p (q @ xs @ s) f1 r1 (q' @ ys @ t) f2 = Some (\<forall>v. matches p v xs = matches p v ys)"
proof -
  obtain k where k: "is_permutation_prefix p (q @ xs @ s) f1 r1 (q' @ ys @ t) f2 = Some (f1 + k, f2 + k)" "k \<le> length xs"
      "list_all2 p (take k xs) (take k ys)"
    using is_permutation_prefix_matches [OF assms(2-5), of p s t] by blast
  have split: "matches p v zs = matches p v (take k zs) + matches p v (drop k zs)" for v zs
    by (metis append_take_drop_id filter_append length_append)
  have rest: "(\<forall>v. matches p v xs = matches p v ys) \<longleftrightarrow> (\<forall>v. matches p v (drop k xs) = matches p v (drop k ys))"
    using matches_equivalent [OF k(3) assms(1)] split [of _ xs] split [of _ ys] by simp
  have "is_permutation_scan p ((q @ take k xs) @ [] @ drop k xs @ s) (f1 + k) (f1 + k) r1
      ((q' @ take k ys) @ drop k ys @ t) (f2 + k) (f2 + k + (r1 - (f1 + k))) =
    Some (\<forall>x \<in> set (drop k xs). (\<exists>u \<in> set []. p u x) \<or> matches p x ([] @ drop k xs) = matches p x (drop k ys))"
    using k(2) assms(2-5) by (intro is_permutation_scan_counts assms(1)) simp_all
  moreover have "take k zs @ drop k zs @ u = zs @ u" for zs u :: "'a list"
    by (metis append.assoc append_take_drop_id)
  moreover have "(\<forall>x \<in> set (drop k xs). matches p x (drop k xs) = matches p x (drop k ys)) \<longleftrightarrow>
      (\<forall>v. matches p v (drop k xs) = matches p v (drop k ys))"
    using matches_everywhere [OF assms(1), of "drop k xs" "drop k ys"] assms(5) by auto
  ultimately show ?thesis
    using k(1) rest assms(3) k(2) by (auto simp: is_permutation_impl_def)
qed

text \<open>
  For every equivalence relation \<open>std::is_permutation\<close> decides whether the two
  ranges have the same number of elements of each class; with equality, whether one is a
  permutation of the other. It stays inside the ranges.
\<close>

theorem is_permutation_decides:
  assumes "first1 \<le> last1" and "last1 \<le> length a" and "first2 + (last1 - first1) \<le> length b" and "equivp p"
  shows "is_permutation p a first1 last1 b first2 =
      Some (\<forall>v. matches p v (slice a first1 last1) = matches p v (slice b first2 (first2 + (last1 - first1)))) \<and>
    is_permutation_equal a first1 last1 b first2 =
      Some (mset (slice a first1 last1) = mset (slice b first2 (first2 + (last1 - first1))))"
proof -
  define xs ys where "xs = slice a first1 last1" and "ys = slice b first2 (first2 + (last1 - first1))"
  have len: "length xs = last1 - first1" "length ys = last1 - first1"
    using assms by (simp_all add: xs_def ys_def)
  have ab: "a = take first1 a @ xs @ drop last1 a" "b = take first2 b @ ys @ drop (first2 + length ys) b"
    using split_slice [OF assms(1,2)] split_slice [OF _ assms(3)] len by (simp_all add: xs_def ys_def)
  have counts: "is_permutation_impl p a first1 last1 b first2 = Some (\<forall>v. matches p v xs = matches p v ys)" if "equivp p" for p
    using is_permutation_impl_counts [OF that, of first1 "take first1 a" last1 xs first2 "take first2 b" ys
        "drop last1 a" "drop (first2 + length ys) b"] ab assms(1-3) len by simp
  have "(\<forall>v. matches (=) v xs = matches (=) v ys) \<longleftrightarrow> mset xs = mset ys"
    by (simp add: multiset_eq_iff count_mset count_list_eq_length_filter eq_commute)
  then have "is_permutation_impl (=) a first1 last1 b first2 = Some (mset xs = mset ys)"
    using counts [OF identity_equivp] by simp
  then show ?thesis
    using counts [OF assms(4)] by (simp add: is_permutation_def is_permutation_equal_def xs_def ys_def)
qed

theorem is_permutation_decides_witness:
  "is_permutation_equal [9, 1, 2, 2 :: nat] 1 4 [2, 1, 2] 0 = Some True \<and>
   (\<exists>r. is_permutation (\<lambda>x y. x mod 2 = y mod 2) [9, 1, 2, 2 :: nat] 1 4 [2, 1, 2] 0 = Some r)"
proof -
  have "equivp (\<lambda>x y :: nat. x mod 2 = y mod 2)"
    by (simp add: equivp_def fun_eq_iff) metis
  then show ?thesis
    using is_permutation_decides [of 1 4 "[9, 1, 2, 2 :: nat]" 0 "[2, 1, 2]" "\<lambda>x y. x mod 2 = y mod 2"]
    by (simp add: slice_def eval_nat_numeral add_mset_commute)
qed

end
