(* ===== verification/Rnd_Lcg.thy ===== *)
theory Rnd_Lcg
  imports Stl_Sort
begin

text \<open>
  \<open>linear_congruential_engine\<close> of \<open>random.h\<close> and \<open>random.tcc\<close>. The template parameters are
  arguments; the unsigned type of the engine is a word of any length, so that all its arithmetic
  wraps around as in the source. \<open>int128\<close> says whether the compiler has integers of 128 bits. A seed
  sequence is a parameter: the function that gives the requested number of 32-bit words.
\<close>

section \<open>Definitions\<close>

text \<open>\<open>_Shift\<close>: a power of two, and 0 for the one that does not fit.\<close>

definition Shift :: "nat \<Rightarrow> 'a :: len word" where
  "Shift w = (if w < LENGTH('a) then push_bit w 1 else 0)"

text \<open>
  \<open>_Select_uint_least_t\<close>: the width of the type that holds \<open>s\<close> bits. No type is a static assertion
  that fails; \<open>int128\<close> says whether the compiler has 128-bit integers.
\<close>

definition Select_uint_least :: "bool \<Rightarrow> nat \<Rightarrow> nat option" where
  "Select_uint_least int128 s =
     (if s \<le> 32 then Some 32
      else if s \<le> 64 then Some 64
      else if s \<le> 128 \<and> int128 then Some 128
      else None)"

definition calc_wide :: "bool \<Rightarrow> 'a :: len word \<Rightarrow> 'a word \<Rightarrow> 'a word \<Rightarrow> 'a word \<Rightarrow> 'a word option" where
  "calc_wide int128 m a c x = do {
     bits \<leftarrow> Select_uint_least int128 (lg (unat a) + lg (unat m) + 2);
     Some (of_nat (((unat a * unat x + unat c) mod 2 ^ bits) mod unat m)) }"

definition calc_schrage :: "'a :: len word \<Rightarrow> 'a word \<Rightarrow> 'a word \<Rightarrow> 'a word \<Rightarrow> 'a word" where
  "calc_schrage m a c x =
     (let x = (if a = 1 then x mod m
               else let q = m div a; r = m mod a; t1 = a * (x mod q); t2 = r * (x div q)
                 in if t1 \<ge> t2 then t1 - t2 else m - t2 + t1)
      in if c \<noteq> 0 then let d = m - x in if d > c then x + c else c - d
         else x)"

definition calc_wrap :: "'a :: len word \<Rightarrow> 'a word \<Rightarrow> 'a word \<Rightarrow> 'a word \<Rightarrow> 'a word" where
  "calc_wrap m a c x = (let res = a * x + c in if m \<noteq> 0 then res mod m else res)"

definition big_enough :: "'a :: len word \<Rightarrow> 'a word \<Rightarrow> 'a word \<Rightarrow> bool" where
  "big_enough m a c \<longleftrightarrow> m AND (m - 1) = 0 \<or> (- 1 - c) div a \<ge> m - 1"

definition schrage_ok :: "'a :: len word \<Rightarrow> 'a word \<Rightarrow> bool" where
  "schrage_ok m a \<longleftrightarrow> m mod a < m div a"

definition Mod_calc :: "bool \<Rightarrow> 'a :: len word \<Rightarrow> 'a word \<Rightarrow> 'a word \<Rightarrow> 'a word \<Rightarrow> 'a word option" where
  "Mod_calc int128 m a c x =
     (if big_enough m a c then Some (calc_wrap m a c x)
      else if schrage_ok m a then Some (calc_schrage m a c x)
      else calc_wide int128 m a c x)"

text \<open>\<open>__mod\<close> with its default arguments, where nothing can overflow.\<close>

definition mod_default :: "'a :: len word \<Rightarrow> 'a word \<Rightarrow> 'a word" where
  "mod_default m x = calc_wrap m 1 0 x"

text \<open>The engine: its template arguments, and its state, which is the member \<open>_M_x\<close>.\<close>

record 'w lcg_params =
  multiplier :: 'w
  increment :: 'w
  modulus :: 'w

definition lcg_min :: "'a :: len word lcg_params \<Rightarrow> 'a word" where
  "lcg_min P = (if increment P = 0 then 1 else 0)"

definition lcg_max :: "'a :: len word lcg_params \<Rightarrow> 'a word" where
  "lcg_max P = modulus P - 1"

definition lcg_seed :: "'a :: len word lcg_params \<Rightarrow> 'a word \<Rightarrow> 'a word" where
  "lcg_seed P s =
     (if mod_default (modulus P) (increment P) = 0 \<and> mod_default (modulus P) s = 0 then 1
      else mod_default (modulus P) s)"

text \<open>Seeding from a seed sequence, of which \<open>generate n\<close> is what it writes into an array of \<open>n\<close> numbers.\<close>

fun seed_sum :: "u32 list \<Rightarrow> nat \<Rightarrow> nat \<Rightarrow> nat \<Rightarrow> 'a :: len word \<Rightarrow> 'a word \<Rightarrow> 'a word option" where
  "seed_sum arr base k 0 factor acc = Some acc"
| "seed_sum arr base k (Suc left) factor acc = do {
     x \<leftarrow> buf_get arr (base + (k - Suc left));
     seed_sum arr base k left (factor * Shift 32) (acc + ucast x * factor) }"

definition lcg_seed_seq :: "'a :: len word lcg_params \<Rightarrow> (nat \<Rightarrow> u32 list) \<Rightarrow> 'a word option" where
  "lcg_seed_seq P generate = do {
     let k0 = (if modulus P = 0 then LENGTH('a) else lg (unat (modulus P)));
     let k = (k0 + 31) div 32;
     acc \<leftarrow> seed_sum (generate (k + 3)) 3 k k 1 0;
     Some (lcg_seed P acc) }"

definition lcg_call :: "bool \<Rightarrow> 'a :: len word lcg_params \<Rightarrow> 'a word \<Rightarrow> ('a word \<times> 'a word) option" where
  "lcg_call int128 P x = do {
     x \<leftarrow> Mod_calc int128 (modulus P) (multiplier P) (increment P) x;
     Some (x, x) }"

fun lcg_discard :: "bool \<Rightarrow> 'a :: len word lcg_params \<Rightarrow> 'a word \<Rightarrow> nat \<Rightarrow> 'a word option" where
  "lcg_discard int128 P x 0 = Some x"
| "lcg_discard int128 P x (Suc z) = do {
     (x, _) \<leftarrow> lcg_call int128 P x;
     lcg_discard int128 P x z }"

section \<open>Arithmetic\<close>

lemma power_of_two:
  fixes n :: nat
  assumes "0 < n" and "n AND (n - 1) = 0"
  shows "\<exists>k. n = 2 ^ k"
  using assms
proof (induction n rule: less_induct)
  case (less n)
  show ?case
  proof (cases "even n")
    case True
    then obtain j where j: "n = 2 * j" "0 < j"
      using less.prems(1) by (auto elim: evenE)
    then have "(n - 1) div 2 = j - 1"
      by simp
    then have "j AND (j - 1) = 0"
      using less.prems(2) j and_rec [of n "n - 1"] by simp
    then obtain k where "j = 2 ^ k"
      using less.IH [of j] j by auto
    then show ?thesis
      using j(1) by (intro exI [of _ "Suc k"]) simp
  next
    case False
    then have "(n - 1) div 2 = n div 2" "even (n - 1)"
      by (auto elim: oddE)
    then have "n div 2 = 0"
      using less.prems(2) and_rec [of n "n - 1"] by simp
    then show ?thesis
      using False less.prems(1) by (intro exI [of _ 0]) (auto elim: oddE)
  qed
qed

lemma lg_bound: "0 < n \<Longrightarrow> 2 ^ lg n \<le> n \<and> n < 2 ^ Suc (lg n)"
proof (induction n rule: lg.induct)
  case (1 n)
  show ?case
  proof (cases "n \<le> 1")
    case False
    then have "2 ^ lg (n div 2) \<le> n div 2" "n div 2 < 2 ^ Suc (lg (n div 2))"
      using "1.IH" by auto
    then show ?thesis
      using False lg.simps [of n] by auto
  qed (use "1.prems" lg.simps [of n] in auto)
qed

lemma lg_word: "a \<noteq> 0 \<Longrightarrow> lg (unat (a :: 'a :: len word)) < LENGTH('a)"
proof -
  assume "a \<noteq> 0"
  then have "2 ^ lg (unat a) \<le> unat a"
    using lg_bound [of "unat a"] by (simp add: unat_gt_0)
  also have "\<dots> < 2 ^ LENGTH('a)"
    by (rule unsigned_less)
  finally show ?thesis
    by simp
qed

text \<open>The value the recurrence asks for, with \<open>m = 0\<close> for the modulus that does not fit the type.\<close>

definition congruence :: "'a :: len word \<Rightarrow> 'a word \<Rightarrow> 'a word \<Rightarrow> 'a word \<Rightarrow> nat" where
  "congruence m a c x = (unat a * unat x + unat c) mod (if m = 0 then 2 ^ LENGTH('a) else unat m)"

lemma calc_wrap_exact:
  assumes "m \<noteq> 0 \<longrightarrow> unat a * unat x + unat c < 2 ^ LENGTH('a) \<or> m AND (m - 1) = 0"
  shows "unat (calc_wrap m a c (x :: 'a :: len word)) = congruence m a c x"
proof (cases "m = 0")
  case True
  then show ?thesis
    by (simp add: calc_wrap_def congruence_def unat_word_ariths mod_simps)
next
  case False
  have val: "unat (a * x + c) = (unat a * unat x + unat c) mod 2 ^ LENGTH('a)"
    by (simp add: unat_word_ariths mod_simps)
  have "(unat a * unat x + unat c) mod 2 ^ LENGTH('a) mod unat m = (unat a * unat x + unat c) mod unat m"
  proof (cases "m AND (m - 1) = 0")
    case True
    then have "unat m AND (unat m - 1) = 0"
      using False by (metis unat_minus_one unsigned_and_eq unsigned_0)
    then obtain k where k: "unat m = 2 ^ k"
      using power_of_two [of "unat m"] False by (auto simp: unat_gt_0)
    then have "(2 :: nat) ^ k < 2 ^ LENGTH('a)"
      using unsigned_less [of m, where 'a = nat] by simp
    then have "k < LENGTH('a)"
      by simp
    then have "unat m dvd 2 ^ LENGTH('a)"
      using k by (simp add: le_imp_power_dvd)
    then show ?thesis
      by (rule mod_mod_cancel)
  next
    case nonpower: False
    then show ?thesis
      using assms False by simp
  qed
  then show ?thesis
    using False val by (simp add: calc_wrap_def congruence_def unat_mod)
qed

text \<open>Schrage's decomposition on natural numbers.\<close>

lemma schrage_nat:
  fixes a m x :: nat
  assumes "0 < a" and "m mod a < m div a" and "x < m"
  defines "t1 \<equiv> a * (x mod (m div a))" and "t2 \<equiv> m mod a * (x div (m div a))"
  shows "t1 < m" and "t2 < m" and "(if t2 \<le> t1 then t1 - t2 else m - t2 + t1) = a * x mod m"
proof -
  define q r k where "q = m div a" and "r = m mod a" and "k = x div q"
  have m: "m = a * q + r" and q: "0 < q" "r < q" and x: "x = q * k + x mod q"
    using assms(1,2) by (simp_all add: q_def r_def k_def)
  have "a * (x mod q) < a * q"
    using q assms(1) by simp
  then show t1: "t1 < m"
    using m unfolding t1_def q_def [symmetric] by linarith
  have "r * k \<le> q * k"
    using q by simp
  then show t2: "t2 < m"
    using x assms(3) unfolding t2_def q_def [symmetric] r_def [symmetric] k_def [symmetric] by linarith
  have "a * x = a * (q * k + x mod q)"
    by (rule arg_cong [OF x])
  also have "\<dots> = a * (q * k) + t1"
    by (simp only: t1_def q_def add_mult_distrib2)
  finally have prod: "a * x = a * (q * k) + t1" .
  have "t2 = r * k"
    by (simp only: t2_def r_def k_def q_def)
  moreover have "m * k = (a * q + r) * k"
    by (rule arg_cong [OF m])
  ultimately have sum: "a * x + t2 = m * k + t1"
    using prod by (simp add: algebra_simps)
  show "(if t2 \<le> t1 then t1 - t2 else m - t2 + t1) = a * x mod m"
  proof (cases "t2 \<le> t1")
    case True
    then have "a * x = m * k + (t1 - t2)"
      using sum by simp
    then have "a * x mod m = (t1 - t2) mod m"
      by (simp only: mod_mult_self4)
    then show ?thesis
      using True t1 by simp
  next
    case False
    then have "a * x + m = m * k + (m - t2 + t1)"
      using sum t2 by simp
    then have "(a * x + m) mod m = (m - t2 + t1) mod m"
      by simp
    then show ?thesis
      using False t2 by simp
  qed
qed

lemma add_mod_nat:
  fixes c m y :: nat
  assumes "y < m" and "c < m"
  shows "(if c < m - y then y + c else c - (m - y)) = (y + c) mod m"
proof (cases "c < m - y")
  case False
  then have "y + c = m + (c - (m - y))"
    using assms by simp
  then show ?thesis
    using False assms by (metis less_imp_diff_less mod_add_self1 mod_less)
qed simp

lemma unat_mult_small: "unat a * unat b < 2 ^ LENGTH('a) \<Longrightarrow> unat (a * b) = unat a * unat (b :: 'a :: len word)"
  by (simp add: unat_word_ariths)

lemma unat_add_small: "unat a + unat b < 2 ^ LENGTH('a) \<Longrightarrow> unat (a + b) = unat a + unat (b :: 'a :: len word)"
  by (simp add: unat_word_ariths)

lemma unat_sub_small: "unat b \<le> unat a \<Longrightarrow> unat (a - b) = unat a - unat (b :: 'a :: len word)"
  by (simp add: unat_sub word_le_nat_alt)

lemma unat_sub_add:
  assumes "unat b \<le> unat m" and "unat d < unat b"
  shows "unat (m - b + d) = unat m - unat b + unat (d :: 'a :: len word)"
proof -
  have "unat m - unat b + unat d < 2 ^ LENGTH('a)"
    using assms unsigned_less [of m, where 'a = nat] by linarith
  then show ?thesis
    using assms(1) by (simp add: unat_add_small unat_sub_small)
qed

lemma calc_schrage_exact:
  assumes "a \<noteq> 0" and "c < m" and "x < m" and "schrage_ok m a"
  shows "unat (calc_schrage m a c (x :: 'a :: len word)) = congruence m a c x"
proof -
  define y where "y = (if a = 1 then x mod m
      else let q = m div a; r = m mod a; t1 = a * (x mod q); t2 = r * (x div q)
        in if t1 \<ge> t2 then t1 - t2 else m - t2 + t1)"
  have lim: "unat m < 2 ^ LENGTH('a)"
    by (rule unsigned_less)
  have nat: "0 < unat a" "unat m mod unat a < unat m div unat a" "unat x < unat m" "unat c < unat m"
    using assms by (simp_all add: unat_gt_0 schrage_ok_def word_less_nat_alt unat_div unat_mod)
  note s = schrage_nat [OF nat(1-3)]
  have t1: "unat (a * (x mod (m div a))) = unat a * (unat x mod (unat m div unat a))"
    by (subst unat_mult_small) (simp_all only: unat_div unat_mod less_trans [OF s(1) lim])
  have t2: "unat (m mod a * (x div (m div a))) = unat m mod unat a * (unat x div (unat m div unat a))"
    by (subst unat_mult_small) (simp_all only: unat_div unat_mod less_trans [OF s(2) lim])
  have y: "unat y = unat a * unat x mod unat m"
  proof (cases "a = 1")
    case True
    then show ?thesis
      by (simp add: y_def unat_mod)
  next
    case False
    show ?thesis
      unfolding s(3) [symmetric] y_def Let_def word_le_nat_alt t1 t2 if_not_P [OF False]
      using s(2) by (simp add: unat_sub_small unat_sub_add t1 t2)
  qed
  have less: "unat y < unat m"
    using y nat(3) by simp
  have "unat (calc_schrage m a c x) = (unat y + unat c) mod unat m"
  proof (cases "c = 0")
    case True
    then show ?thesis
      using less by (simp add: calc_schrage_def y_def [symmetric])
  next
    case False
    have d: "unat (m - y) = unat m - unat y"
      using less by (intro unat_sub_small) simp
    have "calc_schrage m a c x = (if c < m - y then y + c else c - (m - y))"
      using False by (simp add: calc_schrage_def y_def [symmetric] Let_def)
    also have "unat \<dots> = (if unat c < unat m - unat y then unat y + unat c else unat c - (unat m - unat y))"
    proof (cases "unat c < unat m - unat y")
      case True
      then have "unat y + unat c < 2 ^ LENGTH('a)"
        using lim by linarith
      then show ?thesis
        using True d by (simp add: word_less_nat_alt unat_add_small)
    qed (use d in \<open>simp add: word_less_nat_alt unat_sub_small\<close>)
    finally show ?thesis
      using add_mod_nat [OF less nat(4)] by simp
  qed
  then show ?thesis
    using nat(3) by (auto simp: congruence_def y mod_simps)
qed

lemma Select_uint_least_total:
  "s \<le> 64 \<or> int128 \<and> s \<le> 128 \<Longrightarrow> \<exists>bits. Select_uint_least int128 s = Some bits \<and> s \<le> bits"
  by (auto simp: Select_uint_least_def)

lemma calc_wide_exact:
  assumes "a \<noteq> 0" and "a < m" and "c < m" and "x < m" and "LENGTH('a) \<le> 32 \<or> int128 \<and> LENGTH('a) \<le> 64"
  shows "\<exists>y. calc_wide int128 m a c (x :: 'a :: len word) = Some y \<and> unat y = congruence m a c x"
proof -
  let ?s = "lg (unat a) + lg (unat m) + 2"
  have m: "m \<noteq> 0" "0 < unat m" "0 < unat a"
    using assms(1,2) by (auto simp: unat_gt_0)
  have "?s \<le> 2 * LENGTH('a)"
    using lg_word [OF assms(1)] lg_word [OF m(1)] by simp
  then obtain bits where bits: "Select_uint_least int128 ?s = Some bits" "?s \<le> bits"
    using assms(5) Select_uint_least_total [of ?s int128] by fastforce
  have "unat a + 1 \<le> 2 ^ Suc (lg (unat a))" "unat m \<le> 2 ^ Suc (lg (unat m))"
    using lg_bound [OF m(2)] lg_bound [OF m(3)] by simp_all
  then have "(unat a + 1) * unat m \<le> 2 ^ Suc (lg (unat a)) * 2 ^ Suc (lg (unat m))"
    by (rule mult_le_mono)
  also have "\<dots> = 2 ^ ?s"
    by (simp add: power_add)
  also have "\<dots> \<le> 2 ^ bits"
    using bits(2) by (rule power_increasing) simp
  finally have "(unat a + 1) * unat m \<le> 2 ^ bits" .
  moreover have "unat a * unat x + unat c < (unat a + 1) * unat m"
  proof -
    have "unat x \<le> unat m" "unat c < unat m"
      using assms(3,4) by (simp_all add: word_less_nat_alt)
    then have "unat a * unat x \<le> unat a * unat m"
      by (intro mult_le_mono2)
    then show ?thesis
      using \<open>unat c < unat m\<close> unfolding add_mult_distrib mult_1 by linarith
  qed
  ultimately have "(unat a * unat x + unat c) mod 2 ^ bits = unat a * unat x + unat c"
    by simp
  moreover have "(unat a * unat x + unat c) mod unat m < 2 ^ LENGTH('a)"
    using unsigned_less [of m, where 'a = nat] m(2) by (meson mod_less_divisor less_trans)
  ultimately show ?thesis
    using bits(1) m(1) by (auto simp: calc_wide_def congruence_def unsigned_of_nat take_bit_nat_eq_self)
qed

lemma big_enough_exact:
  assumes "big_enough m a c" and "a \<noteq> 0" and "m \<noteq> 0 \<longrightarrow> x < m"
  shows "unat (calc_wrap m a c (x :: 'a :: len word)) = congruence m a c x"
proof (rule calc_wrap_exact, rule impI)
  assume m: "m \<noteq> 0"
  show "unat a * unat x + unat c < 2 ^ LENGTH('a) \<or> m AND (m - 1) = 0"
  proof (cases "m AND (m - 1) = 0")
    case False
    then have "m - 1 \<le> (- 1 - c) div a"
      using assms(1) by (simp add: big_enough_def)
    moreover have "unat (- 1 - c) = 2 ^ LENGTH('a) - 1 - unat c"
    proof -
      have "unat c < 2 ^ LENGTH('a)"
        by (rule unsigned_less)
      then have "unat c \<le> 2 ^ LENGTH('a) - 1"
        by linarith
      then show ?thesis
        by (subst unat_sub_small) (simp_all add: unsigned_minus_1_eq_mask mask_eq_exp_minus_1)
    qed
    ultimately have "unat m - 1 \<le> (2 ^ LENGTH('a) - 1 - unat c) div unat a"
      using m by (simp add: word_le_nat_alt unat_div unat_minus_one)
    then have "(unat m - 1) * unat a \<le> 2 ^ LENGTH('a) - 1 - unat c"
      using assms(2) by (simp add: less_eq_div_iff_mult_less_eq unat_gt_0)
    moreover have "unat a * unat x \<le> (unat m - 1) * unat a"
    proof -
      have "unat x < unat m"
        using assms(3) m by (simp add: word_less_nat_alt)
      then have "unat x \<le> unat m - 1"
        by linarith
      then show ?thesis
        unfolding mult.commute [of "unat a"] by (rule mult_le_mono1)
    qed
    ultimately have "unat a * unat x \<le> 2 ^ LENGTH('a) - 1 - unat c"
      by (rule order.trans [rotated])
    then show ?thesis
      using unsigned_less [of c, where 'a = nat] by linarith
  qed simp
qed

definition lcg_modulus :: "'a :: len word lcg_params \<Rightarrow> nat" where
  "lcg_modulus P = (if modulus P = 0 then 2 ^ LENGTH('a) else unat (modulus P))"

text \<open>What the class asserts of its arguments, with the condition \<open>a \<noteq> 0\<close> of \<open>_Mod\<close>.\<close>

definition lcg_ok :: "'a :: len word lcg_params \<Rightarrow> bool" where
  "lcg_ok P \<longleftrightarrow> (modulus P = 0 \<or> multiplier P < modulus P \<and> increment P < modulus P) \<and> multiplier P \<noteq> 0"

lemma lcg_call_exact:
  assumes "lcg_ok P" and "unat x < lcg_modulus P" and "LENGTH('a) \<le> 32 \<or> int128 \<and> LENGTH('a) \<le> 64"
  shows "\<exists>y. lcg_call int128 P (x :: 'a :: len word) = Some (y, y) \<and>
    unat y = (unat (multiplier P) * unat x + unat (increment P)) mod lcg_modulus P"
proof -
  have x: "modulus P \<noteq> 0 \<longrightarrow> x < modulus P" and a: "multiplier P \<noteq> 0"
    using assms(1,2) by (auto simp: lcg_modulus_def lcg_ok_def word_less_nat_alt)
  have "\<exists>y. Mod_calc int128 (modulus P) (multiplier P) (increment P) x = Some y \<and>
      unat y = congruence (modulus P) (multiplier P) (increment P) x"
  proof (cases "big_enough (modulus P) (multiplier P) (increment P)")
    case True
    then show ?thesis
      using big_enough_exact [OF True a x] by (simp add: Mod_calc_def)
  next
    case False
    then have m: "modulus P \<noteq> 0"
      by (auto simp: big_enough_def)
    then have less: "multiplier P < modulus P" "increment P < modulus P" "x < modulus P"
      using assms(1) x by (auto simp: lcg_ok_def)
    show ?thesis
      using False calc_schrage_exact [OF a less(2,3)] calc_wide_exact [OF a less assms(3)] by (simp add: Mod_calc_def)
  qed
  then show ?thesis
    by (auto simp: lcg_call_def congruence_def lcg_modulus_def)
qed

lemma unat_mod_default: "unat (mod_default m x) = unat x mod (if m = 0 then 2 ^ LENGTH('a) else unat (m :: 'a :: len word))"
  by (simp add: mod_default_def calc_wrap_def unat_mod)

lemma seed_sum_total:
  "base + k \<le> length arr \<Longrightarrow> left \<le> k \<Longrightarrow> \<exists>y. seed_sum arr base k left factor acc = Some (y :: 'a :: len word)"
  by (induction left arbitrary: factor acc) (auto simp: buf_get_def)

lemma lcg_seed_range:
  assumes "lcg_ok P" and "1 < lcg_modulus P"
  shows "unat (lcg_seed P s) < lcg_modulus P \<and> (increment P = 0 \<longrightarrow> lcg_seed P s \<noteq> 0)"
proof -
  have "unat (mod_default (modulus P) s) < lcg_modulus P"
    using assms(2) by (simp add: unat_mod_default lcg_modulus_def)
  moreover have "mod_default (modulus P) 0 = 0"
    by (simp add: mod_default_def calc_wrap_def)
  ultimately show ?thesis
    using assms(2) by (simp add: lcg_seed_def)
qed

lemma lcg_call_range:
  assumes "lcg_ok P" and "1 < lcg_modulus P" and "increment P \<noteq> 0 \<or> coprime (unat (multiplier P)) (lcg_modulus P)"
    and "unat x < lcg_modulus P" and "increment P = 0 \<longrightarrow> x \<noteq> 0" and "LENGTH('a) \<le> 32 \<or> int128 \<and> LENGTH('a) \<le> 64"
  shows "\<exists>y. lcg_call int128 P (x :: 'a :: len word) = Some (y, y) \<and> unat y < lcg_modulus P \<and> (increment P = 0 \<longrightarrow> y \<noteq> 0)"
proof -
  obtain y where y: "lcg_call int128 P x = Some (y, y)"
      "unat y = (unat (multiplier P) * unat x + unat (increment P)) mod lcg_modulus P"
    using lcg_call_exact [OF assms(1,4,6)] by blast
  have "y \<noteq> 0" if "increment P = 0"
  proof
    assume "y = 0"
    then have "lcg_modulus P dvd unat (multiplier P) * unat x"
      using y(2) that by (simp add: mod_eq_0_iff_dvd)
    then have "lcg_modulus P dvd unat x"
      using assms(3) that by (simp add: coprime_commute coprime_dvd_mult_right_iff)
    then show False
      using assms(4,5) that by (auto dest!: dvd_imp_le simp: unat_gt_0)
  qed
  then show ?thesis
    using y assms(2) by (intro exI [of _ y]) simp
qed

text \<open>The range of an engine, in the type of its results.\<close>

lemma lcg_range_iff:
  assumes "lcg_ok P" and "1 < lcg_modulus P"
  shows "lcg_min P \<le> x \<and> x \<le> lcg_max P \<longleftrightarrow> unat x < lcg_modulus P \<and> (increment P = 0 \<longrightarrow> x \<noteq> 0)"
proof -
  have "x \<le> lcg_max P \<longleftrightarrow> unat x < lcg_modulus P"
  proof (cases "modulus P = 0")
    case False
    then have "0 < unat (modulus P)"
      by (simp add: unat_gt_0)
    then show ?thesis
      using unat_minus_one [OF False] False
      unfolding lcg_max_def lcg_modulus_def word_le_nat_alt if_not_P [OF False] by linarith
  qed (simp add: lcg_max_def lcg_modulus_def)
  moreover have "lcg_min P \<le> x \<longleftrightarrow> (increment P = 0 \<longrightarrow> x \<noteq> 0)"
    by (auto simp: lcg_min_def word_le_nat_alt Suc_le_eq unat_gt_0)
  ultimately show ?thesis
    by blast
qed

section \<open>Properties\<close>


text \<open>\<open>minstd_rand0\<close>, which is computed by Schrage's algorithm.\<close>

definition minstd_rand0 :: "u32 lcg_params" where
  "minstd_rand0 = \<lparr>multiplier = 16807, increment = 0, modulus = 2147483647\<rparr>"

lemma minstd_rand0_ok: "lcg_ok minstd_rand0" "lcg_modulus minstd_rand0 = 2147483647"
  by (simp_all add: minstd_rand0_def lcg_ok_def lcg_modulus_def)


text \<open>
  Seeded with any number or seed sequence, a \<open>linear_congruential_engine\<close> produces only
  numbers between its \<open>min()\<close> and its \<open>max()\<close>, however many are drawn: with increment 0 it never
  gets to 0, provided that multiplier and modulus have no common factor.
\<close>

theorem lcg_stays_in_range:
  assumes "lcg_ok P" and "1 < lcg_modulus P" and "increment P \<noteq> 0 \<or> coprime (unat (multiplier P)) (lcg_modulus P)"
    and "LENGTH('a) \<le> 32 \<or> int128 \<and> LENGTH('a) \<le> 64" and "\<And>n. length (generate n) = n"
  shows "(\<exists>x. lcg_discard int128 P (lcg_seed P (s :: 'a :: len word)) n = Some x \<and> lcg_min P \<le> x \<and> x \<le> lcg_max P) \<and>
    (\<exists>s'. lcg_seed_seq P generate = Some (lcg_seed P s'))"
proof -
  have "\<exists>x. lcg_discard int128 P x0 n = Some x \<and> lcg_min P \<le> x \<and> x \<le> lcg_max P"
    if "unat x0 < lcg_modulus P \<and> (increment P = 0 \<longrightarrow> x0 \<noteq> 0)" for x0
    using that
  proof (induction n arbitrary: x0)
    case 0
    then show ?case
      using lcg_range_iff [OF assms(1,2), of x0] by simp
  next
    case (Suc n)
    then obtain y where "lcg_call int128 P x0 = Some (y, y)" "unat y < lcg_modulus P \<and> (increment P = 0 \<longrightarrow> y \<noteq> 0)"
      using lcg_call_range [OF assms(1-3) _ _ assms(4), of x0] by blast
    then show ?case
      using Suc.IH [of y] by simp
  qed
  moreover have "\<exists>s' :: 'a word. seed_sum (generate (k + 3)) 3 k k 1 0 = Some s'" for k
    using assms(5) by (intro seed_sum_total) simp_all
  ultimately show ?thesis
    using lcg_seed_range [OF assms(1,2)] by (fastforce simp: lcg_seed_seq_def Let_def bind_eq_Some_conv)
qed

theorem lcg_stays_in_range_witness:
  "(\<exists>x. lcg_discard False minstd_rand0 (lcg_seed minstd_rand0 0) 1000 = Some x \<and>
     lcg_min minstd_rand0 \<le> x \<and> x \<le> lcg_max minstd_rand0) \<and>
   (\<exists>s'. lcg_seed_seq minstd_rand0 (\<lambda>n. replicate n 5) = Some (lcg_seed minstd_rand0 s'))"
proof -
  have "coprime (unat (multiplier minstd_rand0)) (lcg_modulus minstd_rand0)"
    by (simp add: minstd_rand0_def lcg_modulus_def coprime_iff_gcd_eq_1 gcd_non_0_nat)
  then show ?thesis
    using lcg_stays_in_range [OF minstd_rand0_ok(1), of False "\<lambda>n. replicate n 5" 0 1000] by (simp add: minstd_rand0_ok)
qed

end
