(* ===== verification/Rnd_Twister.thy ===== *)
theory Rnd_Twister
  imports Rnd_Lcg
begin

text \<open>
  The engines of \<open>random.h\<close> and \<open>random.tcc\<close> that keep a ring of words:
  \<open>mersenne_twister_engine\<close> and \<open>subtract_with_carry_engine\<close>. The template arguments are a record, the
  array \<open>_M_x\<close> is a list with checked accesses.
\<close>

section \<open>Definitions\<close>

subsection \<open>Mersenne twister\<close>

record 'w mt_params =
  word_size :: nat
  state_size :: nat
  shift_size :: nat
  mask_bits :: nat
  xor_mask :: 'w
  tempering_u :: nat
  tempering_d :: 'w
  tempering_s :: nat
  tempering_b :: 'w
  tempering_t :: nat
  tempering_c :: 'w
  tempering_l :: nat
  initialization_multiplier :: 'w

record 'w mersenne_twister =
  M_x :: "'w list"
  M_p :: nat

text \<open>The static assertions of the class on its arguments.\<close>

definition mt_ok :: "'a :: len word mt_params \<Rightarrow> bool" where
  "mt_ok P \<longleftrightarrow> 1 \<le> shift_size P \<and> shift_size P \<le> state_size P \<and> mask_bits P \<le> word_size P \<and>
     tempering_u P \<le> word_size P \<and> tempering_s P \<le> word_size P \<and> tempering_t P \<le> word_size P \<and>
     tempering_l P \<le> word_size P \<and> word_size P \<le> LENGTH('a) \<and>
     xor_mask P \<le> Shift (word_size P) - 1 \<and> tempering_b P \<le> Shift (word_size P) - 1 \<and>
     tempering_c P \<le> Shift (word_size P) - 1 \<and> tempering_d P \<le> Shift (word_size P) - 1 \<and>
     initialization_multiplier P \<le> Shift (word_size P) - 1"

text \<open>
  A shift by the length of the type is undefined in C++, and \<open>w - 2\<close> is a shift of the seeding loop:
  the assertions leave that open, the properties exclude it.
\<close>

definition mt_shifts_ok :: "'a :: len word mt_params \<Rightarrow> bool" where
  "mt_shifts_ok P \<longleftrightarrow> 2 \<le> word_size P \<and> mask_bits P < LENGTH('a) \<and> tempering_u P < LENGTH('a) \<and>
     tempering_s P < LENGTH('a) \<and> tempering_t P < LENGTH('a) \<and> tempering_l P < LENGTH('a)"

fun mt_seed_loop :: "'a :: len word mt_params \<Rightarrow> 'a word list \<Rightarrow> nat \<Rightarrow> nat \<Rightarrow> 'a word list option" where
  "mt_seed_loop P xs i 0 = Some xs"
| "mt_seed_loop P xs i (Suc left) = do {
     x \<leftarrow> buf_get xs (i - 1);
     let x = x XOR drop_bit (word_size P - 2) x;
     let x = x * initialization_multiplier P;
     let x = x + mod_default (of_nat (state_size P)) (of_nat i);
     xs \<leftarrow> buf_put xs i (mod_default (Shift (word_size P)) x);
     mt_seed_loop P xs (i + 1) left }"

text \<open>\<open>xs\<close> is the array \<open>_M_x\<close> as the constructor finds it.\<close>

definition mt_seed :: "'a :: len word mt_params \<Rightarrow> 'a word list \<Rightarrow> 'a word \<Rightarrow> 'a word mersenne_twister option" where
  "mt_seed P xs sd = do {
     xs \<leftarrow> buf_put xs 0 (mod_default (Shift (word_size P)) sd);
     xs \<leftarrow> mt_seed_loop P xs 1 (state_size P - 1);
     Some \<lparr>M_x = xs, M_p = state_size P\<rparr> }"

definition upper_mask :: "'a :: len word mt_params \<Rightarrow> 'a word" where
  "upper_mask P = push_bit (mask_bits P) (- 1)"

fun mt_seed_seq_loop :: "'a :: len word mt_params \<Rightarrow> u32 list \<Rightarrow> nat \<Rightarrow> 'a word list \<Rightarrow> bool \<Rightarrow> nat \<Rightarrow> nat \<Rightarrow>
    ('a word list \<times> bool) option" where
  "mt_seed_seq_loop P arr k xs zero i 0 = Some (xs, zero)"
| "mt_seed_seq_loop P arr k xs zero i (Suc left) = do {
     acc \<leftarrow> seed_sum arr (k * i) k k 1 0;
     let x = mod_default (Shift (word_size P)) acc;
     xs \<leftarrow> buf_put xs i x;
     let zero = (if zero then (if i = 0 then x AND upper_mask P = 0 else x = 0) else zero);
     mt_seed_seq_loop P arr k xs zero (i + 1) left }"

definition mt_seed_seq :: "'a :: len word mt_params \<Rightarrow> 'a word list \<Rightarrow> (nat \<Rightarrow> u32 list) \<Rightarrow> 'a word mersenne_twister option" where
  "mt_seed_seq P xs generate = do {
     let k = (word_size P + 31) div 32;
     (xs, zero) \<leftarrow> mt_seed_seq_loop P (generate (state_size P * k)) k xs True 0 (state_size P);
     xs \<leftarrow> (if zero then buf_put xs 0 (Shift (word_size P - 1)) else Some xs);
     Some \<lparr>M_x = xs, M_p = state_size P\<rparr> }"

text \<open>
  The two loops of \<open>_M_gen_rand\<close>. The index \<open>k + (m - n)\<close> of the second wraps around in the source,
  to \<open>k - (n - m)\<close>.
\<close>

definition mt_twist :: "'a :: len word mt_params \<Rightarrow> 'a word \<Rightarrow> 'a word \<Rightarrow> 'a word \<Rightarrow> 'a word" where
  "mt_twist P x0 x1 xm =
     (let y = (x0 AND upper_mask P) OR (x1 AND NOT (upper_mask P))
      in xm XOR drop_bit 1 y XOR (if y AND 1 \<noteq> 0 then xor_mask P else 0))"

fun gen_rand_loop1 :: "'a :: len word mt_params \<Rightarrow> 'a word list \<Rightarrow> nat \<Rightarrow> nat \<Rightarrow> 'a word list option" where
  "gen_rand_loop1 P xs k 0 = Some xs"
| "gen_rand_loop1 P xs k (Suc left) = do {
     x0 \<leftarrow> buf_get xs k;
     x1 \<leftarrow> buf_get xs (k + 1);
     xm \<leftarrow> buf_get xs (k + shift_size P);
     xs \<leftarrow> buf_put xs k (mt_twist P x0 x1 xm);
     gen_rand_loop1 P xs (k + 1) left }"

fun gen_rand_loop2 :: "'a :: len word mt_params \<Rightarrow> 'a word list \<Rightarrow> nat \<Rightarrow> nat \<Rightarrow> 'a word list option" where
  "gen_rand_loop2 P xs k 0 = Some xs"
| "gen_rand_loop2 P xs k (Suc left) = do {
     x0 \<leftarrow> buf_get xs k;
     x1 \<leftarrow> buf_get xs (k + 1);
     xm \<leftarrow> buf_get xs (k - (state_size P - shift_size P));
     xs \<leftarrow> buf_put xs k (mt_twist P x0 x1 xm);
     gen_rand_loop2 P xs (k + 1) left }"

definition M_gen_rand :: "'a :: len word mt_params \<Rightarrow> 'a word mersenne_twister \<Rightarrow> 'a word mersenne_twister option" where
  "M_gen_rand P e = do {
     let n = state_size P;
     let m = shift_size P;
     xs \<leftarrow> gen_rand_loop1 P (M_x e) 0 (n - m);
     xs \<leftarrow> gen_rand_loop2 P xs (n - m) (m - 1);
     x0 \<leftarrow> buf_get xs (n - 1);
     x1 \<leftarrow> buf_get xs 0;
     xm \<leftarrow> buf_get xs (m - 1);
     xs \<leftarrow> buf_put xs (n - 1) (mt_twist P x0 x1 xm);
     Some (e\<lparr>M_x := xs, M_p := 0\<rparr>) }"

partial_function (option) mt_discard :: "'a :: len word mt_params \<Rightarrow> 'a word mersenne_twister \<Rightarrow> nat \<Rightarrow> 'a word mersenne_twister option" where
  "mt_discard P e z =
     (if state_size P - M_p e < z then do {
        e' \<leftarrow> M_gen_rand P e;
        mt_discard P e' (z - (state_size P - M_p e)) }
      else Some (e\<lparr>M_p := M_p e + z\<rparr>))"

definition mt_temper :: "'a :: len word mt_params \<Rightarrow> 'a word \<Rightarrow> 'a word" where
  "mt_temper P z =
     (let z = z XOR (drop_bit (tempering_u P) z AND tempering_d P);
          z = z XOR (push_bit (tempering_s P) z AND tempering_b P);
          z = z XOR (push_bit (tempering_t P) z AND tempering_c P)
      in z XOR drop_bit (tempering_l P) z)"

definition mt_call :: "'a :: len word mt_params \<Rightarrow> 'a word mersenne_twister \<Rightarrow> ('a word \<times> 'a word mersenne_twister) option" where
  "mt_call P e = do {
     e \<leftarrow> (if state_size P \<le> M_p e then M_gen_rand P e else Some e);
     z \<leftarrow> buf_get (M_x e) (M_p e);
     Some (mt_temper P z, e\<lparr>M_p := M_p e + 1\<rparr>) }"

subsection \<open>Subtract with carry\<close>

record swc_params =
  swc_word_size :: nat
  short_lag :: nat
  long_lag :: nat

record 'w subtract_with_carry =
  swc_x :: "'w list"
  swc_carry :: 'w
  swc_p :: nat

definition swc_ok :: "swc_params \<Rightarrow> nat \<Rightarrow> bool" where
  "swc_ok P digits \<longleftrightarrow> 0 < short_lag P \<and> short_lag P < long_lag P \<and> 0 < swc_word_size P \<and> swc_word_size P \<le> digits"

text \<open>Seeding draws from the linear congruential engine \<open>__lcg\<close>, 32 bits at a time.\<close>

definition swc_lcg :: "'a :: len word lcg_params" where
  "swc_lcg = \<lparr>multiplier = 40014, increment = 0, modulus = 2147483563\<rparr>"

fun swc_seed_sum :: "bool \<Rightarrow> 'a :: len word \<Rightarrow> nat \<Rightarrow> 'a word \<Rightarrow> 'a word \<Rightarrow> ('a word \<times> 'a word) option" where
  "swc_seed_sum int128 lcg 0 factor acc = Some (acc, lcg)"
| "swc_seed_sum int128 lcg (Suc left) factor acc = do {
     (y, lcg) \<leftarrow> lcg_call int128 swc_lcg lcg;
     swc_seed_sum int128 lcg left (factor * Shift 32) (acc + ucast (mod_default (Shift 32) (ucast y :: u32)) * factor) }"

fun swc_seed_loop :: "bool \<Rightarrow> swc_params \<Rightarrow> 'a :: len word \<Rightarrow> 'a word list \<Rightarrow> nat \<Rightarrow> nat \<Rightarrow> 'a word list option" where
  "swc_seed_loop int128 P lcg x i 0 = Some x"
| "swc_seed_loop int128 P lcg x i (Suc left) = do {
     (acc, lcg) \<leftarrow> swc_seed_sum int128 lcg ((swc_word_size P + 31) div 32) 1 0;
     x \<leftarrow> buf_put x i (mod_default (Shift (swc_word_size P)) acc);
     swc_seed_loop int128 P lcg x (i + 1) left }"

definition swc_start :: "swc_params \<Rightarrow> 'a :: len word list \<Rightarrow> 'a word subtract_with_carry option" where
  "swc_start P x = do {
     y \<leftarrow> buf_get x (long_lag P - 1);
     Some \<lparr>swc_x = x, swc_carry = (if y = 0 then 1 else 0), swc_p = 0\<rparr> }"

definition swc_seed :: "bool \<Rightarrow> swc_params \<Rightarrow> 'a :: len word list \<Rightarrow> 'a word \<Rightarrow> 'a word subtract_with_carry option" where
  "swc_seed int128 P x v = do {
     x \<leftarrow> swc_seed_loop int128 P (lcg_seed swc_lcg (if v = 0 then 19780503 else v)) x 0 (long_lag P);
     swc_start P x }"

fun swc_seed_seq_loop :: "swc_params \<Rightarrow> u32 list \<Rightarrow> nat \<Rightarrow> 'a :: len word list \<Rightarrow> nat \<Rightarrow> nat \<Rightarrow> 'a word list option" where
  "swc_seed_seq_loop P arr k x i 0 = Some x"
| "swc_seed_seq_loop P arr k x i (Suc left) = do {
     acc \<leftarrow> seed_sum arr (k * i) k k 1 0;
     x \<leftarrow> buf_put x i (mod_default (Shift (swc_word_size P)) acc);
     swc_seed_seq_loop P arr k x (i + 1) left }"

definition swc_seed_seq :: "swc_params \<Rightarrow> 'a :: len word list \<Rightarrow> (nat \<Rightarrow> u32 list) \<Rightarrow> 'a word subtract_with_carry option" where
  "swc_seed_seq P x generate = do {
     let k = (swc_word_size P + 31) div 32;
     x \<leftarrow> swc_seed_seq_loop P (generate (long_lag P * k)) k x 0 (long_lag P);
     swc_start P x }"

definition swc_call :: "swc_params \<Rightarrow> 'a :: len word subtract_with_carry \<Rightarrow> ('a word \<times> 'a word subtract_with_carry) option" where
  "swc_call P e = do {
     let ps = (if swc_p e < short_lag P then swc_p e + long_lag P - short_lag P else swc_p e - short_lag P);
     xs \<leftarrow> buf_get (swc_x e) ps;
     xp \<leftarrow> buf_get (swc_x e) (swc_p e);
     let (xi, carry) =
       (if xs \<ge> xp + swc_carry e then (xs - xp - swc_carry e, 0)
        else (Shift (swc_word_size P) - xp - swc_carry e + xs, 1));
     x \<leftarrow> buf_put (swc_x e) (swc_p e) xi;
     let p = swc_p e + 1;
     Some (xi, e\<lparr>swc_x := x, swc_carry := carry, swc_p := (if long_lag P \<le> p then 0 else p)\<rparr>) }"

section \<open>Words of fewer bits than their type\<close>

lemma fits_bits: "unat (x :: 'a :: len word) < 2 ^ w \<longleftrightarrow> (\<forall>n. bit x n \<longrightarrow> n < w)"
proof -
  have "unat x < 2 ^ w \<longleftrightarrow> take_bit w (unat x) = unat x"
    by (simp add: take_bit_nat_eq_self_iff)
  also have "\<dots> \<longleftrightarrow> take_bit w x = x"
    by (simp add: word_unat_eq_iff unsigned_take_bit_eq)
  also have "\<dots> \<longleftrightarrow> (\<forall>n. bit x n \<longrightarrow> n < w)"
    using bit_imp_le_length by (fastforce simp: bit_eq_iff bit_take_bit_iff)
  finally show ?thesis .
qed

lemma unat_Shift: "w < LENGTH('a) \<Longrightarrow> unat (Shift w :: 'a :: len word) = 2 ^ w"
proof -
  assume w: "w < LENGTH('a)"
  have "unat (of_nat (2 ^ w) :: 'a word) = 2 ^ w"
    unfolding unsigned_of_nat of_nat_id by (rule take_bit_nat_eq_self) (use w in simp)
  then show ?thesis
    using w by (simp add: Shift_def push_bit_eq_mult)
qed

lemma fits_all: "LENGTH('a) \<le> w \<Longrightarrow> unat (x :: 'a :: len word) < 2 ^ w"
  using unsigned_less [of x, where 'a = nat] by (meson less_le_trans one_le_numeral power_increasing)

lemma fits_mod [simp]: "unat (mod_default (Shift w) x :: 'a :: len word) < 2 ^ w"
proof (cases "w < LENGTH('a)")
  case True
  then have "(Shift w :: 'a word) \<noteq> 0"
    using unat_Shift [OF True] by auto
  then show ?thesis
    using True by (simp add: unat_mod_default unat_Shift)
qed (simp add: fits_all)

lemma fits_below:
  assumes "x \<le> Shift w - 1"
  shows "unat (x :: 'a :: len word) < 2 ^ w"
proof (cases "w < LENGTH('a)")
  case True
  then have "unat (Shift w - 1 :: 'a word) = 2 ^ w - 1"
    using unat_Shift [OF True] by (subst unat_minus_one) auto
  then have "unat x \<le> 2 ^ w - 1"
    using assms by (simp add: word_le_nat_alt)
  then show ?thesis
    using zero_less_power [of "2 :: nat" w] by linarith
qed (simp add: fits_all)

lemma fits_twist:
  assumes "mt_ok P" and "unat x0 < 2 ^ word_size P" and "unat x1 < 2 ^ word_size P" and "unat xm < 2 ^ word_size P"
  shows "unat (mt_twist P x0 x1 xm) < 2 ^ word_size P"
proof -
  have "unat (xor_mask P) < 2 ^ word_size P"
    using assms(1) by (intro fits_below) (simp add: mt_ok_def)
  then show ?thesis
    using assms(2-) unfolding fits_bits mt_twist_def Let_def by (auto simp: bit_simps split: if_splits)
qed

lemma fits_temper:
  assumes "mt_ok P" and "unat z < 2 ^ word_size P"
  shows "unat (mt_temper P z) < 2 ^ word_size P"
proof -
  have "unat (tempering_b P) < 2 ^ word_size P" "unat (tempering_c P) < 2 ^ word_size P" "unat (tempering_d P) < 2 ^ word_size P"
    using assms(1) by (simp_all add: fits_below mt_ok_def)
  then have fits: "unat (z XOR (push_bit n z AND tempering_b P)) < 2 ^ word_size P"
      "unat (z XOR (push_bit n z AND tempering_c P)) < 2 ^ word_size P"
      "unat (z XOR (drop_bit n z AND tempering_d P)) < 2 ^ word_size P" "unat (z XOR drop_bit n z) < 2 ^ word_size P"
    if "unat z < 2 ^ word_size P" for n z
    using that unfolding fits_bits by (auto simp: bit_simps)
  show ?thesis
    using assms(2) unfolding mt_temper_def Let_def by (intro fits)
qed

section \<open>The recurrence of the twister\<close>

text \<open>
  The twist of the defining recurrence: the high bits of a word above \<open>mask_bits\<close> joined with the low
  bits of the next, shifted right and, when odd, combined with the mask; and the infinite sequence that
  continues the words of a state.
\<close>

definition twisted :: "'a :: len word mt_params \<Rightarrow> 'a word \<Rightarrow> 'a word \<Rightarrow> 'a word" where
  "twisted P x0 x1 =
     (let y = push_bit (mask_bits P) (drop_bit (mask_bits P) x0) OR take_bit (mask_bits P) x1
      in drop_bit 1 y XOR (if odd y then xor_mask P else 0))"

lemma mt_twist_twisted: "mt_twist P x0 x1 xm = xm XOR twisted P x0 x1"
proof -
  have "x0 AND upper_mask P = push_bit (mask_bits P) (drop_bit (mask_bits P) x0)"
    and "x1 AND NOT (upper_mask P) = take_bit (mask_bits P) x1"
    unfolding upper_mask_def by (rule bit_word_eqI; auto simp: bit_simps)+
  moreover have "y AND 1 \<noteq> 0 \<longleftrightarrow> odd y" for y :: "'a word"
    by (simp add: and_one_eq odd_iff_mod_2_eq_one)
  ultimately show ?thesis
    by (simp add: mt_twist_def twisted_def Let_def ac_simps)
qed

function mt_sequence :: "'a :: len word mt_params \<Rightarrow> 'a word list \<Rightarrow> nat \<Rightarrow> 'a word" where
  "mt_sequence P xs i =
     (if i < state_size P \<or> \<not> shift_size P < state_size P \<or> shift_size P = 0 then xs ! i
      else let k = i - state_size P
        in mt_sequence P xs (k + shift_size P) XOR twisted P (mt_sequence P xs k) (mt_sequence P xs (k + 1)))"
  by pat_completeness auto
termination
  by (relation "measure (\<lambda>(P, xs, i). i)") auto

declare mt_sequence.simps [simp del]

text \<open>The array after \<open>k\<close> of its words have been replaced.\<close>

definition mt_partial :: "'a :: len word mt_params \<Rightarrow> 'a word list \<Rightarrow> nat \<Rightarrow> 'a word list" where
  "mt_partial P xs k = map (\<lambda>j. mt_sequence P xs (if j < k then state_size P + j else j)) [0..<state_size P]"

lemma length_mt_partial [simp]: "length (mt_partial P xs k) = state_size P"
  by (simp add: mt_partial_def)

lemma mt_partial_nth:
  "j < state_size P \<Longrightarrow> mt_partial P xs k ! j = mt_sequence P xs (if j < k then state_size P + j else j)"
  by (simp add: mt_partial_def)

lemma mt_partial_put:
  assumes "k < state_size P" and "0 < shift_size P" and "shift_size P < state_size P"
  shows "buf_put (mt_partial P xs k) k
      (mt_twist P (mt_sequence P xs k) (mt_sequence P xs (k + 1)) (mt_sequence P xs (k + shift_size P))) =
    Some (mt_partial P xs (k + 1))"
proof -
  have "mt_twist P (mt_sequence P xs k) (mt_sequence P xs (k + 1)) (mt_sequence P xs (k + shift_size P)) =
      mt_sequence P xs (state_size P + k)"
    using assms mt_sequence.simps [of P xs "state_size P + k"] by (simp add: mt_twist_twisted)
  then show ?thesis
    using assms(1) by (auto simp: buf_put_def mt_partial_def list_eq_iff_nth_eq nth_list_update)
qed

lemma mt_partial_0: "length xs = state_size P \<Longrightarrow> mt_partial P xs 0 = xs"
  by (auto simp: mt_partial_def list_eq_iff_nth_eq mt_sequence.simps)

lemma gen_rand_loop1_partial:
  assumes "0 < shift_size P" and "shift_size P < state_size P" and "k + left = state_size P - shift_size P"
  shows "gen_rand_loop1 P (mt_partial P xs k) k left = Some (mt_partial P xs (k + left))"
  using assms(3)
proof (induction left arbitrary: k)
  case (Suc left)
  then have "gen_rand_loop1 P (mt_partial P xs (k + 1)) (k + 1) left = Some (mt_partial P xs (k + 1 + left))"
    by (intro Suc.IH) simp
  then show ?case
    using Suc.prems assms(1,2) mt_partial_put [of k P xs] by (simp add: mt_partial_nth)
qed simp

lemma gen_rand_loop2_partial:
  assumes "0 < shift_size P" and "shift_size P < state_size P" and "state_size P - shift_size P \<le> k"
    and "k + left = state_size P - 1"
  shows "gen_rand_loop2 P (mt_partial P xs k) k left = Some (mt_partial P xs (k + left))"
  using assms(3,4)
proof (induction left arbitrary: k)
  case (Suc left)
  then have "gen_rand_loop2 P (mt_partial P xs (k + 1)) (k + 1) left = Some (mt_partial P xs (k + 1 + left))"
    by (intro Suc.IH) simp_all
  moreover have "state_size P + (k - (state_size P - shift_size P)) = k + shift_size P"
      "k - (state_size P - shift_size P) < k"
    using Suc.prems assms(1,2) by simp_all
  ultimately show ?case
    using Suc.prems assms(1,2) mt_partial_put [of k P xs] by (simp add: mt_partial_nth)
qed simp

lemma gen_rand_sequence:
  assumes "0 < shift_size P" and "shift_size P < state_size P" and "length (M_x e) = state_size P"
  shows "M_gen_rand P e = Some (e\<lparr>M_x := map (\<lambda>j. mt_sequence P (M_x e) (state_size P + j)) [0..<state_size P], M_p := 0\<rparr>)"
proof -
  let ?n = "state_size P" and ?m = "shift_size P" and ?xs = "M_x e"
  have loop1: "gen_rand_loop1 P ?xs 0 (?n - ?m) = Some (mt_partial P ?xs (?n - ?m))"
    using gen_rand_loop1_partial [of P 0 "?n - ?m" ?xs] assms by (simp add: mt_partial_0)
  have loop2: "gen_rand_loop2 P (mt_partial P ?xs (?n - ?m)) (?n - ?m) (?m - 1) = Some (mt_partial P ?xs (?n - 1))"
    using gen_rand_loop2_partial [of P "?n - ?m" "?m - 1" ?xs] assms by simp
  have gets: "buf_get (mt_partial P ?xs (?n - 1)) (?n - 1) = Some (mt_sequence P ?xs (?n - 1))"
      "buf_get (mt_partial P ?xs (?n - 1)) 0 = Some (mt_sequence P ?xs (?n - 1 + 1))"
      "buf_get (mt_partial P ?xs (?n - 1)) (?m - 1) = Some (mt_sequence P ?xs (?n - 1 + ?m))"
    using assms by (simp_all add: mt_partial_nth)
  have "mt_partial P ?xs (?n - 1 + 1) = map (\<lambda>j. mt_sequence P ?xs (?n + j)) [0..<?n]"
    by (auto simp: mt_partial_def)
  then show ?thesis
    using mt_partial_put [of "?n - 1" P ?xs] assms(1,2)
    unfolding M_gen_rand_def Let_def loop1 loop2 bind.bind_lunit gets by simp
qed

lemma mt_sequence_shift:
  assumes "0 < shift_size P" and "shift_size P < state_size P"
  shows "mt_sequence P (map (\<lambda>j. mt_sequence P xs (state_size P + j)) [0..<state_size P]) i = mt_sequence P xs (state_size P + i)"
proof (induction i rule: less_induct)
  case (less i)
  let ?ys = "map (\<lambda>j. mt_sequence P xs (state_size P + j)) [0..<state_size P]" and ?n = "state_size P"
  show ?case
  proof (cases "i < ?n")
    case True
    then show ?thesis
      by (simp add: mt_sequence.simps [of P ?ys i])
  next
    case False
    let ?k = "i - ?n"
    have "mt_sequence P ?ys ?k = mt_sequence P xs i" "mt_sequence P ?ys (?k + 1) = mt_sequence P xs (i + 1)"
        "mt_sequence P ?ys (?k + shift_size P) = mt_sequence P xs (i + shift_size P)"
      using less.IH [of ?k] less.IH [of "?k + 1"] less.IH [of "?k + shift_size P"] False assms by (simp_all add: add.commute)
    then show ?thesis
      using False assms mt_sequence.simps [of P ?ys i] mt_sequence.simps [of P xs "?n + i"] by simp
  qed
qed

section \<open>States of the twister\<close>

definition mt_wf :: "'a :: len word mt_params \<Rightarrow> 'a word mersenne_twister \<Rightarrow> bool" where
  "mt_wf P e \<longleftrightarrow> length (M_x e) = state_size P \<and> M_p e \<le> state_size P \<and> (\<forall>x \<in> set (M_x e). unat x < 2 ^ word_size P)"

lemma fits_sequence:
  assumes "mt_ok P" and "length xs = state_size P" and "\<forall>x \<in> set xs. unat x < 2 ^ word_size P" and "shift_size P < state_size P"
  shows "unat (mt_sequence P xs i) < 2 ^ word_size P"
proof (induction i rule: less_induct)
  case (less i)
  have pos: "0 < shift_size P"
    using assms(1) by (simp add: mt_ok_def)
  show ?case
  proof (cases "i < state_size P")
    case True
    then show ?thesis
      using assms(2,3) by (simp add: mt_sequence.simps)
  next
    case False
    then show ?thesis
      using less.IH pos assms(4) by (subst mt_sequence.simps) (auto simp: Let_def simp flip: mt_twist_twisted intro!: fits_twist [OF assms(1)])
  qed
qed

fun mt_run :: "'a :: len word mt_params \<Rightarrow> 'a word mersenne_twister \<Rightarrow> nat \<Rightarrow> ('a word list \<times> 'a word mersenne_twister) option" where
  "mt_run P e 0 = Some ([], e)"
| "mt_run P e (Suc k) = do {
     (z, e) \<leftarrow> mt_call P e;
     (zs, e) \<leftarrow> mt_run P e k;
     Some (z # zs, e) }"

lemma mt_call_inside:
  assumes "length (M_x e) = state_size P" and "M_p e < state_size P"
  shows "mt_call P e = Some (mt_temper P (M_x e ! M_p e), e\<lparr>M_p := M_p e + 1\<rparr>)"
  using assms by (simp add: mt_call_def)

lemma mt_call_reload:
  assumes "0 < shift_size P" and "shift_size P < state_size P" and "length (M_x e) = state_size P" and "M_p e = state_size P"
  shows "mt_call P e = do { e \<leftarrow> M_gen_rand P e; mt_call P e }"
  using assms gen_rand_sequence [OF assms(1-3)] by (simp add: mt_call_def)

lemma mt_run_sequence:
  assumes "0 < shift_size P" and "shift_size P < state_size P" and "length (M_x e) = state_size P" and "M_p e \<le> state_size P"
  shows "\<exists>e'. mt_run P e k = Some (map (\<lambda>i. mt_temper P (mt_sequence P (M_x e) (M_p e + i))) [0..<k], e')"
  using assms(3,4)
proof (induction k arbitrary: e)
  case (Suc k)
  let ?n = "state_size P"
  have inside: "\<exists>e'. mt_run P e (Suc k) = Some (map (\<lambda>i. mt_temper P (mt_sequence P (M_x e) (M_p e + i))) [0..<Suc k], e')"
    if inner: "M_p e < ?n" "length (M_x e) = ?n" for e :: "'a word mersenne_twister"
  proof -
    obtain e' where "mt_run P (e\<lparr>M_p := M_p e + 1\<rparr>) k =
        Some (map (\<lambda>i. mt_temper P (mt_sequence P (M_x e) (M_p e + 1 + i))) [0..<k], e')"
      using Suc.IH [of "e\<lparr>M_p := M_p e + 1\<rparr>"] inner by auto
    moreover have "mt_sequence P (M_x e) (M_p e) = M_x e ! M_p e"
      using inner by (simp add: mt_sequence.simps)
    ultimately show ?thesis
      using mt_call_inside [OF inner(2,1)] by (simp add: upt_conv_Cons map_Suc_upt [symmetric] del: upt_Suc)
  qed
  show ?case
  proof (cases "M_p e < ?n")
    case False
    let ?e = "e\<lparr>M_x := map (\<lambda>j. mt_sequence P (M_x e) (?n + j)) [0..<?n], M_p := 0\<rparr>"
    have "mt_run P e (Suc k) = mt_run P ?e (Suc k)"
      using mt_call_reload [OF assms(1,2) Suc.prems(1)] gen_rand_sequence [OF assms(1,2) Suc.prems(1)] False Suc.prems(2) by simp
    moreover have "M_p e = ?n"
      using False Suc.prems(2) by simp
    ultimately show ?thesis
      using inside [of ?e] assms(1,2) by (simp add: mt_sequence_shift)
  qed (use inside Suc.prems in simp)
qed simp

lemma gen_rand_wf:
  assumes "mt_ok P" and "shift_size P < state_size P" and "mt_wf P e"
  shows "\<exists>e'. M_gen_rand P e = Some e' \<and> mt_wf P e' \<and> M_p e' = 0"
proof -
  have "0 < shift_size P"
    using assms(1) by (simp add: mt_ok_def)
  then show ?thesis
    using gen_rand_sequence [of P e] fits_sequence [OF assms(1) _ _ assms(2)] assms(2,3) by (auto simp: mt_wf_def)
qed

lemma mt_call_wf:
  assumes "mt_ok P" and "shift_size P < state_size P" and "mt_wf P e"
  shows "\<exists>z e'. mt_call P e = Some (z, e') \<and> mt_wf P e' \<and> unat z < 2 ^ word_size P"
proof -
  have inside: "\<exists>z e'. mt_call P e = Some (z, e') \<and> mt_wf P e' \<and> unat z < 2 ^ word_size P"
    if "M_p e < state_size P" "mt_wf P e" for e
    using that mt_call_inside [of e P] by (auto simp: mt_wf_def intro!: fits_temper [OF assms(1)])
  show ?thesis
  proof (cases "M_p e < state_size P")
    case False
    obtain e1 where e1: "M_gen_rand P e = Some e1" "mt_wf P e1" "M_p e1 = 0"
      using gen_rand_wf [OF assms] by blast
    have "mt_call P e = mt_call P e1"
      using mt_call_reload [of P e] e1(1) assms False by (auto simp: mt_ok_def mt_wf_def)
    then show ?thesis
      using inside [OF _ e1(2)] e1(3) assms(2) by simp
  qed (use inside assms(3) in blast)
qed

text \<open>Skipping numbers.\<close>

lemma mt_run_add: "mt_run P e (k + l) = do {
    (ys, e) \<leftarrow> mt_run P e k;
    (zs, e) \<leftarrow> mt_run P e l;
    Some (ys @ zs, e) }"
proof (induction k arbitrary: e)
  case 0
  show ?case
    by (cases "mt_run P e l") auto
next
  case (Suc k)
  show ?case
    by (cases "mt_call P e") (auto simp: Suc split: bind_splits)
qed

lemma mt_run_inside:
  assumes "length (M_x e) = state_size P" and "M_p e + k \<le> state_size P"
  shows "\<exists>zs. mt_run P e k = Some (zs, e\<lparr>M_p := M_p e + k\<rparr>)"
  using assms
proof (induction k arbitrary: e)
  case (Suc k)
  have "\<exists>zs. mt_run P (e\<lparr>M_p := M_p e + 1\<rparr>) k = Some (zs, e\<lparr>M_p := M_p e + 1 + k\<rparr>)"
    using Suc.IH [of "e\<lparr>M_p := M_p e + 1\<rparr>"] Suc.prems by simp
  then show ?case
    using mt_call_inside [of e P] Suc.prems by auto
qed simp

lemma mt_discard_run:
  assumes "mt_ok P" and "shift_size P < state_size P" and "mt_wf P e"
  shows "\<exists>zs e'. mt_run P e z = Some (zs, e') \<and> mt_discard P e z = Some e'"
  using assms(3)
proof (induction "2 * z + (if M_p e = state_size P then 1 else 0)" arbitrary: z e rule: less_induct)
  case less
  let ?n = "state_size P" and ?rest = "state_size P - M_p e"
  note unfold = mt_discard.simps [of P e z]
  have wf: "length (M_x e) = ?n" "M_p e \<le> ?n"
    using less.prems by (simp_all add: mt_wf_def)
  show ?case
  proof (cases "?rest < z")
    case False
    then show ?thesis
      using mt_run_inside [of e P z] wf unfold by auto
  next
    case True
    obtain ys where ys: "mt_run P e ?rest = Some (ys, e\<lparr>M_p := ?n\<rparr>)"
      using mt_run_inside [of e P ?rest] wf by auto
    obtain e1 where e1: "M_gen_rand P e = Some e1" "mt_wf P e1" "M_p e1 = 0"
      using gen_rand_wf [OF assms(1,2) less.prems] by blast
    have gen: "M_gen_rand P (e\<lparr>M_p := ?n\<rparr>) = Some e1"
      using e1(1) by (auto simp: M_gen_rand_def Let_def bind_eq_Some_conv)
    have "\<exists>zs e'. mt_run P e1 (z - ?rest) = Some (zs, e') \<and> mt_discard P e1 (z - ?rest) = Some e'"
      using True wf e1(3) assms(2) by (intro less.hyps [OF _ e1(2)]) auto
    then obtain zs e' where rest: "mt_run P e1 (z - ?rest) = Some (zs, e')" "mt_discard P e1 (z - ?rest) = Some e'"
      by blast
    obtain l where l: "z - ?rest = Suc l"
      using True by (cases "z - ?rest") auto
    have "mt_call P (e\<lparr>M_p := ?n\<rparr>) = mt_call P e1"
      using mt_call_reload [of P "e\<lparr>M_p := ?n\<rparr>"] gen assms(1,2) wf(1) by (simp add: mt_ok_def)
    then have "mt_run P (e\<lparr>M_p := ?n\<rparr>) (z - ?rest) = Some (zs, e')"
      using rest(1) l by simp
    then have "mt_run P e (?rest + (z - ?rest)) = Some (ys @ zs, e')"
      unfolding mt_run_add ys by simp
    then show ?thesis
      using True unfold e1(1) rest(2) by simp
  qed
qed

text \<open>Seeding.\<close>

lemma mt_seed_loop_fits:
  assumes "i + left = length xs" and "1 \<le> i" and "\<And>j. j < i \<Longrightarrow> unat (xs ! j) < 2 ^ word_size P"
  shows "\<exists>ys. mt_seed_loop P xs i left = Some ys \<and> length ys = length xs \<and> (\<forall>y \<in> set ys. unat y < 2 ^ word_size P)"
  using assms
proof (induction left arbitrary: i xs)
  case 0
  then show ?case
    by (auto simp: in_set_conv_nth)
next
  case (Suc left)
  define x where "x = mod_default (Shift (word_size P)) ((xs ! (i - 1) XOR drop_bit (word_size P - 2) (xs ! (i - 1))) *
      initialization_multiplier P + mod_default (of_nat (state_size P)) (of_nat i))"
  have "\<exists>ys. mt_seed_loop P (xs[i := x]) (i + 1) left = Some ys \<and> length ys = length (xs[i := x]) \<and>
      (\<forall>y \<in> set ys. unat y < 2 ^ word_size P)"
    using Suc.prems by (intro Suc.IH) (auto simp: nth_list_update x_def)
  then show ?case
    using Suc.prems(1,2) by (simp add: x_def)
qed

lemma mt_seed_wf:
  assumes "mt_ok P" and "length xs = state_size P"
  shows "\<exists>e. mt_seed P xs sd = Some e \<and> mt_wf P e"
proof -
  have n: "0 < state_size P"
    using assms(1) by (simp add: mt_ok_def)
  then have "\<exists>ys. mt_seed_loop P (xs[0 := mod_default (Shift (word_size P)) sd]) 1 (state_size P - 1) = Some ys \<and>
      length ys = length (xs[0 := mod_default (Shift (word_size P)) sd]) \<and> (\<forall>y \<in> set ys. unat y < 2 ^ word_size P)"
    using assms(2) by (intro mt_seed_loop_fits) (auto simp: nth_list_update)
  then show ?thesis
    using n assms(2) by (auto simp: mt_seed_def mt_wf_def)
qed

text \<open>A state of zeros, apart from the bits the recurrence never looks at, would stay one.\<close>

definition mt_zero_below :: "'a :: len word mt_params \<Rightarrow> 'a word list \<Rightarrow> nat \<Rightarrow> bool" where
  "mt_zero_below P xs k \<longleftrightarrow> (\<forall>j < k. if j = 0 then xs ! 0 AND upper_mask P = 0 else xs ! j = 0)"

lemma mt_zero_below_Suc:
  "i < length xs \<Longrightarrow> mt_zero_below P (xs[i := x]) (Suc i) \<longleftrightarrow>
    mt_zero_below P xs i \<and> (if i = 0 then x AND upper_mask P = 0 else x = 0)"
  by (auto simp: mt_zero_below_def less_Suc_eq nth_list_update)

lemma mt_seed_seq_loop_fits:
  assumes "i + left = length xs" and "k * length xs \<le> length arr" and "\<And>j. j < i \<Longrightarrow> unat (xs ! j) < 2 ^ word_size P"
    and "zero = mt_zero_below P xs i"
  shows "\<exists>ys. mt_seed_seq_loop P arr k xs zero i left = Some (ys, mt_zero_below P ys (length xs)) \<and> length ys = length xs \<and>
    (\<forall>y \<in> set ys. unat y < 2 ^ word_size P)"
  using assms
proof (induction left arbitrary: i xs zero)
  case 0
  then show ?case
    by (auto simp: in_set_conv_nth)
next
  case (Suc left)
  have "k * i + k \<le> k * length xs"
    using Suc.prems(1) by (metis add.commute add_leD1 le_add1 mult_Suc_right mult_le_mono2 add_Suc_right Suc_le_eq less_add_Suc1)
  then obtain acc :: "'a word" where acc: "seed_sum arr (k * i) k k 1 0 = Some acc"
    using seed_sum_total [of "k * i" k arr k 1 0] Suc.prems(2) by auto
  define x where "x = mod_default (Shift (word_size P)) acc"
  let ?zero = "if zero then (if i = 0 then x AND upper_mask P = 0 else x = 0) else zero"
  have "\<exists>ys. mt_seed_seq_loop P arr k (xs[i := x]) ?zero (i + 1) left = Some (ys, mt_zero_below P ys (length (xs[i := x]))) \<and>
      length ys = length (xs[i := x]) \<and> (\<forall>y \<in> set ys. unat y < 2 ^ word_size P)"
    using Suc.prems by (intro Suc.IH) (auto simp: nth_list_update x_def mt_zero_below_Suc)
  moreover have "mt_seed_seq_loop P arr k xs zero i (Suc left) = mt_seed_seq_loop P arr k (xs[i := x]) ?zero (i + 1) left"
    unfolding mt_seed_seq_loop.simps acc bind.bind_lunit Let_def x_def [symmetric]
    using Suc.prems(1) by (simp split del: if_split)
  ultimately show ?case
    by (simp only: length_list_update)
qed

lemma upper_mask_top:
  assumes "mask_bits P < word_size P" and "word_size P \<le> LENGTH('a)"
  shows "Shift (word_size P - 1) AND upper_mask P \<noteq> (0 :: 'a :: len word)"
proof -
  have "bit (Shift (word_size P - 1) AND upper_mask P) (word_size P - 1)"
    using assms by (auto simp: Shift_def upper_mask_def bit_simps)
  then show ?thesis
    by (metis bit_0_eq bot_apply bot_bool_def)
qed

lemma mt_seed_seq_wf:
  fixes P :: "'a :: len word mt_params"
  assumes "mt_ok P" and "length xs = state_size P" and "\<And>n. length (generate n) = n" and "mask_bits P < word_size P"
  shows "\<exists>e. mt_seed_seq P xs generate = Some e \<and> mt_wf P e \<and> \<not> mt_zero_below P (M_x e) (state_size P)"
proof -
  let ?n = "state_size P" and ?k = "(word_size P + 31) div 32"
  have n: "0 < ?n" "0 < word_size P"
    using assms(1,4) by (auto simp: mt_ok_def)
  obtain ys where ys: "mt_seed_seq_loop P (generate (?n * ?k)) ?k xs True 0 ?n = Some (ys, mt_zero_below P ys ?n)"
      "length ys = ?n" "\<forall>y \<in> set ys. unat y < 2 ^ word_size P"
    using mt_seed_seq_loop_fits [of 0 ?n xs ?k "generate (?n * ?k)" P True] assms(2,3) by (auto simp: mt_zero_below_def mult.commute)
  let ?top = "Shift (word_size P - 1) :: 'a word"
  have w: "word_size P \<le> LENGTH('a)" "word_size P - 1 < LENGTH('a)"
    using assms(1) n(2) by (auto simp: mt_ok_def)
  have top: "?top AND upper_mask P \<noteq> 0" "unat ?top < 2 ^ word_size P"
    using upper_mask_top [OF assms(4) w(1)] unat_Shift [OF w(2)] n(2) by simp_all
  show ?thesis
  proof (cases "mt_zero_below P ys ?n")
    case True
    then have "mt_seed_seq P xs generate = Some \<lparr>M_x = ys[0 := ?top], M_p = ?n\<rparr>"
      using ys(1,2) n(1) by (simp add: mt_seed_seq_def Let_def)
    moreover have "\<not> mt_zero_below P (ys[0 := ?top]) ?n"
      using top(1) n(1) ys(2) by (auto simp: mt_zero_below_def)
    moreover have "\<forall>y \<in> set (ys[0 := ?top]). unat y < 2 ^ word_size P"
      using top(2) ys(3) set_update_subset_insert [of ys 0 ?top] by blast
    ultimately show ?thesis
      using ys(2) by (simp add: mt_wf_def)
  next
    case False
    then show ?thesis
      using ys by (simp add: mt_seed_seq_def Let_def mt_wf_def)
  qed
qed

section \<open>Subtract with carry\<close>

definition swc_wf :: "swc_params \<Rightarrow> 'a :: len word subtract_with_carry \<Rightarrow> bool" where
  "swc_wf P e \<longleftrightarrow> length (swc_x e) = long_lag P \<and> swc_p e < long_lag P \<and> swc_carry e \<le> 1 \<and>
     (\<forall>x \<in> set (swc_x e). unat x < 2 ^ swc_word_size P)"

text \<open>The number \<open>short_lag\<close> steps back in the ring.\<close>

definition swc_short :: "swc_params \<Rightarrow> 'a subtract_with_carry \<Rightarrow> nat" where
  "swc_short P e = (swc_p e + (long_lag P - short_lag P)) mod long_lag P"

lemma swc_short_index:
  assumes "swc_p e < long_lag P" and "0 < short_lag P" and "short_lag P < long_lag P"
  shows "(if swc_p e < short_lag P then swc_p e + long_lag P - short_lag P else swc_p e - short_lag P) = swc_short P e"
    and "swc_short P e < long_lag P"
proof -
  show "(if swc_p e < short_lag P then swc_p e + long_lag P - short_lag P else swc_p e - short_lag P) = swc_short P e"
  proof (cases "swc_p e < short_lag P")
    case False
    then have "swc_p e + (long_lag P - short_lag P) = swc_p e - short_lag P + long_lag P"
      using assms by simp
    then show ?thesis
      unfolding swc_short_def using False assms(1) by (simp only: mod_add_self2) simp
  qed (use assms in \<open>simp add: swc_short_def\<close>)
  show "swc_short P e < long_lag P"
    using assms by (simp add: swc_short_def)
qed

text \<open>The subtraction, while the sum it compares with cannot wrap around.\<close>

lemma subtract_with_carry_exact:
  fixes xs xp c :: "'a :: len word"
  assumes "w < LENGTH('a)" and "unat xs < 2 ^ w" and "unat xp < 2 ^ w" and "c \<le> 1"
  defines "xi \<equiv> (if xs \<ge> xp + c then xs - xp - c else Shift w - xp - c + xs)"
  shows "int (unat xi) = (int (unat xs) - int (unat xp) - int (unat c)) mod 2 ^ w"
    and "xs \<ge> xp + c \<longleftrightarrow> unat xp + unat c \<le> unat xs"
proof -
  have c: "unat c \<le> 1"
    using assms(4) by (simp add: word_le_nat_alt)
  have "(2 :: nat) ^ w < 2 ^ LENGTH('a)"
    using assms(1) by simp
  then have sum: "unat (xp + c) = unat xp + unat c"
    using assms(3) c by (intro unat_add_small) linarith
  then show le: "xs \<ge> xp + c \<longleftrightarrow> unat xp + unat c \<le> unat xs"
    by (simp add: word_le_nat_alt)
  show "int (unat xi) = (int (unat xs) - int (unat xp) - int (unat c)) mod 2 ^ w"
  proof (cases "xp + c \<le> xs")
    case True
    then have "xi = xs - (xp + c)"
      by (simp add: xi_def diff_diff_add)
    then have "unat xi = unat xs - (unat xp + unat c)"
      using True sum by (simp add: unat_sub)
    moreover have "unat xp + unat c \<le> unat xs"
      using True le by simp
    ultimately have "int (unat xi) = int (unat xs) - int (unat xp) - int (unat c)"
      by simp
    moreover have "int (unat xi) < 2 ^ w"
      using \<open>unat xi = _\<close> assms(2) by (simp add: less_imp_diff_less)
    ultimately show ?thesis
      by (metis mod_pos_pos_trivial of_nat_0_le_iff)
  next
    case False
    then have less: "unat xs < unat xp + unat c"
      using le by simp
    have xi: "xi = Shift w - (xp + c) + xs"
      using False by (simp add: xi_def diff_diff_add)
    have "unat xi = 2 ^ w - (unat xp + unat c) + unat xs"
      unfolding xi using less sum assms(3) c by (subst unat_sub_add) (auto simp: unat_Shift [OF assms(1)])
    then have "int (unat xi) = int (unat xs) - int (unat xp) - int (unat c) + 2 ^ w"
      using assms(3) c by simp
    moreover have "int (unat xs) < int (unat xp) + int (unat c)"
      using less unfolding of_nat_add [symmetric] of_nat_less_iff .
    then have "int (unat xi) < 2 ^ w"
      using calculation by linarith
    ultimately show ?thesis
      by (metis mod_add_self2 mod_pos_pos_trivial of_nat_0_le_iff)
  qed
qed

lemma swc_call_exact:
  fixes e :: "'a :: len word subtract_with_carry"
  assumes "swc_ok P LENGTH('a)" and "swc_word_size P < LENGTH('a)" and "swc_wf P e"
  shows "\<exists>xi e'. swc_call P e = Some (xi, e') \<and> swc_wf P e' \<and>
    int (unat xi) = (int (unat (swc_x e ! swc_short P e)) - int (unat (swc_x e ! swc_p e)) - int (unat (swc_carry e))) mod 2 ^ swc_word_size P \<and>
    swc_x e' = (swc_x e)[swc_p e := xi] \<and> swc_p e' = (swc_p e + 1) mod long_lag P \<and>
    swc_carry e' = (if unat (swc_x e ! swc_p e) + unat (swc_carry e) \<le> unat (swc_x e ! swc_short P e) then 0 else 1)"
proof -
  let ?w = "swc_word_size P" and ?xs = "swc_x e ! swc_short P e" and ?xp = "swc_x e ! swc_p e" and ?c = "swc_carry e"
  have lags: "0 < short_lag P" "short_lag P < long_lag P"
    using assms(1) by (simp_all add: swc_ok_def)
  have wf: "length (swc_x e) = long_lag P" "swc_p e < long_lag P" "?c \<le> 1" "\<forall>x \<in> set (swc_x e). unat x < 2 ^ ?w"
    using assms(3) by (simp_all add: swc_wf_def)
  note short = swc_short_index [OF wf(2) lags]
  have fits: "unat ?xs < 2 ^ ?w" "unat ?xp < 2 ^ ?w"
    using wf short(2) by simp_all
  define xi where "xi = (if ?xs \<ge> ?xp + ?c then ?xs - ?xp - ?c else Shift ?w - ?xp - ?c + ?xs)"
  define c where "c = (if ?xs \<ge> ?xp + ?c then 0 else 1 :: 'a word)"
  have call: "swc_call P e = Some (xi, e\<lparr>swc_x := (swc_x e)[swc_p e := xi], swc_carry := c,
      swc_p := (if long_lag P \<le> swc_p e + 1 then 0 else swc_p e + 1)\<rparr>)"
    unfolding swc_call_def short(1) Let_def using wf short(2) by (simp add: xi_def c_def)
  note exact = subtract_with_carry_exact [OF assms(2) fits wf(3), folded xi_def]
  have "int (unat xi) < int (2 ^ ?w)"
    unfolding exact(1) by simp
  then have xi: "unat xi < 2 ^ ?w"
    unfolding of_nat_less_iff .
  have "(if long_lag P \<le> swc_p e + 1 then 0 else swc_p e + 1) = (swc_p e + 1) mod long_lag P"
    using wf(2) by (auto simp: mod_Suc)
  moreover have "\<forall>x \<in> set ((swc_x e)[swc_p e := xi]). unat x < 2 ^ ?w"
    using xi wf(4) set_update_subset_insert [of "swc_x e" "swc_p e" xi] by blast
  ultimately show ?thesis
    using call exact wf xi by (auto simp: swc_wf_def c_def)
qed

text \<open>Seeding. The congruential engine fits every type of 32 bits or more.\<close>

lemma unat_numeral_small:
  assumes "32 \<le> LENGTH('a)" and "(numeral k :: nat) < 2 ^ 32"
  shows "unat (numeral k :: 'a :: len word) = numeral k"
proof -
  have "(2 :: nat) ^ 32 \<le> 2 ^ LENGTH('a)"
    using assms(1) by (rule power_increasing) simp
  then have "unat (of_nat (numeral k) :: 'a word) = numeral k"
    unfolding unsigned_of_nat of_nat_id by (intro take_bit_nat_eq_self) (rule less_le_trans [OF assms(2)])
  then show ?thesis
    by simp
qed

abbreviation lcg_in :: "'a :: len word lcg_params \<Rightarrow> 'a word \<Rightarrow> bool" where
  "lcg_in P x \<equiv> unat x < lcg_modulus P \<and> (increment P = 0 \<longrightarrow> x \<noteq> 0)"

lemma swc_lcg_ok:
  assumes "32 \<le> LENGTH('a)"
  shows "lcg_ok (swc_lcg :: 'a :: len word lcg_params)" and "lcg_modulus (swc_lcg :: 'a word lcg_params) = 2147483563"
    and "coprime (unat (multiplier (swc_lcg :: 'a word lcg_params))) (lcg_modulus (swc_lcg :: 'a word lcg_params))"
proof -
  have vals: "unat (2147483563 :: 'a word) = 2147483563" "unat (40014 :: 'a word) = 40014"
    by (rule unat_numeral_small [OF assms], simp)+
  then have nonzero: "(2147483563 :: 'a word) \<noteq> 0" "(40014 :: 'a word) \<noteq> 0"
    by (metis unsigned_0 zero_neq_numeral)+
  then show modulus: "lcg_modulus (swc_lcg :: 'a word lcg_params) = 2147483563"
    using vals by (simp add: swc_lcg_def lcg_modulus_def del: unsigned_numeral)
  show "lcg_ok (swc_lcg :: 'a word lcg_params)"
    using vals nonzero by (simp add: swc_lcg_def lcg_ok_def word_less_nat_alt del: unsigned_numeral)
  show "coprime (unat (multiplier (swc_lcg :: 'a word lcg_params))) (lcg_modulus (swc_lcg :: 'a word lcg_params))"
    unfolding modulus using vals by (simp add: swc_lcg_def coprime_iff_gcd_eq_1 gcd_non_0_nat del: unsigned_numeral)
qed

lemma swc_seed_sum_total:
  assumes "32 \<le> LENGTH('a)" and "LENGTH('a) \<le> 32 \<or> int128 \<and> LENGTH('a) \<le> 64" and "lcg_in swc_lcg lcg"
  shows "\<exists>acc' lcg'. swc_seed_sum int128 lcg k factor (acc :: 'a :: len word) = Some (acc', lcg') \<and> lcg_in swc_lcg lcg'"
  using assms(3)
proof (induction k arbitrary: lcg factor acc)
  case (Suc k)
  have modulus: "1 < lcg_modulus (swc_lcg :: 'a word lcg_params)"
    by (simp add: swc_lcg_ok(2) [OF assms(1)])
  have "\<exists>y. lcg_call int128 swc_lcg lcg = Some (y, y) \<and> lcg_in swc_lcg y"
    using Suc.prems swc_lcg_ok(3) [OF assms(1)] assms(2) by (intro lcg_call_range [OF swc_lcg_ok(1) [OF assms(1)] modulus]) simp_all
  then show ?case
    using Suc.IH by fastforce
qed simp

lemma swc_seed_loop_fits:
  assumes "32 \<le> LENGTH('a)" and "LENGTH('a) \<le> 32 \<or> int128 \<and> LENGTH('a) \<le> 64" and "lcg_in swc_lcg lcg"
    and "i + left = length xs" and "\<And>j. j < i \<Longrightarrow> unat (xs ! j) < 2 ^ swc_word_size P"
  shows "\<exists>ys. swc_seed_loop int128 P lcg (xs :: 'a :: len word list) i left = Some ys \<and> length ys = length xs \<and>
    (\<forall>y \<in> set ys. unat y < 2 ^ swc_word_size P)"
  using assms(3-)
proof (induction left arbitrary: i xs lcg)
  case 0
  then show ?case
    by (auto simp: in_set_conv_nth)
next
  case (Suc left)
  obtain acc lcg' :: "'a word" where acc: "swc_seed_sum int128 lcg ((swc_word_size P + 31) div 32) 1 0 = Some (acc, lcg')"
      "lcg_in swc_lcg lcg'"
    using swc_seed_sum_total [OF assms(1,2) Suc.prems(1)] by blast
  define x where "x = mod_default (Shift (swc_word_size P)) acc"
  have "\<exists>ys. swc_seed_loop int128 P lcg' (xs[i := x]) (i + 1) left = Some ys \<and> length ys = length (xs[i := x]) \<and>
      (\<forall>y \<in> set ys. unat y < 2 ^ swc_word_size P)"
    using Suc.prems acc(2) by (intro Suc.IH) (auto simp: nth_list_update x_def)
  then show ?case
    using Suc.prems(2) acc(1) by (simp add: x_def)
qed

lemma swc_seed_seq_loop_fits:
  assumes "i + left = length xs" and "k * length xs \<le> length arr" and "\<And>j. j < i \<Longrightarrow> unat (xs ! j) < 2 ^ swc_word_size P"
  shows "\<exists>ys. swc_seed_seq_loop P arr k (xs :: 'a :: len word list) i left = Some ys \<and> length ys = length xs \<and>
    (\<forall>y \<in> set ys. unat y < 2 ^ swc_word_size P)"
  using assms
proof (induction left arbitrary: i xs)
  case 0
  then show ?case
    by (auto simp: in_set_conv_nth)
next
  case (Suc left)
  have "k * (i + 1) \<le> k * length xs"
    using Suc.prems(1) by (intro mult_le_mono2) simp
  then obtain acc :: "'a word" where acc: "seed_sum arr (k * i) k k 1 0 = Some acc"
    using seed_sum_total [of "k * i" k arr k 1 0] Suc.prems(2) by auto
  define x where "x = mod_default (Shift (swc_word_size P)) acc"
  have "\<exists>ys. swc_seed_seq_loop P arr k (xs[i := x]) (i + 1) left = Some ys \<and> length ys = length (xs[i := x]) \<and>
      (\<forall>y \<in> set ys. unat y < 2 ^ swc_word_size P)"
    using Suc.prems by (intro Suc.IH) (auto simp: nth_list_update x_def)
  then show ?case
    using Suc.prems(1) acc(1) by (simp add: x_def)
qed

lemma swc_start_wf:
  assumes "0 < long_lag P" and "length xs = long_lag P" and "\<forall>x \<in> set xs. unat x < 2 ^ swc_word_size P"
  shows "\<exists>e. swc_start P xs = Some e \<and> swc_wf P e"
  using assms by (simp add: swc_start_def swc_wf_def)

section \<open>Properties\<close>

text \<open>
  C15. The state of a \<open>mersenne_twister_engine\<close> is well formed from the constructor on: the array
  has its full length, the position is in it or just behind, and every word has at most \<open>word_size\<close>
  bits. Seeding by a number or by a seed sequence establishes that, the latter never the state of
  zeros the recurrence cannot leave; a call preserves it, returns a number of at most
  \<open>word_size\<close> bits, and no access is outside the array.
\<close>

theorem mt_well_formed:
  assumes "mt_ok P" and "mt_shifts_ok P" and "shift_size P < state_size P" and "mask_bits P < word_size P"
    and "length xs = state_size P" and "\<And>n. length (generate n) = n" and "mt_wf P e"
  shows "(\<exists>e. mt_seed P xs sd = Some e \<and> mt_wf P e) \<and>
    (\<exists>e. mt_seed_seq P xs generate = Some e \<and> mt_wf P e \<and> \<not> mt_zero_below P (M_x e) (state_size P)) \<and>
    (\<exists>z e'. mt_call P e = Some (z, e') \<and> mt_wf P e' \<and> unat z < 2 ^ word_size P)"
  using mt_seed_wf [OF assms(1,5)] mt_seed_seq_wf [OF assms(1,5,6,4)] mt_call_wf [OF assms(1,3,7)] by blast

text \<open>\<open>mt19937\<close>.\<close>

definition mt19937 :: "u32 mt_params" where
  "mt19937 = \<lparr>word_size = 32, state_size = 624, shift_size = 397, mask_bits = 31, xor_mask = 0x9908b0df,
     tempering_u = 11, tempering_d = 0xffffffff, tempering_s = 7, tempering_b = 0x9d2c5680,
     tempering_t = 15, tempering_c = 0xefc60000, tempering_l = 18, initialization_multiplier = 1812433253\<rparr>"

lemma mt19937_ok:
  "mt_ok mt19937" "mt_shifts_ok mt19937" "shift_size mt19937 < state_size mt19937" "mask_bits mt19937 < word_size mt19937"
  "state_size mt19937 = 624"
  by (simp_all add: mt19937_def mt_ok_def mt_shifts_ok_def Shift_def)

lemma mt19937_wf: "mt_wf mt19937 \<lparr>M_x = replicate 624 1, M_p = 624\<rparr>"
  by (simp add: mt_wf_def mt19937_def)

theorem mt_well_formed_witness:
  "(\<exists>e. mt_seed mt19937 (replicate 624 0) 5489 = Some e \<and> mt_wf mt19937 e) \<and>
   (\<exists>e. mt_seed_seq mt19937 (replicate 624 0) (\<lambda>n. replicate n 0) = Some e \<and> mt_wf mt19937 e \<and> \<not> mt_zero_below mt19937 (M_x e) 624) \<and>
   (\<exists>z e'. mt_call mt19937 \<lparr>M_x = replicate 624 1, M_p = 624\<rparr> = Some (z, e') \<and> mt_wf mt19937 e' \<and> unat z < 2 ^ word_size mt19937)"
  using mt_well_formed [OF mt19937_ok(1-4) _ _ mt19937_wf, of "replicate 624 0" "\<lambda>n. replicate n 0" 5489]
  by (simp add: mt19937_ok)

text \<open>
  C8. Numbers drawn from a \<open>mersenne_twister_engine\<close> are the terms of the recurrence
  \<open>x(i + n) = x(i + m) \<oplus> twisted (x i) (x (i + 1))\<close> that the words of its state begin, one after the other
  from its position on and each put through the four tempering steps, although the engine computes them
  \<open>n\<close> at a time and in place.
\<close>

theorem mt_draws_recurrence:
  assumes "mt_ok P" and "mt_shifts_ok P" and "shift_size P < state_size P" and "mt_wf P e"
  shows "\<exists>e'. mt_run P e k = Some (map (\<lambda>i.
      let z0 = mt_sequence P (M_x e) (M_p e + i);
          z1 = z0 XOR (drop_bit (tempering_u P) z0 AND tempering_d P);
          z2 = z1 XOR (push_bit (tempering_s P) z1 AND tempering_b P);
          z3 = z2 XOR (push_bit (tempering_t P) z2 AND tempering_c P)
      in z3 XOR drop_bit (tempering_l P) z3) [0..<k], e')"
  using mt_run_sequence [of P e k] assms unfolding mt_temper_def Let_def by (simp add: mt_ok_def mt_wf_def)

theorem mt_draws_recurrence_witness:
  "\<exists>e'. mt_run mt19937 \<lparr>M_x = replicate 624 1, M_p = 624\<rparr> 1000 = Some (map (\<lambda>i.
      let z0 = mt_sequence mt19937 (replicate 624 1) (624 + i);
          z1 = z0 XOR (drop_bit 11 z0 AND 0xffffffff);
          z2 = z1 XOR (push_bit 7 z1 AND 0x9d2c5680);
          z3 = z2 XOR (push_bit 15 z2 AND 0xefc60000)
      in z3 XOR drop_bit 18 z3) [0..<1000], e')"
  using mt_draws_recurrence [OF mt19937_ok(1-3) mt19937_wf, of 1000]
  unfolding mt19937_def mt_params.simps mersenne_twister.simps .

text \<open>
  \<open>discard(z)\<close> of a \<open>mersenne_twister_engine\<close> ends and leaves the state that \<open>z\<close> calls leave,
  without tempering a single word.
\<close>

theorem mt_discard_is_calls:
  assumes "mt_ok P" and "mt_shifts_ok P" and "shift_size P < state_size P" and "mt_wf P e"
  shows "\<exists>zs e'. mt_run P e z = Some (zs, e') \<and> mt_discard P e z = Some e'"
  by (rule mt_discard_run [OF assms(1,3,4)])

theorem mt_discard_is_calls_witness:
  "\<exists>zs e'. mt_run mt19937 \<lparr>M_x = replicate 624 1, M_p = 624\<rparr> 1000000 = Some (zs, e') \<and>
    mt_discard mt19937 \<lparr>M_x = replicate 624 1, M_p = 624\<rparr> 1000000 = Some e'"
  by (rule mt_discard_is_calls [OF mt19937_ok(1-3) mt19937_wf])

text \<open>
  A \<open>subtract_with_carry_engine\<close> whose words have fewer bits than their type computes
  \<open>x(i) = x(i - s) - x(i - r) - c mod 2 ^ w\<close>, and the carry says whether that difference was negative; every
  way of seeding starts it in a well formed state, and every call keeps that.
\<close>

theorem swc_recurrence:
  fixes e :: "'a :: len word subtract_with_carry"
  assumes "swc_ok P LENGTH('a)" and "swc_word_size P < LENGTH('a)" and "swc_wf P e" and "32 \<le> LENGTH('a)"
    and "LENGTH('a) \<le> 32 \<or> int128 \<and> LENGTH('a) \<le> 64" and "length xs = long_lag P" and "\<And>n. length (generate n) = n"
  shows "(\<exists>xi e'. swc_call P e = Some (xi, e') \<and> swc_wf P e' \<and>
      int (unat xi) = (int (unat (swc_x e ! swc_short P e)) - int (unat (swc_x e ! swc_p e)) - int (unat (swc_carry e))) mod 2 ^ swc_word_size P \<and>
      swc_x e' = (swc_x e)[swc_p e := xi] \<and> swc_p e' = (swc_p e + 1) mod long_lag P \<and>
      swc_carry e' = (if unat (swc_x e ! swc_p e) + unat (swc_carry e) \<le> unat (swc_x e ! swc_short P e) then 0 else 1)) \<and>
    (\<exists>e. swc_seed int128 P (xs :: 'a word list) v = Some e \<and> swc_wf P e) \<and>
    (\<exists>e. swc_seed_seq P xs generate = Some e \<and> swc_wf P e)"
proof -
  let ?k = "(swc_word_size P + 31) div 32"
  have lag: "0 < long_lag P"
    using assms(1) by (simp add: swc_ok_def)
  have "lcg_in swc_lcg (lcg_seed swc_lcg (if v = 0 then 19780503 else v))"
    using swc_lcg_ok(1,2) [OF assms(4)] by (intro lcg_seed_range) simp_all
  then have "\<exists>ys. swc_seed_loop int128 P (lcg_seed swc_lcg (if v = 0 then 19780503 else v)) xs 0 (long_lag P) = Some ys \<and>
      length ys = length xs \<and> (\<forall>y \<in> set ys. unat y < 2 ^ swc_word_size P)"
    using assms(6) by (intro swc_seed_loop_fits assms(4,5)) simp_all
  then have "\<exists>e. swc_seed int128 P xs v = Some e \<and> swc_wf P e"
    using swc_start_wf [OF lag] assms(6) by (fastforce simp: swc_seed_def)
  moreover have "\<exists>ys. swc_seed_seq_loop P (generate (long_lag P * ?k)) ?k xs 0 (long_lag P) = Some ys \<and>
      length ys = length xs \<and> (\<forall>y \<in> set ys. unat y < 2 ^ swc_word_size P)"
    using assms(6,7) by (intro swc_seed_seq_loop_fits) (simp_all add: mult.commute)
  then have "\<exists>e. swc_seed_seq P xs generate = Some e \<and> swc_wf P e"
    using swc_start_wf [OF lag] assms(6) by (fastforce simp: swc_seed_seq_def Let_def)
  ultimately show ?thesis
    using swc_call_exact [OF assms(1-3)] by blast
qed

text \<open>\<open>ranlux24_base\<close>.\<close>

definition ranlux24_base :: swc_params where
  "ranlux24_base = \<lparr>swc_word_size = 24, short_lag = 10, long_lag = 24\<rparr>"

theorem swc_recurrence_witness:
  "(\<exists>xi e'. swc_call ranlux24_base \<lparr>swc_x = replicate 24 (7 :: u32), swc_carry = 1, swc_p = 3\<rparr> = Some (xi, e') \<and>
     swc_carry e' = 1 \<and> unat xi = 2 ^ 24 - 1) \<and>
   (\<exists>e. swc_seed False ranlux24_base (replicate 24 (0 :: u32)) 0 = Some e \<and> swc_wf ranlux24_base e)"
proof -
  let ?e = "\<lparr>swc_x = replicate 24 (7 :: u32), swc_carry = 1, swc_p = 3\<rparr>"
  have wf: "swc_wf ranlux24_base ?e" and short: "swc_short ranlux24_base ?e = 17"
    by (simp_all add: swc_wf_def ranlux24_base_def swc_short_def)
  have ok: "swc_ok ranlux24_base LENGTH(32)" "swc_word_size ranlux24_base < LENGTH(32)"
    by (simp_all add: swc_ok_def ranlux24_base_def)
  have "(\<exists>xi e'. swc_call ranlux24_base ?e = Some (xi, e') \<and> swc_wf ranlux24_base e' \<and>
      int (unat xi) = (int (unat (swc_x ?e ! swc_short ranlux24_base ?e)) - int (unat (swc_x ?e ! swc_p ?e)) -
        int (unat (swc_carry ?e))) mod 2 ^ swc_word_size ranlux24_base \<and>
      swc_x e' = (swc_x ?e)[swc_p ?e := xi] \<and> swc_p e' = (swc_p ?e + 1) mod long_lag ranlux24_base \<and>
      swc_carry e' = (if unat (swc_x ?e ! swc_p ?e) + unat (swc_carry ?e) \<le>
        unat (swc_x ?e ! swc_short ranlux24_base ?e) then 0 else 1)) \<and>
    (\<exists>e. swc_seed False ranlux24_base (replicate 24 (0 :: u32)) 0 = Some e \<and> swc_wf ranlux24_base e) \<and>
    (\<exists>e. swc_seed_seq ranlux24_base (replicate 24 (0 :: u32)) (\<lambda>n. replicate n 0) = Some e \<and> swc_wf ranlux24_base e)"
    by (rule swc_recurrence [OF ok wf]) (simp_all add: ranlux24_base_def)
  moreover have "unat xi = 16777215" if "uint xi = 16777215" for xi :: u32
    using that by (simp add: unat_eq_nat_uint)
  ultimately show ?thesis
    unfolding short by (simp add: ranlux24_base_def) blast
qed

text \<open>
  With words as wide as their type, which the class allows, the sum the engine compares with
  can wrap around, against what the comment in the code says: if the oldest word is all ones and the
  carry is set, the difference is negative but the carry is cleared.
\<close>

theorem swc_carry_lost:
  fixes e :: "'a :: len word subtract_with_carry"
  assumes "swc_ok P LENGTH('a)" and "swc_wf P e" and "swc_x e ! swc_p e = - 1" and "swc_carry e = 1"
  shows "\<exists>xi e'. swc_call P e = Some (xi, e') \<and> swc_carry e' = 0 \<and>
    unat (swc_x e ! swc_short P e) < unat (swc_x e ! swc_p e) + unat (swc_carry e)"
proof -
  have lags: "0 < short_lag P" "short_lag P < long_lag P"
    using assms(1) by (simp_all add: swc_ok_def)
  have wf: "length (swc_x e) = long_lag P" "swc_p e < long_lag P"
    using assms(2) by (simp_all add: swc_wf_def)
  note short = swc_short_index [OF wf(2) lags]
  have "unat (swc_x e ! swc_short P e) \<le> unat (swc_x e ! swc_p e)"
    unfolding assms(3) word_le_nat_alt [symmetric] by simp
  then show ?thesis
    unfolding swc_call_def short(1) Let_def using wf short(2) assms(3,4) by simp
qed

theorem swc_carry_lost_witness:
  "\<exists>xi e'. swc_call \<lparr>swc_word_size = 32, short_lag = 10, long_lag = 24\<rparr>
      \<lparr>swc_x = replicate 24 (- 1 :: u32), swc_carry = 1, swc_p = 3\<rparr> = Some (xi, e') \<and> swc_carry e' = 0"
proof -
  have "swc_wf \<lparr>swc_word_size = 32, short_lag = 10, long_lag = 24\<rparr> \<lparr>swc_x = replicate 24 (- 1 :: u32), swc_carry = 1, swc_p = 3\<rparr>"
    using fits_all [of 32 "- 1 :: u32"] by (simp add: swc_wf_def)
  then show ?thesis
    using swc_carry_lost [of "\<lparr>swc_word_size = 32, short_lag = 10, long_lag = 24\<rparr>"
        "\<lparr>swc_x = replicate 24 (- 1 :: u32), swc_carry = 1, swc_p = 3\<rparr>"] by (auto simp: swc_ok_def)
qed

end
