(* ===== verification/Inst_Shell.thy ===== *)
theory Inst_Shell
  imports Main
begin

text \<open>
  The shell the scripts of the repository are written in. An external command is run by a parameter
  that maps the command and the state of the world to an exit status and a new state; the model
  says which commands a script runs, in which order, and what it does with their exit status.
  What a command does to the world, the current directory included, is left to the parameter.
\<close>

section \<open>Commands\<close>

text \<open>\<open>> f\<close>, \<open>>> f\<close>, \<open>2>&1\<close>, \<open>1>&2\<close>, and a here-document.\<close>

datatype redirection = To string | Append string | Err_Out | Out_Err | Here string

datatype cmd = Cmd (cmd_env: "(string \<times> string) list") (cmd_argv: "string list") (cmd_redirs: "redirection list")

abbreviation words :: "string list \<Rightarrow> cmd" where
  "words argv \<equiv> Cmd [] argv []"

text \<open>A script goes on with the status of its last command, or has exited.\<close>

datatype outcome = Goes_On nat | Exited nat

type_synonym 'w runner = "cmd \<Rightarrow> 'w \<Rightarrow> nat \<times> 'w"

type_synonym 'w script = "'w \<Rightarrow> outcome \<times> 'w"

definition sh_cmd :: "'w runner \<Rightarrow> cmd \<Rightarrow> 'w script" where
  "sh_cmd run c w = (let (s, w) = run c w in (Goes_On s, w))"

definition sh_skip :: "'w script" where
  "sh_skip w = (Goes_On 0, w)"

definition sh_exit :: "nat \<Rightarrow> 'w script" where
  "sh_exit s w = (Exited s, w)"

definition sh_test :: "('w \<Rightarrow> bool) \<Rightarrow> 'w script" where
  "sh_test b w = (Goes_On (if b w then 0 else 1), w)"

definition sh_seq :: "'w script \<Rightarrow> 'w script \<Rightarrow> 'w script" where
  "sh_seq p q w = (case p w of (Goes_On s, w) \<Rightarrow> q w | (Exited s, w) \<Rightarrow> (Exited s, w))"

definition sh_and :: "'w script \<Rightarrow> 'w script \<Rightarrow> 'w script" where
  "sh_and p q w = (case p w of (Goes_On s, w) \<Rightarrow> if s = 0 then q w else (Goes_On s, w)
     | (Exited s, w) \<Rightarrow> (Exited s, w))"

definition sh_or :: "'w script \<Rightarrow> 'w script \<Rightarrow> 'w script" where
  "sh_or p q w = (case p w of (Goes_On s, w) \<Rightarrow> if s = 0 then (Goes_On s, w) else q w
     | (Exited s, w) \<Rightarrow> (Exited s, w))"

text \<open>\<open>if p; then q; else r; fi\<close>.\<close>

definition sh_if :: "'w script \<Rightarrow> 'w script \<Rightarrow> 'w script \<Rightarrow> 'w script" where
  "sh_if p q r w = (case p w of (Goes_On s, w) \<Rightarrow> if s = 0 then q w else r w
     | (Exited s, w) \<Rightarrow> (Exited s, w))"

fun sh_list :: "'w script list \<Rightarrow> 'w script" where
  "sh_list [] = sh_skip"
| "sh_list [p] = p"
| "sh_list (p # q # ps) = sh_seq p (sh_list (q # ps))"

text \<open>A command of a script with \<open>set -e\<close>: failure is the end.\<close>

definition sh_strict :: "'w script \<Rightarrow> 'w script" where
  "sh_strict p w = (case p w of (Goes_On s, w) \<Rightarrow> if s = 0 then (Goes_On s, w) else (Exited s, w)
     | (Exited s, w) \<Rightarrow> (Exited s, w))"

text \<open>A script run as a command of its own: its exit is not that of the caller.\<close>

fun status :: "outcome \<Rightarrow> nat" where
  "status (Goes_On s) = s"
| "status (Exited s) = s"

definition sh_process :: "'w script \<Rightarrow> 'w script" where
  "sh_process p w = (let (r, w) = p w in (Goes_On (status r), w))"

text \<open>
  A subshell, or a script that changes its directory: \<open>at_dir w w'\<close> is the world \<open>w'\<close> with the
  working directory of \<open>w\<close>.
\<close>

definition sh_subshell :: "('w \<Rightarrow> 'w \<Rightarrow> 'w) \<Rightarrow> 'w script \<Rightarrow> 'w script" where
  "sh_subshell at_dir p w = (let (r, w') = p w in (Goes_On (status r), at_dir w w'))"

lemmas shell_defs =
  sh_cmd_def sh_skip_def sh_exit_def sh_test_def sh_seq_def sh_and_def sh_or_def sh_if_def
  sh_strict_def sh_process_def

section \<open>Words\<close>

text \<open>\<open>"$@"\<close> in an assignment: the arguments with blanks between them.\<close>

fun unwords :: "string list \<Rightarrow> string" where
  "unwords [] = []"
| "unwords [a] = a"
| "unwords (a # b # as) = a @ '' '' @ unwords (b # as)"

text \<open>Field splitting at blanks, tabulators and newlines.\<close>

definition is_ifs :: "char \<Rightarrow> bool" where
  "is_ifs c \<longleftrightarrow> c = CHR '' '' \<or> c = CHR 0x09 \<or> c = CHR 0x0A"

function field_split :: "string \<Rightarrow> string list" where
  "field_split s = (case dropWhile is_ifs s of [] \<Rightarrow> []
     | c # cs \<Rightarrow> (c # takeWhile (\<lambda>x. \<not> is_ifs x) cs) # field_split (dropWhile (\<lambda>x. \<not> is_ifs x) cs))"
  by pat_completeness auto
termination
proof (relation "measure length")
  fix s c cs
  assume "dropWhile is_ifs s = c # cs"
  then have "length (c # cs) \<le> length s"
    using length_dropWhile_le [of is_ifs s] by simp
  then show "(dropWhile (\<lambda>x. \<not> is_ifs x) cs, s) \<in> measure length"
    using length_dropWhile_le [of "\<lambda>x. \<not> is_ifs x" cs] by simp
qed simp

declare field_split.simps [simp del]

text \<open>Words without blanks survive joining and splitting.\<close>

definition plain_word :: "string \<Rightarrow> bool" where
  "plain_word s \<longleftrightarrow> s \<noteq> [] \<and> list_all (\<lambda>c. \<not> is_ifs c) s"

lemma field_split_word:
  assumes "plain_word s" and "rest = [] \<or> is_ifs (hd rest)"
  shows "field_split (s @ rest) = s # field_split rest"
proof -
  obtain c cs where s: "s = c # cs" "\<not> is_ifs c" "\<And>x. x \<in> set cs \<Longrightarrow> \<not> is_ifs x"
    using assms(1) by (cases s) (auto simp: plain_word_def list_all_iff)
  have "takeWhile (\<lambda>x. \<not> is_ifs x) (cs @ rest) = cs" "dropWhile (\<lambda>x. \<not> is_ifs x) (cs @ rest) = rest"
    using s(3) assms(2) by (cases rest; simp add: takeWhile_append2 dropWhile_append2)+
  then show ?thesis
    using s(1,2) by (simp add: field_split.simps [of "c # cs @ rest"])
qed

lemma field_split_blank: "is_ifs c \<Longrightarrow> field_split (c # s) = field_split s"
  by (simp add: field_split.simps [of "c # s"] field_split.simps [of s])

lemma field_split_Nil [simp]: "field_split [] = []"
  by (simp add: field_split.simps)

lemma field_split_unwords: "list_all plain_word ws \<Longrightarrow> field_split (unwords ws) = ws"
proof (induction ws rule: unwords.induct)
  case (2 a)
  then show ?case
    using field_split_word [of a "[]"] by simp
next
  case (3 a b ws)
  then show ?case
    using field_split_word [of a "'' '' @ unwords (b # ws)"] by (simp add: field_split_blank is_ifs_def)
qed simp

lemma concat_map_single: "(\<And>x. f x = [x]) \<Longrightarrow> concat (map f xs) = xs"
  by (induction xs) simp_all

section \<open>Traces\<close>

text \<open>
  The commands a script has run, beside the world it has changed. A script cannot see the trace,
  so that what is proved of traces holds of the commands it runs without one.
\<close>

definition traced :: "'w runner \<Rightarrow> ('w \<times> cmd list) runner" where
  "traced run c = (\<lambda>(w, tr). let (s, w) = run c w in (s, (w, tr @ [c])))"

lemma sh_cmd_traced [simp]:
  "sh_cmd (traced run) c (w, tr) = (Goes_On (fst (run c w)), (snd (run c w), tr @ [c]))"
  by (simp add: sh_cmd_def traced_def split: prod.split)

lemma sh_cmd_simp: "sh_cmd run c w = (Goes_On (fst (run c w)), snd (run c w))"
  by (simp add: sh_cmd_def split: prod.split)

text \<open>A sequence of plain commands runs each of them.\<close>

definition run_all :: "'w runner \<Rightarrow> cmd list \<Rightarrow> 'w \<Rightarrow> 'w" where
  "run_all run cs w = fold (\<lambda>c w. snd (run c w)) cs w"

lemma run_all_simps [simp]:
  "run_all run [] w = w" "run_all run (c # cs) w = run_all run cs (snd (run c w))"
  "run_all run (cs @ ds) w = run_all run ds (run_all run cs w)"
  by (simp_all add: run_all_def)

lemma run_all_traced: "run_all (traced run) cs (w, tr) = (run_all run cs w, tr @ cs)"
  by (induction cs arbitrary: w tr) (simp_all add: traced_def split: prod.split)

lemma traced_run_all:
  "fst (traced run c (run_all (traced run) cs (w, tr))) = fst (run c (run_all run cs w))"
  "snd (traced run c (run_all (traced run) cs (w, tr))) = (snd (run c (run_all run cs w)), tr @ cs @ [c])"
  by (simp_all add: run_all_traced traced_def split: prod.split)

lemma sh_list_Cons: "ps \<noteq> [] \<Longrightarrow> sh_list (p # ps) = sh_seq p (sh_list ps)"
  by (cases ps) simp_all

lemma sh_list_cmds:
  assumes "cs \<noteq> []"
  shows "sh_list (map (sh_cmd run) cs) w =
    (Goes_On (fst (run (last cs) (run_all run (butlast cs) w))), run_all run cs w)"
  using assms
proof (induction cs arbitrary: w rule: list_nonempty_induct)
  case (single c)
  then show ?case
    by (simp add: sh_cmd_simp)
next
  case (cons c cs)
  then show ?case
    by (simp add: sh_list_Cons sh_seq_def sh_cmd_simp)
qed

lemma sh_seq_cmds:
  assumes "cs \<noteq> []"
  shows "sh_seq (sh_list (map (sh_cmd run) cs)) q w = q (run_all run cs w)"
  by (simp add: sh_seq_def sh_list_cmds [OF assms])

lemma sh_list_cmds_traced:
  "sh_list (map (sh_cmd (traced run)) (cs @ [c])) (w, tr) =
    (Goes_On (fst (run c (run_all run cs w))), (snd (run c (run_all run cs w)), tr @ cs @ [c]))"
  using sh_list_cmds [of "cs @ [c]" "traced run" "(w, tr)"] by (simp add: traced_run_all)

end
