(* ===== verification/Inst_Device.thy ===== *)
theory Inst_Device
  imports Inst_Shell
begin

text \<open>
  The scripts that run on the phone: \<open>on-device-scripts/\<close> and \<open>ramdisk/init\<close>. A variable of a script
  is a field of \<open>vars\<close>. POSIX lets a shell exit or go on when \<open>shift\<close> has nothing to shift; the
  parameter \<open>shift_exits\<close> says which.
\<close>

section \<open>Options\<close>

record vars =
  DEBIANDIR :: string
  DEVICE :: string
  DEBIAN :: string
  args :: "string list"

definition default_vars :: "string list \<Rightarrow> vars" where
  "default_vars argv = \<lparr>DEBIANDIR = ''debian'', DEVICE = ''/dev/block/mmcblk1p2'', DEBIAN = [], args = argv\<rparr>"

text \<open>\<open>$1\<close>, empty when there is no argument.\<close>

definition arg1 :: "vars \<Rightarrow> string" where
  "arg1 v = (case args v of [] \<Rightarrow> [] | a # _ \<Rightarrow> a)"

text \<open>\<open>shift\<close>: \<open>Inl\<close> the status with which the shell exits.\<close>

definition shift :: "bool \<Rightarrow> vars \<Rightarrow> nat + vars" where
  "shift shift_exits v = (case args v of
       [] \<Rightarrow> if shift_exits then Inl 1 else Inr v
     | _ # as \<Rightarrow> Inr (v\<lparr>args := as\<rparr>))"

definition bind_vars :: "nat + vars \<Rightarrow> (vars \<Rightarrow> nat + vars) \<Rightarrow> nat + vars" where
  "bind_vars r f = (case r of Inl s \<Rightarrow> Inl s | Inr v \<Rightarrow> f v)"

text \<open>The two options of \<open>run-in-debian.sh\<close> and of \<open>unpack-debian.sh\<close>.\<close>

definition option_d :: "bool \<Rightarrow> vars \<Rightarrow> nat + vars" where
  "option_d shift_exits v =
     (if arg1 v = ''-d'' then
        bind_vars (shift shift_exits v) (\<lambda>v. shift shift_exits (v\<lparr>DEBIAN := arg1 v\<rparr>))
      else Inr v)"

definition option_p :: "bool \<Rightarrow> vars \<Rightarrow> nat + vars" where
  "option_p shift_exits v =
     (if arg1 v = ''-p'' then
        bind_vars (shift shift_exits v) (\<lambda>v. shift shift_exits (v\<lparr>DEVICE := arg1 v\<rparr>))
      else Inr v)"

definition parse_options :: "bool \<Rightarrow> string list \<Rightarrow> nat + vars" where
  "parse_options shift_exits argv =
     bind_vars (option_d shift_exits (default_vars argv)) (option_p shift_exits)"

section \<open>\<open>run-in-debian.sh\<close>\<close>

definition bind_dirs :: "string list" where
  "bind_dirs = [''dev/pts'', ''proc'', ''sys'', ''data'', ''system'', ''sdcard'']"

definition bind_mount :: "string \<Rightarrow> string \<Rightarrow> cmd" where
  "bind_mount dir i = words [''busybox'', ''mount'', ''-o'', ''bind'', ''/'' @ i, dir @ ''/'' @ i]"

definition debian_command :: "string list \<Rightarrow> string" where
  "debian_command as = (if as \<noteq> [] then unwords as else ''/bin/bash'')"

definition chroot_cmd :: "string \<Rightarrow> string \<Rightarrow> string \<Rightarrow> cmd" where
  "chroot_cmd path dir cm = Cmd [(''TERM'', ''xterm''), (''SHELL'', ''/bin/bash''), (''HOME'', ''/root''),
     (''PATH'', ''/usr/local/sbin:/usr/local/bin:/usr/sbin:/usr/bin:'' @ path)]
     [''chroot'', dir, ''/bin/sh'', ''-c'', cm] []"

definition run_in_debian_body :: "'w runner \<Rightarrow> string \<Rightarrow> vars \<Rightarrow> 'w script" where
  "run_in_debian_body run path v = sh_list (
     [sh_cmd run (words [''cd'', ''/data'']),
      sh_cmd run (words [''busybox'', ''mount'', DEVICE v, DEBIANDIR v]),
      sh_or (sh_cmd run (words [''busybox'', ''mount'', ''-t'', ''devtmpfs'', ''devtmpfs'', DEBIANDIR v @ ''/dev'']))
        (sh_cmd run (words [''mount'', ''-o'', ''bind'', ''/dev'', DEBIANDIR v @ ''/dev'']))] @
     map (\<lambda>i. sh_cmd run (bind_mount (DEBIANDIR v) i)) bind_dirs @
     [sh_cmd run (chroot_cmd path (DEBIANDIR v) (debian_command (args v)))])"

definition run_in_debian :: "'w runner \<Rightarrow> bool \<Rightarrow> string \<Rightarrow> string list \<Rightarrow> 'w script" where
  "run_in_debian run shift_exits path argv = (case parse_options shift_exits argv of
       Inl s \<Rightarrow> sh_exit s | Inr v \<Rightarrow> run_in_debian_body run path v)"

section \<open>\<open>bootstrap-debian.sh\<close> and \<open>install-bootimage.sh\<close>\<close>

definition second_stage :: string where
  "second_stage = ''debootstrap/debootstrap --second-stage; cd /var/cache && dpkg -i *.deb && rm -f *.deb && adduser --gecos \"Bananian User\" --disabled-password user && adduser user sudo && (echo user:bananian | chpasswd user)''"

text \<open>\<open>$@\<close> without quotes is split into fields, and each field expanded to file names by \<open>glob\<close>.\<close>

definition bootstrap_debian ::
    "'w runner \<Rightarrow> ('w \<Rightarrow> 'w \<Rightarrow> 'w) \<Rightarrow> ('w \<Rightarrow> string \<Rightarrow> string list) \<Rightarrow> bool \<Rightarrow> string \<Rightarrow> string list \<Rightarrow> 'w script" where
  "bootstrap_debian run at_dir glob shift_exits path argv w =
     sh_subshell at_dir (run_in_debian run shift_exits path
       (concat (map (glob w) (concat (map field_split argv))) @ [second_stage])) w"

definition install_bootimage :: "'w runner \<Rightarrow> 'w script" where
  "install_bootimage run = sh_cmd run (words
     [''dd'', ''if=/data/boot.img'', ''of=/dev/block/bootdevice/by-name/recovery'', ''bs=2048''])"

section \<open>\<open>unpack-debian.sh\<close>\<close>

text \<open>The assignment \<open>allfiles=*\<close> does not expand the pattern.\<close>

definition allfiles :: string where
  "allfiles = ''*''"

definition unpack_debian_body :: "'w runner \<Rightarrow> ('w \<Rightarrow> string \<Rightarrow> bool) \<Rightarrow> vars \<Rightarrow> 'w script" where
  "unpack_debian_body run is_dir v = sh_list
     [sh_strict (sh_cmd run (words [''cd'', ''/data''])),
      sh_if (sh_test (\<lambda>w. is_dir w (DEBIANDIR v)))
        (sh_seq (sh_strict (sh_cmd run (words [''echo'', ''WARNING! A debian directory has been found! Please '',
             ''unmount/delete it.''])))
           (sh_exit 1))
        sh_skip,
      sh_strict (sh_cmd run (words [''mkdir'', DEBIANDIR v])),
      sh_strict (sh_or (sh_cmd run (words [''busybox'', ''mount'', DEVICE v, DEBIANDIR v])) sh_skip),
      sh_strict (sh_cmd run (words [''cd'', DEBIANDIR v])),
      sh_if (sh_test (\<lambda>w. ''x'' @ allfiles \<noteq> ''x*''))
        (sh_seq (sh_strict (sh_cmd run (words [''echo'',
             ''Debian partition not empty! Please delete all files manually.''])))
           (sh_exit 1))
        sh_skip,
      sh_strict (sh_cmd run (words [''tar'', ''xvf'', ''../debroot.tar'']))]"

text \<open>With \<open>set -e\<close> a failing \<open>shift\<close> is the end of the script in either kind of shell.\<close>

definition unpack_debian :: "'w runner \<Rightarrow> ('w \<Rightarrow> string \<Rightarrow> bool) \<Rightarrow> string list \<Rightarrow> 'w script" where
  "unpack_debian run is_dir argv = (case parse_options True argv of
       Inl s \<Rightarrow> sh_exit s | Inr v \<Rightarrow> unpack_debian_body run is_dir v)"

section \<open>\<open>ramdisk/init\<close>\<close>

definition init_commands :: "cmd list" where
  "init_commands =
     [words [''export'', ''PATH=/sbin''],
      words [''mount'', ''-t'', ''sysfs'', ''sysfs'', ''/sys''],
      words [''mount'', ''-t'', ''devtmpfs'', ''devtmpfs'', ''/dev''],
      words [''mount'', ''-t'', ''ext4'', ''/dev/mmcblk0p32'', ''/data''],
      Cmd [] [''mount'', ''-t'', ''ext4'', ''/dev/mmcblk1p2'', ''/root''] [Append ''/data/bananian.log''],
      Cmd [] [''mount'', ''-t'', ''devtmpfs'', ''devtmpfs'', ''/root/dev''] [Append ''/data/bananian.log''],
      Cmd [] [''mount'', ''-t'', ''sysfs'', ''sysfs'', ''/root/sys''] [Append ''/data/bananian.log''],
      Cmd [] [''mount'', ''-t'', ''procfs'', ''procfs'', ''/root/proc''] [Append ''/data/bananian.log''],
      Cmd [] [''echo'', ''Mounted root''] [Append ''/data/bananian.log'']]"

text \<open>
  \<open>export\<close> is a command of the shell that changes the environment of the commands behind it, as \<open>cd\<close>
  changes their directory. \<open>exec run-init\<close> ends the script with the status of the program that replaces
  it.
\<close>

definition ramdisk_init :: "'w runner \<Rightarrow> ('w \<Rightarrow> string \<Rightarrow> string list) \<Rightarrow> string list \<Rightarrow> 'w script" where
  "ramdisk_init run glob argv = sh_seq (sh_list (map (sh_cmd run) init_commands))
     (\<lambda>w. let (s, w) = run (words ([''run-init'', ''/root'', ''/sbin/init''] @
          concat (map (glob w) (concat (map field_split argv))))) w
        in (Exited s, w))"

section \<open>What the options do\<close>

lemmas option_defs = parse_options_def option_d_def option_p_def bind_vars_def shift_def arg1_def default_vars_def

text \<open>The argument of \<open>-d\<close> reaches the variable \<open>DEBIAN\<close> only.\<close>

lemma parse_options_d:
  assumes "as = [] \<or> hd as \<noteq> ''-d''"
  shows "parse_options e (''-d'' # dir # as) = bind_vars (parse_options e as) (\<lambda>v. Inr (v\<lparr>DEBIAN := dir\<rparr>))"
  using assms by (cases as; cases "tl as") (auto simp: option_defs split: list.splits)

lemma run_in_debian_body_DEBIAN: "run_in_debian_body run path (v\<lparr>DEBIAN := d\<rparr>) = run_in_debian_body run path v"
  by (simp add: run_in_debian_body_def)

lemma unpack_debian_body_DEBIAN: "unpack_debian_body run is_dir (v\<lparr>DEBIAN := d\<rparr>) = unpack_debian_body run is_dir v"
  by (simp add: unpack_debian_body_def)

lemma parse_options_plain:
  assumes "arg1 (default_vars as) \<noteq> ''-d''" and "arg1 (default_vars as) \<noteq> ''-p''"
  shows "parse_options e as = Inr (default_vars as)"
  using assms by (simp add: parse_options_def option_d_def option_p_def bind_vars_def)

section \<open>Properties\<close>

text \<open>
  C35. The option \<open>-d\<close> of \<open>run-in-debian.sh\<close> and \<open>unpack-debian.sh\<close> has no effect: the
  scripts do exactly what they do without the option and its argument.
\<close>

theorem option_d_ignored:
  assumes "as = [] \<or> hd as \<noteq> ''-d''"
  shows "run_in_debian run e path (''-d'' # dir # as) = run_in_debian run e path as \<and>
    unpack_debian run is_dir (''-d'' # dir # as) = unpack_debian run is_dir as"
  using parse_options_d [OF assms, of e dir] parse_options_d [OF assms, of True dir]
  by (cases "parse_options e as"; cases "parse_options True as") (simp_all add: run_in_debian_def unpack_debian_def bind_vars_def
      run_in_debian_body_DEBIAN unpack_debian_body_DEBIAN)

theorem option_d_ignored_witness:
  "run_in_debian (\<lambda>c w. (0, w)) True [] [''-d'', ''other'', ''ls''] =
     run_in_debian (\<lambda>c (w :: nat). (0, w)) True [] [''ls''] \<and>
    unpack_debian (\<lambda>c w. (0, w)) (\<lambda>w d. False) [''-d'', ''other'', ''ls''] =
     unpack_debian (\<lambda>c (w :: nat). (0, w)) (\<lambda>w d. False) [''ls'']"
  by (rule option_d_ignored) simp

text \<open>
  C23. Once its options are read, \<open>run-in-debian.sh\<close> always gets to the
  \<open>chroot\<close> and returns its status. Before it, it changes to \<open>/data\<close>, mounts the partition, mounts a
  \<open>devtmpfs\<close> on its \<open>dev\<close> and, exactly when that fails, binds \<open>/dev\<close> there, and binds the six other
  directories in their order; no other failure changes what is run.
\<close>

theorem run_in_debian_reaches_chroot:
  fixes w :: 'w
  assumes "parse_options e argv = Inr v"
  shows "let dir = DEBIANDIR v;
      first = [words [''cd'', ''/data''], words [''busybox'', ''mount'', DEVICE v, dir]];
      dev = words [''busybox'', ''mount'', ''-t'', ''devtmpfs'', ''devtmpfs'', dir @ ''/dev''];
      fallback = words [''mount'', ''-o'', ''bind'', ''/dev'', dir @ ''/dev''];
      binds = map (bind_mount dir) [''dev/pts'', ''proc'', ''sys'', ''data'', ''system'', ''sdcard''];
      tried = first @ [dev] @ (if fst (run dev (run_all run first w)) = 0 then [] else [fallback]) @ binds;
      last = chroot_cmd path dir (debian_command (args v))
    in run_in_debian (traced run) e path argv (w, []) =
      (Goes_On (fst (run last (run_all run tried w))), (run_all run (tried @ [last]) w, tried @ [last]))"
proof -
  let ?dev = "words [''busybox'', ''mount'', ''-t'', ''devtmpfs'', ''devtmpfs'', DEBIANDIR v @ ''/dev'']"
  let ?bind = "words [''mount'', ''-o'', ''bind'', ''/dev'', DEBIANDIR v @ ''/dev'']"
  let ?pre = "[words [''cd'', ''/data''], words [''busybox'', ''mount'', DEVICE v, DEBIANDIR v]]"
  let ?rest = "map (bind_mount (DEBIANDIR v)) bind_dirs @ [chroot_cmd path (DEBIANDIR v) (debian_command (args v))]"
  let ?w = "run_all run ?pre w"
  define mid where "mid = [?dev] @ (if fst (run ?dev ?w) = 0 then [] else [?bind])"
  have rest: "map (\<lambda>i. sh_cmd r (bind_mount (DEBIANDIR v) i)) bind_dirs @
      [sh_cmd r (chroot_cmd path (DEBIANDIR v) (debian_command (args v)))] = map (sh_cmd r) ?rest" for r :: "('w \<times> cmd list) runner"
    by simp
  have "run_in_debian (traced run) e path argv (w, []) =
      sh_list (map (sh_cmd (traced run)) ?rest) (run_all run (?pre @ mid) w, ?pre @ mid)"
    unfolding run_in_debian_def assms run_in_debian_body_def sum.case rest
    by (simp add: sh_list_Cons sh_seq_def sh_or_def mid_def)
  note this [unfolded sh_list_cmds_traced]
  then show ?thesis
    by (simp add: Let_def mid_def bind_dirs_def)
qed

theorem run_in_debian_reaches_chroot_witness:
  "run_in_debian (traced (\<lambda>c w. (1, Suc w))) True [] [] (0, []) =
      (Goes_On 1, (11, [words [''cd'', ''/data''], words [''busybox'', ''mount'', ''/dev/block/mmcblk1p2'', ''debian''],
         words [''busybox'', ''mount'', ''-t'', ''devtmpfs'', ''devtmpfs'', ''debian/dev''],
         words [''mount'', ''-o'', ''bind'', ''/dev'', ''debian/dev'']] @
       map (bind_mount ''debian'') [''dev/pts'', ''proc'', ''sys'', ''data'', ''system'', ''sdcard''] @
       [chroot_cmd [] ''debian'' ''/bin/bash'']))"
proof -
  have "parse_options True [] = Inr (default_vars [])"
    by (simp add: parse_options_plain arg1_def default_vars_def)
  from run_in_debian_reaches_chroot [OF this, where run = "\<lambda>c w. (1, Suc w)" and path = "[]" and w = 0]
  show ?thesis
    by (simp add: Let_def default_vars_def debian_command_def)
qed

text \<open>
  C24. If the Debian directory is already there, \<open>unpack-debian.sh\<close> fails and has
  run nothing but a change of directory and a message: nothing is created, mounted or unpacked.
\<close>

theorem unpack_debian_protects:
  assumes "is_dir (snd (run (words [''cd'', ''/data'']) w)) ''debian''"
  shows "\<exists>s w' tr. unpack_debian (traced run) (\<lambda>(w, _). is_dir w) argv (w, []) = (Exited s, (w', tr)) \<and>
    s \<noteq> 0 \<and> (\<forall>c \<in> set tr. hd (cmd_argv c) \<in> {''cd'', ''echo''})"
proof (cases "parse_options True argv")
  case (Inl s)
  then have "s = 1"
    by (auto simp: option_defs split: if_splits list.splits sum.splits)
  then show ?thesis
    using Inl by (simp add: unpack_debian_def sh_exit_def)
next
  case (Inr v)
  then have "DEBIANDIR v = ''debian''"
    by (auto simp: option_defs split: if_splits list.splits sum.splits)
  then show ?thesis
    using Inr assms
    by (auto simp: unpack_debian_def unpack_debian_body_def sh_list_Cons shell_defs traced_def split: prod.split)
qed

theorem unpack_debian_protects_witness:
  "\<exists>s w' tr. unpack_debian (traced (\<lambda>c w. (0, w))) (\<lambda>(w, _) d. True) [] (0 :: nat, []) = (Exited s, (w', tr)) \<and>
    s \<noteq> 0 \<and> (\<forall>c \<in> set tr. hd (cmd_argv c) \<in> {''cd'', ''echo''})"
  using unpack_debian_protects [of "\<lambda>w d. True" "\<lambda>c w. (0, w)" "0 :: nat" "[]"] by simp

text \<open>
  C34. If the directory is not there, \<open>unpack-debian.sh\<close> mounts the partition and
  unpacks into it without ever looking at what it holds: the test for an empty partition compares a
  pattern with itself. A failure of the mount does not stop it either.
\<close>

theorem unpack_debian_unchecked:
  assumes "parse_options True argv = Inr v"
    and "\<not> is_dir (snd (run (words [''cd'', ''/data'']) w)) (DEBIANDIR v)"
    and "\<And>c w. hd (cmd_argv c) \<noteq> ''busybox'' \<Longrightarrow> fst (run c w) = 0"
  shows "\<exists>w'. unpack_debian (traced run) (\<lambda>(w, _). is_dir w) argv (w, []) = (Goes_On 0, (w',
    [words [''cd'', ''/data''], words [''mkdir'', DEBIANDIR v],
     words [''busybox'', ''mount'', DEVICE v, DEBIANDIR v], words [''cd'', DEBIANDIR v],
     words [''tar'', ''xvf'', ''../debroot.tar'']]))"
  using assms
  by (simp add: unpack_debian_def unpack_debian_body_def sh_list_Cons sh_seq_def sh_if_def sh_test_def
      sh_strict_def sh_or_def sh_skip_def allfiles_def)

theorem unpack_debian_unchecked_witness:
  "\<exists>w'. unpack_debian (traced (\<lambda>c w. (if hd (cmd_argv c) = ''busybox'' then 1 else 0, w))) (\<lambda>(w, _) d. False)
      [] (0 :: nat, []) = (Goes_On 0, (w',
    [words [''cd'', ''/data''], words [''mkdir'', ''debian''],
     words [''busybox'', ''mount'', ''/dev/block/mmcblk1p2'', ''debian''], words [''cd'', ''debian''],
     words [''tar'', ''xvf'', ''../debroot.tar'']]))"
proof -
  have "parse_options True [] = Inr (default_vars [])"
    by (simp add: parse_options_plain arg1_def default_vars_def)
  from unpack_debian_unchecked [OF this, of "\<lambda>w d. False"
      "\<lambda>c w. (if hd (cmd_argv c) = ''busybox'' then 1 else 0, w)" "0 :: nat"]
  show ?thesis by (simp add: default_vars_def)
qed

end
