(* ===== verification/Inst_Host.thy ===== *)
theory Inst_Host
  imports Inst_Shell
begin

text \<open>
  The scripts that run on the machine that builds the image: \<open>scripts/check\<close>, \<open>scripts/qemubootstrap\<close>
  and recipes of the \<open>Makefile\<close>. What is read from the world besides the status of commands is a
  parameter: whether a directory or file exists, the names a pattern expands to, the output of
  \<open>id -u\<close>, and which targets \<open>make\<close> finds out of date. Signals are not modelled: of the traps of
  \<open>scripts/qemubootstrap\<close> there is the one for the end of the script.
\<close>

section \<open>\<open>scripts/check\<close>\<close>

definition missing :: "'w runner \<Rightarrow> string \<Rightarrow> string \<Rightarrow> 'w script" where
  "missing run prog pkg = sh_list
     [sh_cmd run (Cmd [] [''echo'', ''Missing program '' @ prog @ ''.''] [Out_Err]),
      sh_if (sh_test (\<lambda>w. pkg \<noteq> []))
        (sh_cmd run (Cmd [] [''echo'', ''Please install '' @ pkg @ ''.''] [Out_Err])) sh_skip,
      sh_exit 1]"

definition which_or_missing :: "'w runner \<Rightarrow> string \<Rightarrow> 'w script" where
  "which_or_missing run prog = sh_or (sh_cmd run (words [''which'', prog])) (missing run prog [])"

definition dep_programs :: "string list" where
  "dep_programs = [''sed'', ''abootimg'', ''tar'', ''debootstrap'']"

definition deps :: "'w runner \<Rightarrow> 'w script" where
  "deps run = sh_list (map (which_or_missing run) dep_programs)"

definition gcc :: "'w runner \<Rightarrow> 'w script" where
  "gcc run = sh_list
     [sh_cmd run (Cmd [] [''cat''] [Here ''int main() {}'', To ''test-gcc.c'']),
      sh_if (sh_cmd run (Cmd [] [''arm-linux-gnueabihf-gcc'', ''test-gcc.c'', ''-o'', ''/dev/null'']
               [To ''/dev/null'', Err_Out]))
        (sh_seq (sh_cmd run (words [''rm'', ''test-gcc.c''])) (sh_exit 0)) sh_skip,
      sh_cmd run (words [''rm'', ''test-gcc.c'']),
      sh_cmd run (words [''echo'', ''Could not find a compiler arm-linux-gnueabihf-gcc.'']),
      sh_exit 1]"

definition root :: "'w runner \<Rightarrow> ('w \<Rightarrow> string) \<Rightarrow> 'w script" where
  "root run id_u = sh_if (sh_test (\<lambda>w. ''x'' @ id_u w \<noteq> ''x0''))
     (sh_seq (sh_cmd run (words [''echo'', ''You are not running as root.''])) (sh_exit 1)) sh_skip"

text \<open>The loop that collects the packages without a directory, and an unquoted word list.\<close>

fun collect_prebuilt :: "(string \<Rightarrow> bool) \<Rightarrow> string \<Rightarrow> string list \<Rightarrow> string" where
  "collect_prebuilt is_dir prebuilt [] = prebuilt"
| "collect_prebuilt is_dir prebuilt (pkg # pkgs) =
     collect_prebuilt is_dir (if \<not> is_dir pkg then prebuilt @ '' '' @ pkg else prebuilt) pkgs"

definition split_words :: "(string \<Rightarrow> string list) \<Rightarrow> string list \<Rightarrow> string list" where
  "split_words glob ws = concat (map glob (concat (map field_split ws)))"

definition package_arch :: "string \<Rightarrow> string" where
  "package_arch pkg = (if pkg = ''device-startup'' then ''all'' else ''armhf'')"

definition package_url :: "string \<Rightarrow> string \<Rightarrow> string" where
  "package_url version pkg = ''https://affenull2345.gitlab.io/bananian/packages-latest/'' @ pkg @ ''_'' @
     version @ ''_'' @ package_arch pkg @ ''.deb''"

definition fetch :: "string \<Rightarrow> string \<Rightarrow> cmd" where
  "fetch version pkg = words [''wget'', ''-c'', package_url version pkg]"

definition fetch_packages ::
    "'w runner \<Rightarrow> ('w \<Rightarrow> string \<Rightarrow> string list) \<Rightarrow> string \<Rightarrow> string \<Rightarrow> 'w script" where
  "fetch_packages run glob version prebuilt = sh_seq (which_or_missing run ''wget'')
     (\<lambda>w. sh_list (map (\<lambda>pkg. sh_cmd run (fetch version pkg)) (split_words (glob w) [prebuilt])) w)"

definition packages :: "'w runner \<Rightarrow> ('w \<Rightarrow> string \<Rightarrow> bool) \<Rightarrow> ('w \<Rightarrow> string \<Rightarrow> string list) \<Rightarrow>
    string \<Rightarrow> string \<Rightarrow> string list \<Rightarrow> 'w script" where
  "packages run is_dir glob version prebuilt pkgs =
     sh_if (sh_cmd run (Cmd [] [''which'', ''debuild''] [To ''/dev/null'', Err_Out]))
       (\<lambda>w. let prebuilt = collect_prebuilt (is_dir w) prebuilt (split_words (glob w) pkgs) in
          sh_if (sh_test (\<lambda>w. prebuilt = [])) (sh_exit 0)
            (sh_list
               [sh_cmd run (words [''echo'', ''The following packages will be downloaded as binaries:'']),
                \<lambda>w. sh_cmd run (words (''echo'' # split_words (glob w) [prebuilt])) w,
                fetch_packages run glob version prebuilt]) w)
       (sh_list
          [sh_cmd run (words [''echo'', ''Program debuild is missing. Packages will be downloaded'',
             ''as binaries from the Internet.'']),
           fetch_packages run glob version (unwords pkgs)])"

text \<open>The last line of the script runs its arguments, a function of the script or a command.\<close>

definition check :: "'w runner \<Rightarrow> ('w \<Rightarrow> string \<Rightarrow> bool) \<Rightarrow> ('w \<Rightarrow> string \<Rightarrow> string list) \<Rightarrow> ('w \<Rightarrow> string) \<Rightarrow>
    string \<Rightarrow> string \<Rightarrow> string list \<Rightarrow> 'w script" where
  "check run is_dir glob id_u version prebuilt argv w = (case split_words (glob w) argv of
       [] \<Rightarrow> sh_skip w
     | f # as \<Rightarrow>
         if f = ''missing'' then
           missing run (case as of [] \<Rightarrow> [] | a # _ \<Rightarrow> a) (case as of _ # b # _ \<Rightarrow> b | _ \<Rightarrow> []) w
         else if f = ''deps'' then deps run w
         else if f = ''gcc'' then gcc run w
         else if f = ''root'' then root run id_u w
         else if f = ''packages'' then packages run is_dir glob version prebuilt as w
         else sh_cmd run (words (f # as)) w)"

section \<open>\<open>scripts/qemubootstrap\<close>\<close>

definition host_second_stage :: string where
  "host_second_stage = ''debootstrap/debootstrap --second-stage; cd /var/cache && dpkg -i *.deb && rm -f *.deb && adduser --gecos \"Bananian User\" user && adduser user sudo''"

definition qemu_commands :: "cmd list" where
  "qemu_commands =
     [words [''mount'', ''-o'', ''bind'', ''/dev'', ''debroot/dev''],
      words [''mount'', ''-o'', ''bind'', ''/proc'', ''debroot/proc''],
      words [''mount'', ''-o'', ''bind'', ''/sys'', ''debroot/sys''],
      words [''chroot'', ''debroot'', ''/bin/sh'', ''-c'', host_second_stage]]"

text \<open>The command of \<open>trap ... EXIT\<close> runs at the end and leaves the status as it is.\<close>

definition with_exit_trap :: "'w runner \<Rightarrow> cmd \<Rightarrow> 'w script \<Rightarrow> 'w script" where
  "with_exit_trap run c p w = (let (r, w) = p w in (Exited (status r), snd (run c w)))"

definition umount_cmd :: cmd where
  "umount_cmd = words [''umount'', ''debroot/dev'', ''debroot/proc'', ''debroot/sys'']"

definition qemubootstrap :: "'w runner \<Rightarrow> ('w \<Rightarrow> string \<Rightarrow> bool) \<Rightarrow> ('w \<Rightarrow> string \<Rightarrow> string list) \<Rightarrow> ('w \<Rightarrow> string) \<Rightarrow>
    string \<Rightarrow> string \<Rightarrow> 'w script" where
  "qemubootstrap run is_dir glob id_u version prebuilt = sh_seq
     (sh_or (sh_cmd run (words [''which'', ''qemu-arm-static'']))
        (sh_process (check run is_dir glob id_u version prebuilt
           [''missing'', ''qemu-arm-static'', ''qemu-user-static''])))
     (with_exit_trap run umount_cmd (sh_list (map (sh_cmd run) qemu_commands)))"

section \<open>Recipes of the \<open>Makefile\<close>\<close>

text \<open>
  \<open>make\<close> runs the lines of a recipe in order and gives up at the first that fails, with the status 2
  whatever the status of the line.
\<close>

definition recipe_line :: "'w script \<Rightarrow> 'w script" where
  "recipe_line l w = (let (r, w) = l w in (if status r = 0 then Goes_On 0 else Exited 2, w))"

fun recipe :: "'w script list \<Rightarrow> 'w script" where
  "recipe [] = sh_skip"
| "recipe (l # ls) = sh_seq (recipe_line l) (recipe ls)"

definition default_packages :: "string \<Rightarrow> string" where
  "default_packages extra = ''openssh-server,vim,wpasupplicant,man-db,busybox,sudo,'' @ extra"

text \<open>The make variable \<open>MIRROR\<close> is split into words by the shell.\<close>

definition make_debroot :: "'w runner \<Rightarrow> string \<Rightarrow> string list \<Rightarrow> 'w script" where
  "make_debroot run extra mirror = recipe
     [sh_cmd run (words [''rm'', ''-rf'', ''debroot'']),
      sh_or (sh_cmd run (words ([''debootstrap'', ''--include='' @ default_packages extra, ''--arch'', ''armhf'',
          ''--foreign'', ''buster'', ''debroot/''] @ mirror)))
        (sh_cmd run (words [''rm'', ''-rf'', ''debroot'']))]"

definition wpa_conf :: string where
  "wpa_conf = ''debroot/etc/wpa_supplicant.conf''"

definition echo_conf :: "string \<Rightarrow> cmd" where
  "echo_conf line = Cmd [] [''echo'', line] [Append wpa_conf]"

definition make_copy_files :: "'w runner \<Rightarrow> ('w \<Rightarrow> string \<Rightarrow> bool) \<Rightarrow> string list \<Rightarrow> 'w script" where
  "make_copy_files run is_file debs = recipe
     [sh_and (sh_test (\<lambda>w. \<not> is_file w wpa_conf))
        (sh_and (sh_cmd run (echo_conf ''network={''))
          (sh_and (sh_cmd run (echo_conf ''    ssid=\"SSID\"''))
            (sh_and (sh_cmd run (echo_conf ''    psk=\"PSK\"''))
              (sh_cmd run (echo_conf ''}''))))),
      sh_cmd run (words [''editor'', wpa_conf]),
      sh_cmd run (words [''mkdir'', ''-p'', ''debroot/lib/modules/'']),
      sh_cmd run (words [''rm'', ''-rf'', ''debroot/lib/modules/3.10.49-bananian+'']),
      sh_cmd run (words [''cp'', ''-rf'', ''modules'', ''debroot/lib/modules/3.10.49-bananian+'']),
      sh_cmd run (words ([''cp'', ''-f''] @ debs @ [''debroot/var/cache'']))]"

definition make_debroot_tar :: "'w runner \<Rightarrow> ('w \<Rightarrow> 'w \<Rightarrow> 'w) \<Rightarrow> ('w \<Rightarrow> string \<Rightarrow> string list) \<Rightarrow> 'w script" where
  "make_debroot_tar run at_dir glob = recipe
     [sh_cmd run (words [''rm'', ''-f'', ''debroot.tar'']),
      sh_subshell at_dir (sh_seq (sh_cmd run (words [''cd'', ''debroot'']))
        (\<lambda>w. sh_cmd run (words ([''tar'', ''cvf'', ''../debroot.tar'', ''--exclude=.gitignore''] @ glob w ''*'')) w)),
      sh_cmd run (words [''echo'', ''Now you can execute the commands from README.md.''])]"

definition make_check :: "'w runner \<Rightarrow> ('w \<Rightarrow> string \<Rightarrow> bool) \<Rightarrow> ('w \<Rightarrow> string \<Rightarrow> string list) \<Rightarrow> ('w \<Rightarrow> string) \<Rightarrow>
    string \<Rightarrow> string \<Rightarrow> 'w script" where
  "make_check run is_dir glob id_u version prebuilt = recipe
     (map (check run is_dir glob id_u version prebuilt)
        [[''packages'', ''bananui-base'', ''device-startup''], [''root''], [''deps''], [''gcc'']])"

text \<open>\<open>package-%\<close> and the two packages; \<open>debuild\<close> runs in the directory of the package.\<close>

definition make_package :: "'w runner \<Rightarrow> ('w \<Rightarrow> 'w \<Rightarrow> 'w) \<Rightarrow> string \<Rightarrow> 'w script" where
  "make_package run at_dir dir = recipe [sh_subshell at_dir (sh_list
     [sh_cmd run (words [''cd'', dir]),
      sh_cmd run (words [''debuild'', ''--no-lintian'', ''-us'', ''-uc'', ''-aarmhf''])])]"

definition make_bananui_base :: "'w runner \<Rightarrow> ('w \<Rightarrow> 'w \<Rightarrow> 'w) \<Rightarrow> string \<Rightarrow> 'w script" where
  "make_bananui_base run at_dir version = sh_seq
     (recipe [sh_cmd run (Cmd [] [''echo'', version] [To ''bananui-base/.version''])])
     (make_package run at_dir ''bananui-base'')"

definition make_initrd :: "'w runner \<Rightarrow> 'w script" where
  "make_initrd run = recipe
     [sh_cmd run (words [''rm'', ''-f'', ''initrd.img'']),
      sh_cmd run (words [''scripts/pack-initrd'', ''initrd.img'', ''ramdisk''])]"

definition make_boot_img :: "'w runner \<Rightarrow> 'w script" where
  "make_boot_img run = recipe [sh_cmd run (words
     [''abootimg'', ''--create'', ''boot.img'', ''-f'', ''bootimg.cfg'', ''-k'', ''zImage'', ''-r'', ''initrd.img''])]"

definition make_qemu_install :: "'w runner \<Rightarrow> ('w \<Rightarrow> string \<Rightarrow> bool) \<Rightarrow> ('w \<Rightarrow> string \<Rightarrow> string list) \<Rightarrow> ('w \<Rightarrow> string) \<Rightarrow>
    string \<Rightarrow> string \<Rightarrow> 'w script" where
  "make_qemu_install run is_dir glob id_u version prebuilt =
     recipe [qemubootstrap run is_dir glob id_u version prebuilt]"

text \<open>The files of the repository that \<open>on-device-scripts/*.sh\<close> stands for.\<close>

definition on_device_scripts :: "string list" where
  "on_device_scripts = [''on-device-scripts/bootstrap-debian.sh'', ''on-device-scripts/install-bootimage.sh'',
     ''on-device-scripts/run-in-debian.sh'', ''on-device-scripts/unpack-debian.sh'']"

definition install_commands :: "bool \<Rightarrow> cmd list" where
  "install_commands use_qemu =
     [words [''adb'', ''wait-for-device''],
      words [''adb'', ''push'', ''debroot.tar'', ''/data''],
      words [''adb'', ''push'', ''boot.img'', ''/data''],
      words ([''adb'', ''push''] @ on_device_scripts @ [''/data'']),
      words [''adb'', ''shell'', ''/data/install-bootimage.sh''],
      words [''adb'', ''shell'', ''/data/unpack-debian.sh'']] @
     (if use_qemu then [] else [words [''adb'', ''shell'', ''/data/bootstrap-debian.sh'']]) @
     [words [''adb'', ''shell'', ''rm'', ''/data/install-bootimage.sh'', ''/data/unpack-debian.sh'',
        ''/data/bootstrap-debian.sh'']]"

text \<open>
  The prerequisites of \<open>all\<close>, in the order in which \<open>make\<close> comes to them: \<open>stale w t\<close> says that it
  finds the target \<open>t\<close> missing or out of date.
\<close>

definition remake :: "('w \<Rightarrow> string \<Rightarrow> bool) \<Rightarrow> string \<Rightarrow> 'w script \<Rightarrow> 'w script" where
  "remake stale t r w = (if stale w t then r w else sh_skip w)"

definition bananui_deb :: "string \<Rightarrow> string" where
  "bananui_deb version = ''bananui-base_'' @ version @ ''_armhf.deb''"

definition startup_deb :: "string \<Rightarrow> string" where
  "startup_deb version = ''device-startup_'' @ version @ ''_all.deb''"

definition make_all :: "'w runner \<Rightarrow> ('w \<Rightarrow> 'w \<Rightarrow> 'w) \<Rightarrow> ('w \<Rightarrow> string \<Rightarrow> bool) \<Rightarrow> ('w \<Rightarrow> string \<Rightarrow> bool) \<Rightarrow>
    ('w \<Rightarrow> string \<Rightarrow> bool) \<Rightarrow> ('w \<Rightarrow> string \<Rightarrow> string list) \<Rightarrow> ('w \<Rightarrow> string) \<Rightarrow> string \<Rightarrow> string \<Rightarrow> string \<Rightarrow>
    string list \<Rightarrow> bool \<Rightarrow> 'w script" where
  "make_all run at_dir stale is_dir is_file glob id_u version prebuilt extra mirror use_qemu = sh_list (
     [remake stale ''check'' (make_check run is_dir glob id_u version prebuilt),
      remake stale ''initrd.img'' (make_initrd run),
      remake stale ''boot.img'' (make_boot_img run),
      remake stale ''debroot'' (make_debroot run extra mirror),
      remake stale (bananui_deb version) (make_bananui_base run at_dir version),
      remake stale (startup_deb version) (make_package run at_dir ''device-startup''),
      remake stale ''copy-files'' (make_copy_files run is_file [bananui_deb version, startup_deb version])] @
     (if use_qemu then
        [remake stale ''qemu-install'' (make_qemu_install run is_dir glob id_u version prebuilt)] else []) @
     [remake stale ''debroot.tar'' (make_debroot_tar run at_dir glob)])"

text \<open>\<open>install-to-device\<close> behind its prerequisite \<open>all\<close>.\<close>

definition make_install_to_device :: "'w runner \<Rightarrow> 'w script \<Rightarrow> bool \<Rightarrow> 'w script" where
  "make_install_to_device run all_built use_qemu =
     sh_seq all_built (recipe (map (sh_cmd run) (install_commands use_qemu)))"

definition make_clean :: "'w runner \<Rightarrow> ('w \<Rightarrow> string \<Rightarrow> string list) \<Rightarrow> 'w script" where
  "make_clean run glob = recipe [\<lambda>w. sh_cmd run (words ([''rm'', ''-rf''] @ glob w ''*.deb'' @
     [''initrd.img'', ''boot.img'', ''debroot'', ''debroot.tar''])) w]"

section \<open>Lemmas\<close>

text \<open>The commands of a list that are run when the first failure is the end.\<close>

fun until_failure :: "'w runner \<Rightarrow> cmd list \<Rightarrow> 'w \<Rightarrow> cmd list" where
  "until_failure run [] w = []"
| "until_failure run (c # cs) w =
     c # (if fst (run c w) = 0 then until_failure run cs (snd (run c w)) else [])"

text \<open>Whether none of them fails.\<close>

fun all_succeed :: "'w runner \<Rightarrow> cmd list \<Rightarrow> 'w \<Rightarrow> bool" where
  "all_succeed run [] w \<longleftrightarrow> True"
| "all_succeed run (c # cs) w \<longleftrightarrow> fst (run c w) = 0 \<and> all_succeed run cs (snd (run c w))"

lemma recipe_cmds:
  "recipe (map (sh_cmd (traced run)) cs) (w, tr) =
    (if all_succeed run cs w then Goes_On 0 else Exited 2,
     (run_all run (until_failure run cs w) w, tr @ until_failure run cs w))"
  by (induction cs arbitrary: w tr) (simp_all add: sh_seq_def recipe_line_def sh_skip_def)

lemma until_failure_prefix: "\<exists>ds. cs = until_failure run cs w @ ds"
  by (induction cs arbitrary: w) auto

lemma until_failure_all: "all_succeed run cs w \<Longrightarrow> until_failure run cs w = cs"
  by (induction cs arbitrary: w) auto

lemma recipe_first_fails:
  assumes "l w = (r, w')" and "status r \<noteq> 0"
  shows "recipe (l # ls) w = (Exited 2, w')"
  using assms by (simp add: sh_seq_def recipe_line_def)

lemma recipe_first_succeeds:
  assumes "l w = (r, w')" and "status r = 0"
  shows "recipe (l # ls) w = recipe ls w'"
  using assms by (simp add: sh_seq_def recipe_line_def)

lemma sh_or_recovers:
  assumes "\<And>w. fst (q w) = Goes_On 0"
  shows "fst (sh_or (sh_cmd run c) q w) = Goes_On 0"
  using assms by (simp add: sh_or_def sh_cmd_simp)

lemma recipe_two_succeed:
  assumes "\<And>w. fst (k w) = Goes_On 0" and "\<And>w. fst (l w) = Goes_On 0"
  shows "fst (recipe [k, l] w) = Goes_On 0"
proof -
  obtain w1 where k: "k w = (Goes_On 0, w1)"
    using assms(1) by (metis prod.collapse)
  obtain w2 where l: "l w1 = (Goes_On 0, w2)"
    using assms(2) by (metis prod.collapse)
  show ?thesis
    using k l by (simp add: sh_seq_def recipe_line_def sh_skip_def)
qed

lemma missing_exits: "fst (missing run prog pkg w) = Exited 1"
  by (simp add: missing_def sh_seq_def sh_if_def sh_test_def sh_skip_def sh_exit_def sh_cmd_simp)

lemma which_or_missing_cases:
  "which_or_missing run prog w =
    (if fst (run (words [''which'', prog]) w) = 0 then (Goes_On 0, snd (run (words [''which'', prog]) w))
     else missing run prog [] (snd (run (words [''which'', prog]) w)))"
  by (simp add: which_or_missing_def sh_or_def sh_cmd_simp)

lemma deps_programs:
  assumes "\<And>p w. fst (run (words [''which'', p]) w) = (if installed p then 0 else 1)"
  shows "sh_list (map (which_or_missing run) ps) w = (r, w') \<Longrightarrow>
    r = (if list_all installed ps then Goes_On 0 else Exited 1)"
proof (induction ps arbitrary: w)
  case Nil
  then show ?case
    by (simp add: sh_skip_def)
next
  case (Cons p ps)
  show ?case
  proof (cases "installed p")
    case True
    then show ?thesis
      using Cons assms [of p w] by (cases "ps = []") (auto simp: sh_list_Cons sh_seq_def which_or_missing_cases)
  next
    case False
    then show ?thesis
      using Cons.prems assms [of p w] missing_exits [of run p "[]" "snd (run (words [''which'', p]) w)"]
      by (cases "ps = []") (auto simp: sh_list_Cons sh_seq_def which_or_missing_cases split: prod.splits)
  qed
qed

section \<open>Properties\<close>

text \<open>
  \<open>scripts/check deps\<close> succeeds exactly if every program it asks for is
  installed, and exits with status 1 otherwise.
\<close>

theorem deps_checks_programs:
  assumes "\<And>p w. fst (run (words [''which'', p]) w) = (if installed p then 0 else 1)"
  shows "fst (deps run w) = (if \<forall>p \<in> {''sed'', ''abootimg'', ''tar'', ''debootstrap''}. installed p then Goes_On 0 else Exited 1)"
  using deps_programs [of run installed dep_programs w "fst (deps run w)" "snd (deps run w)"] assms
  by (simp add: deps_def dep_programs_def)

theorem deps_checks_programs_witness:
  "fst (deps (\<lambda>c w. (if cmd_argv c = [''which'', ''tar''] then 1 else 0, w)) (0 :: nat)) = Exited 1"
  using deps_checks_programs [of "\<lambda>c w. (if cmd_argv c = [''which'', ''tar''] then 1 else 0, w)"
      "\<lambda>p. p \<noteq> ''tar''" "0 :: nat"] by simp

text \<open>
  Without \<open>debuild\<close>, \<open>scripts/check packages\<close> downloads every package, and its
  status is that of the last download alone: a download that fails before it is not noticed.
\<close>

theorem packages_last_status:
  assumes "list_all plain_word pkgs" and "\<And>w s. glob w s = [s]" and "pkgs \<noteq> []"
    and "\<And>w. fst (run (Cmd [] [''which'', ''debuild''] [To ''/dev/null'', Err_Out]) w) \<noteq> 0"
    and "\<And>w. fst (run (words [''which'', ''wget'']) w) = 0"
  shows "\<exists>w1. packages run is_dir glob version prebuilt pkgs w =
    (Goes_On (fst (run (fetch version (last pkgs)) (run_all run (map (fetch version) (butlast pkgs)) w1))),
     run_all run (map (fetch version) pkgs) w1)"
proof -
  have "split_words (glob w) [unwords pkgs] = pkgs" for w
    by (simp add: split_words_def assms(1,2) field_split_unwords concat_map_single)
  moreover have "sh_list (map (\<lambda>pkg. sh_cmd run (fetch version pkg)) pkgs) w =
      (Goes_On (fst (run (fetch version (last pkgs)) (run_all run (map (fetch version) (butlast pkgs)) w))),
       run_all run (map (fetch version) pkgs) w)" for w
    using sh_list_cmds [of "map (fetch version) pkgs" run w] assms(3)
    by (simp add: comp_def last_map map_butlast)
  moreover obtain n w0 where "run (Cmd [] [''which'', ''debuild''] [To ''/dev/null'', Err_Out]) w = (Suc n, w0)"
    using assms(4) [of w] by (metis not0_implies_Suc prod.collapse)
  ultimately show ?thesis
    using assms(5)
    by (auto simp: packages_def fetch_packages_def sh_if_def sh_seq_def sh_cmd_simp which_or_missing_cases)
qed

theorem packages_last_status_witness:
  "\<exists>w1. packages (\<lambda>c w. (if hd (tl (cmd_argv c)) = ''debuild'' then 1 else 0, w)) (\<lambda>w d. False) (\<lambda>w s. [s])
      ''1.0'' [] [''bananui-base'', ''device-startup''] (0 :: nat) =
    (Goes_On 0, run_all (\<lambda>c w. (if hd (tl (cmd_argv c)) = ''debuild'' then 1 else 0, w))
      (map (fetch ''1.0'') [''bananui-base'', ''device-startup'']) w1)"
  using packages_last_status [of "[''bananui-base'', ''device-startup'']" "\<lambda>w s. [s]"
      "\<lambda>c w. (if hd (tl (cmd_argv c)) = ''debuild'' then 1 else 0, w)" "\<lambda>w d. False" "''1.0''" "[]" "0 :: nat"]
  by (simp add: plain_word_def is_ifs_def fetch_def)

text \<open>
  C36. \<open>scripts/qemubootstrap\<close> goes on without \<open>qemu-arm-static\<close>: the message
  about the missing program comes from another process, whose exit does not stop the script, so that the
  mounts, the \<open>chroot\<close> and the \<open>umount\<close> are run in every case.
\<close>

theorem qemubootstrap_continues:
  "\<exists>s w' tr. qemubootstrap (traced run) is_dir glob id_u version prebuilt (w, []) =
    (Exited s, (w', tr @ qemu_commands @ [umount_cmd]))"
proof -
  obtain r' w' tr' where "check (traced run) is_dir glob id_u version prebuilt
      [''missing'', ''qemu-arm-static'', ''qemu-user-static'']
      (snd (run (words [''which'', ''qemu-arm-static'']) w), [words [''which'', ''qemu-arm-static'']]) = (r', w', tr')"
    by (rule prod_cases3)
  then obtain r w1 tr where first: "sh_or (sh_cmd (traced run) (words [''which'', ''qemu-arm-static'']))
        (sh_process (check (traced run) is_dir glob id_u version prebuilt
           [''missing'', ''qemu-arm-static'', ''qemu-user-static''])) (w, []) = (Goes_On r, (w1, tr))"
    by (cases "fst (run (words [''which'', ''qemu-arm-static'']) w) = 0")
      (auto simp: sh_or_def sh_process_def)
  have "sh_list (map (sh_cmd (traced run)) qemu_commands) (w1, tr) =
      (Goes_On (fst (run (last qemu_commands) (run_all run (butlast qemu_commands) w1))),
       (run_all run qemu_commands w1, tr @ qemu_commands))"
    using sh_list_cmds_traced [of run "butlast qemu_commands" "last qemu_commands" w1 tr]
    by (simp add: qemu_commands_def)
  then show ?thesis
    using first by (simp add: qemubootstrap_def sh_seq_def with_exit_trap_def traced_def split: prod.split)
qed

text \<open>
  C37. The recipe of \<open>copy-files\<close> fails whenever the configuration of the wireless
  network is already there, having done nothing; the recipe of \<open>debroot\<close> succeeds when \<open>debootstrap\<close>
  fails, as long as the removal of the tree succeeds.
\<close>

theorem recipes_and_failure:
  assumes "is_file w wpa_conf" and "\<And>c w. hd (cmd_argv c) = ''rm'' \<Longrightarrow> fst (run c w) = 0"
  shows "make_copy_files run is_file debs w = (Exited 2, w) \<and> fst (make_debroot run extra mirror w) = Goes_On 0"
proof
  show "make_copy_files run is_file debs w = (Exited 2, w)"
    unfolding make_copy_files_def
    by (rule recipe_first_fails [where r = "Goes_On 1"]) (use assms(1) in \<open>simp_all add: sh_and_def sh_test_def\<close>)
  have rm: "fst (sh_cmd run (words [''rm'', ''-rf'', ''debroot'']) w) = Goes_On 0" for w
    using assms(2) by (simp add: sh_cmd_simp)
  show "fst (make_debroot run extra mirror w) = Goes_On 0"
    unfolding make_debroot_def by (intro recipe_two_succeed sh_or_recovers rm)
qed

theorem recipes_and_failure_witness:
  "make_copy_files (\<lambda>c w. (0, w)) (\<lambda>w f. True) [] (0 :: nat) = (Exited 2, 0) \<and>
    fst (make_debroot (\<lambda>c w. (if hd (cmd_argv c) = ''debootstrap'' then 1 else 0, w)) [] [] (0 :: nat)) = Goes_On 0"
  using recipes_and_failure [of "\<lambda>w f. True" "0 :: nat" "\<lambda>c w. (0, w)" "[]"]
    recipes_and_failure [of "\<lambda>w f. True" "0 :: nat" "\<lambda>c w. (if hd (cmd_argv c) = ''debootstrap'' then 1 else 0, w)" _ "[]" "[]"]
  by simp

lemma after_prerequisite:
  assumes "p (w, []) = (r, (w1, tr1))"
  shows "(case r of
      Exited s \<Rightarrow> sh_seq p (recipe (map (sh_cmd (traced run)) cs)) (w, []) = (Exited s, (w1, tr1))
    | Goes_On _ \<Rightarrow> (\<exists>ds es. cs = ds @ es \<and>
        sh_seq p (recipe (map (sh_cmd (traced run)) cs)) (w, []) =
          (if all_succeed run (ds @ es) w1 then Goes_On 0 else Exited 2, (run_all run ds w1, tr1 @ ds)) \<and>
        (all_succeed run (ds @ es) w1 \<longrightarrow> es = [])))"
proof (cases r)
  case (Goes_On s)
  define ds where "ds = until_failure run cs w1"
  obtain es where es: "cs = ds @ es"
    using until_failure_prefix [of cs run w1] unfolding ds_def by (elim exE)
  have run_eq: "sh_seq p (recipe (map (sh_cmd (traced run)) cs)) (w, []) =
      (if all_succeed run cs w1 then Goes_On 0 else Exited 2, (run_all run ds w1, tr1 @ ds))"
    using assms Goes_On by (simp add: sh_seq_def recipe_cmds ds_def)
  have "all_succeed run cs w1 \<Longrightarrow> ds = cs"
    unfolding ds_def by (rule until_failure_all)
  then have none: "all_succeed run cs w1 \<longrightarrow> es = []"
    using es by (metis self_append_conv)
  show ?thesis
    unfolding Goes_On outcome.case
    by (rule exI [of _ ds], rule exI [of _ es]) (use none in \<open>simp add: es [symmetric] run_eq\<close>)
qed (use assms in \<open>simp add: sh_seq_def\<close>)

lemma install_commands_list:
  "install_commands use_qemu =
        [words [''adb'', ''wait-for-device''],
         words [''adb'', ''push'', ''debroot.tar'', ''/data''],
         words [''adb'', ''push'', ''boot.img'', ''/data''],
         words [''adb'', ''push'', ''on-device-scripts/bootstrap-debian.sh'',
           ''on-device-scripts/install-bootimage.sh'', ''on-device-scripts/run-in-debian.sh'',
           ''on-device-scripts/unpack-debian.sh'', ''/data''],
         words [''adb'', ''shell'', ''/data/install-bootimage.sh''],
         words [''adb'', ''shell'', ''/data/unpack-debian.sh'']] @
        (if use_qemu then [] else [words [''adb'', ''shell'', ''/data/bootstrap-debian.sh'']]) @
        [words [''adb'', ''shell'', ''rm'', ''/data/install-bootimage.sh'', ''/data/unpack-debian.sh'',
          ''/data/bootstrap-debian.sh'']]"
  by (simp only: install_commands_def on_device_scripts_def append.simps)

text \<open>
  \<open>make install-to-device\<close> does not touch the phone unless everything was
  built. Then it runs its commands in order up to the first that fails, and exits with status 2 if one
  did. In particular the recipe removes the scripts from the phone only when all else has succeeded.
\<close>

theorem install_stops_at_failure:
  assumes "all_built (w, []) = (r, (w1, tr1))"
  shows "(case r of
      Exited s \<Rightarrow> make_install_to_device (traced run) all_built use_qemu (w, []) = (Exited s, (w1, tr1))
    | Goes_On _ \<Rightarrow> (\<exists>ds es.
        [words [''adb'', ''wait-for-device''],
         words [''adb'', ''push'', ''debroot.tar'', ''/data''],
         words [''adb'', ''push'', ''boot.img'', ''/data''],
         words [''adb'', ''push'', ''on-device-scripts/bootstrap-debian.sh'',
           ''on-device-scripts/install-bootimage.sh'', ''on-device-scripts/run-in-debian.sh'',
           ''on-device-scripts/unpack-debian.sh'', ''/data''],
         words [''adb'', ''shell'', ''/data/install-bootimage.sh''],
         words [''adb'', ''shell'', ''/data/unpack-debian.sh'']] @
        (if use_qemu then [] else [words [''adb'', ''shell'', ''/data/bootstrap-debian.sh'']]) @
        [words [''adb'', ''shell'', ''rm'', ''/data/install-bootimage.sh'', ''/data/unpack-debian.sh'',
          ''/data/bootstrap-debian.sh'']] = ds @ es \<and>
        make_install_to_device (traced run) all_built use_qemu (w, []) =
          (if all_succeed run (ds @ es) w1 then Goes_On 0 else Exited 2, (run_all run ds w1, tr1 @ ds)) \<and>
        (all_succeed run (ds @ es) w1 \<longrightarrow> es = [])))"
  using after_prerequisite [where p = all_built and w = w and run = run and
      cs = "install_commands use_qemu", OF assms]
  unfolding make_install_to_device_def install_commands_list .

end
