(* ===== verification/Spec2Isabelle.thy ===== *)
theory Spec2Isabelle
  imports Cec_Bus Cec_Log_Addrs Stl_Sort Stl_Match Stl_Extrema Stl_Permutation Rnd_Twister
    Inst_Device Inst_Host
begin

text \<open>
  \<^bold>\<open>Bananian: a verification library.\<close>
  Bananian puts Debian on KaiOS phones. Its repository has a \<open>Makefile\<close> and shell scripts that build
  the Debian tree and the boot image, install them on the phone and enter the tree there, a ramdisk,
  prebuilt kernel modules, and \<open>sysincludes/\<close>, the system headers programs for the phone are compiled
  against. The library models three parts: the control messages of \<open>linux/cec.h\<close> and
  \<open>linux/cec-funcs.h\<close>, algorithms and random number engines of the C++ library in \<open>c++/8/bits\<close>, and
  the scripts with the \<open>Makefile\<close>.

  \<^bold>\<open>Conventions.\<close>
  Definitions keep the names of the source without leading underscores; a C++ function with two
  leading underscores ends in \<open>_impl\<close> where the plain name is taken. Machine integers are words and
  wrap around. An access outside an object makes the result \<open>None\<close>, so that a theorem that a function
  returns \<open>Some\<close> says that it stays inside its memory. \<open>Prelude\<close> has the integer types, splitting and
  joining of half-words, bit fields, binary coded decimal, buffers with checked accesses, \<open>memcpy\<close>
  and \<open>strlen\<close>.

  \<^bold>\<open>Consumer Electronics Control.\<close>
  \<open>sysincludes/linux/cec.h\<close> declares the message structure and its accessors,
  \<open>sysincludes/linux/cec-funcs.h\<close> a pair of functions for every message of the protocol:
  \<open>cec_msg_x\<close> writes opcode and operands into a message, \<open>cec_ops_x\<close> reads them back.

    \<^item> \<open>Cec_Const\<close>: the opcodes and operand values, as in \<open>cec.h\<close>.
    \<^item> \<open>Cec_Msg\<close>: \<open>struct cec_msg\<close> as the record \<open>cec_msg\<close> with the source's field names, and the
      accessors.
    \<^item> \<open>Cec_Codec\<close>: frames as an abstract specification of a message, the contract a builder keeps
      (locale \<open>cec_builder\<close>), the contract of a builder and its parser (\<open>cec_codec\<close>), features that
      own their opcodes (\<open>cec_feature\<close>), and two features side by side (\<open>cec_two\<close>).
    \<^item> \<open>Cec_Routing\<close>, \<open>Cec_Record\<close>, \<open>Cec_Timer\<close>, \<open>Cec_System\<close>, \<open>Cec_Tuner\<close>, \<open>Cec_Vendor\<close>,
      \<open>Cec_Osd\<close>, \<open>Cec_General\<close>, \<open>Cec_Audio\<close>, \<open>Cec_Cdc\<close>: every function of \<open>cec-funcs.h\<close>, in the
      order of the header, a datatype of the commands of the feature, the frames the code gives them,
      and the interpretation of \<open>cec_feature\<close>. \<open>x_fits\<close> says that operands fit their fields, \<open>x_heard\<close>
      what a receiver makes of a command, and \<open>x_garbled\<close> for which commands that is another one;
      where \<open>x_heard\<close> is missing it is the identity.
    \<^item> \<open>Cec_Bus\<close>: all features together. What is built, transmitted and parsed comes back as
      \<open>cec_heard\<close>, the same command but for the four kinds the code garbles; parsing is memory safe on
      everything; builders implement their frames and keep the addresses.
    \<^item> \<open>Cec_Log_Addrs\<close>: logical address masks and the classification of devices.

  The functions \<open>cec_msg_*\<close> and \<open>cec_ops_*\<close> and their helpers are translated from the source. The
  headers leave it to the application to choose the function by command or opcode; the choice in
  \<open>*_send\<close> and \<open>*_recv\<close> and the frames in \<open>*_spec\<close> are the library's. The frames are those the code
  produces, so the frame of an HEC set-state request has the second opcode of an inquiry. The CEC
  framework, which writes the sender's address into a CDC message, is a parameter (locale
  \<open>cdc_framework\<close>).

  \<^bold>\<open>Algorithms of the C++ library.\<close>
  Iterators are positions in a list that stands for the array, or the list that is still to be read
  for input iterators. The comparison is any strict weak ordering (locale \<open>strict_weak_ordering\<close>),
  the overloads without one use \<open><\<close>.

    \<^item> \<open>Stl_Base\<close>: comparisons, orderings, rearrangements of a range.
    \<^item> \<open>Stl_Heap\<close> (\<open>stl_heap.h\<close>): every heap operation keeps its invariant; \<open>make_heap\<close> and \<open>sort_heap\<close>
      sort.
    \<^item> \<open>Stl_Sort\<close>: \<open>sort\<close> (introsort), \<open>partial_sort\<close>, \<open>nth_element\<close>, with the unguarded loops.
    \<^item> \<open>Stl_Search\<close>, \<open>Stl_Match\<close>: \<open>find\<close> and its unrolled loop, binary searches, \<open>search\<close>, \<open>search_n\<close>
      with both of its loops.
    \<^item> \<open>Stl_Extrema\<close>: smallest and greatest elements, order tests.
    \<^item> \<open>Stl_Set\<close>: \<open>merge\<close>, \<open>includes\<close> and the set operations, on groups of equivalent elements and as
      multisets.
    \<^item> \<open>Stl_Rotate\<close>: reversal and the three implementations of \<open>rotate\<close>.
    \<^item> \<open>Stl_Stable\<close>: \<open>stable_sort\<close> and \<open>inplace_merge\<close>, with and without a temporary buffer
      (\<open>stl_tempbuf.h\<close>); whether an allocation succeeds is a parameter.
    \<^item> \<open>Stl_Partition\<close>: \<open>partition\<close>, \<open>stable_partition\<close>, \<open>remove_if\<close>, \<open>unique\<close>.
    \<^item> \<open>Stl_Permutation\<close>: \<open>next_permutation\<close>, \<open>prev_permutation\<close>, \<open>is_permutation\<close>,
      \<open>lexicographical_compare\<close>.

  \<^bold>\<open>Random number engines.\<close>
  The template parameters are records, the unsigned type a word of any length. Seed sequences and
  the presence of 128-bit integers are parameters.

    \<^item> \<open>Rnd_Lcg\<close>: \<open>linear_congruential_engine\<close>; the three ways to compute a congruence agree with it.
    \<^item> \<open>Rnd_Twister\<close>: \<open>mersenne_twister_engine\<close>, whose numbers are those of its recurrence, and
      \<open>subtract_with_carry_engine\<close>, with the width at which its carry is lost.

  \<^bold>\<open>Scripts.\<close>
  A script is a function on the world; \<open>run\<close>, a parameter, says what an external command does. The
  theorems are about the commands that are run, their order, and what is made of their status.

    \<^item> \<open>Inst_Shell\<close>: sequences, conditions, \<open>set -e\<close>, subshells, field splitting, traces of commands.
    \<^item> \<open>Inst_Device\<close>: \<open>on-device-scripts/\<close> and \<open>ramdisk/init\<close>.
    \<^item> \<open>Inst_Host\<close>: \<open>scripts/check\<close>, \<open>scripts/qemubootstrap\<close> and the recipes of the \<open>Makefile\<close>. File
      names a pattern expands to, tests on files, the output of \<open>id -u\<close> and which targets \<open>make\<close>
      finds out of date are parameters.

  \<^bold>\<open>Loops.\<close>
  There is no fuel. Most loops are structural recursions or functions with a measure. Those that end
  only for valid arguments are \<open>partial_function\<close>s with \<open>None\<close> for not returning: the loop of
  \<open>search_n\<close>, the loops of \<open>stable_sort\<close>, \<open>inplace_merge\<close> and \<open>stable_partition\<close>, and \<open>discard\<close> of the
  Mersenne twister. Their theorems say that they return \<open>Some\<close> result, and which.

  \<^bold>\<open>What is not modelled.\<close>
  The rest of \<open>sysincludes/\<close>: declarations, constants and structures without code, and C++ containers,
  strings, streams, threads and distributions, which allocate, throw or rest on code outside the
  repository. An older copy of the C++ headers (\<open>c++/4.9.4\<close>). \<open>scripts/pack-initrd\<close>, a pipeline of
  external programs. Signals and the traps for them. The kernel, its modules and the documentation.
\<close>

end
